(* ===== verification/Atomix_Prelude.thy ===== *)
theory Atomix_Prelude
  imports Main "HOL-Library.Word" "HOL-Library.List_Lexorder"
begin

text \<open>
  Shared vocabulary of the development: the machine types of the Rust sources, the
  result type of a fallible Rust call (a value, an error, or a panic), reachability of
  a step relation with the invariant rule as a locale, the print/parse interface, and the
  generic lemmas on lists, maps, decimal numerals and 64 bit words that the components use.
\<close>

section \<open>Types\<close>

text \<open>
  A \<^verbatim>\<open>u64\<close> is a 64 bit word with wrapping arithmetic (the release profile the
  images are built with); an \<^verbatim>\<open>i64\<close> is the same bit pattern, so that an \<^verbatim>\<open>as\<close> cast
  between the two is the identity. A \<^verbatim>\<open>Bytes\<close> value is a list of bytes, ordered
  lexicographically. A \<^verbatim>\<open>Uuid\<close> is its big-endian 128 bit value: comparing the 16 bytes
  lexicographically is comparing these values.
\<close>

type_synonym u64 = "64 word"
type_synonym i64 = "64 word"
type_synonym bytes = "8 word list"
type_synonym uuid = "128 word"
type_synonym utc = int
type_synonym chan = nat

text \<open>
  The result of a Rust function: \<^verbatim>\<open>Result\<close> with the additional outcome that the
  code panicked (\<^verbatim>\<open>unwrap\<close>, \<^verbatim>\<open>panic!\<close>, \<^verbatim>\<open>assert!\<close>).
\<close>

datatype ('e, 'a) outcome = Ok 'a | Err 'e | Panic

fun and_then :: "('e, 'a) outcome \<Rightarrow> ('a \<Rightarrow> ('e, 'b) outcome) \<Rightarrow> ('e, 'b) outcome" where
  "and_then (Ok a) f = f a"
| "and_then (Err e) f = Err e"
| "and_then Panic f = Panic"

fun map_err :: "('e \<Rightarrow> 'f) \<Rightarrow> ('e, 'a) outcome \<Rightarrow> ('f, 'a) outcome" where
  "map_err h (Ok a) = Ok a"
| "map_err h (Err e) = Err (h e)"
| "map_err h Panic = Panic"

fun unwrap :: "('e, 'a) outcome \<Rightarrow> ('f, 'a) outcome" where
  "unwrap (Ok a) = Ok a"
| "unwrap _ = Panic"

fun is_ok :: "('e, 'a) outcome \<Rightarrow> bool" where
  "is_ok (Ok _) = True"
| "is_ok _ = False"

section \<open>Strings\<close>

text \<open>\<^verbatim>\<open>str::split\<close> on one character: the parts between its occurrences, at least one.\<close>

fun split_on :: "char \<Rightarrow> string \<Rightarrow> string list" where
  "split_on c [] = [[]]"
| "split_on c (x # xs) =
     (if x = c then [] # split_on c xs
      else case split_on c xs of [] \<Rightarrow> [[x]] | p # ps \<Rightarrow> (x # p) # ps)"

text \<open>\<^verbatim>\<open>Display\<close> of an unsigned integer and \<^verbatim>\<open>str::parse\<close> to one below a bound: an
  optional plus sign, then decimal digits, at least one.\<close>

definition digit_char :: "nat \<Rightarrow> char" where
  "digit_char d = char_of (48 + d)"

definition char_digit :: "char \<Rightarrow> nat option" where
  "char_digit c = (let n = (of_char c :: nat) in
     if 48 \<le> n \<and> n \<le> 57 then Some (n - 48) else None)"

fun show_nat :: "nat \<Rightarrow> string" where
  "show_nat n = (if n < 10 then [digit_char n]
                 else show_nat (n div 10) @ [digit_char (n mod 10)])"

declare show_nat.simps [simp del]

fun parse_digits :: "nat \<Rightarrow> nat \<Rightarrow> string \<Rightarrow> (string, nat) outcome" where
  "parse_digits bound acc [] = Ok acc"
| "parse_digits bound acc (c # cs) =
     (case char_digit c of
        None \<Rightarrow> Err ''invalid digit found in string''
      | Some d \<Rightarrow> (if acc * 10 + d < bound then parse_digits bound (acc * 10 + d) cs
                   else Err ''number too large to fit in target type''))"

definition parse_unsigned :: "nat \<Rightarrow> string \<Rightarrow> (string, nat) outcome" where
  "parse_unsigned bound s =
     (case s of
        [] \<Rightarrow> Err ''cannot parse integer from empty string''
      | c # cs \<Rightarrow>
          (if c = CHR ''+'' then
             (if cs = [] then Err ''invalid digit found in string'' else parse_digits bound 0 cs)
           else parse_digits bound 0 s))"

section \<open>Sets in ascending order\<close>

text \<open>A \<^verbatim>\<open>BTreeSet\<close> is the ascending list of its elements, the order in which it is iterated.\<close>

definition bset_insert :: "'a::linorder \<Rightarrow> 'a list \<Rightarrow> 'a list" where
  "bset_insert x s = (if x \<in> set s then s else insort x s)"

definition bset_remove :: "'a::linorder \<Rightarrow> 'a list \<Rightarrow> 'a list" where
  "bset_remove x s = filter (\<lambda>y. y \<noteq> x) s"

definition bset_wf :: "'a::linorder list \<Rightarrow> bool" where
  "bset_wf s \<longleftrightarrow> sorted s \<and> distinct s"

section \<open>Step relations and invariants\<close>

inductive reachable :: "('s \<Rightarrow> bool) \<Rightarrow> ('s \<Rightarrow> 's \<Rightarrow> bool) \<Rightarrow> 's \<Rightarrow> bool"
  for init step where
  reach_init: "init s \<Longrightarrow> reachable init step s"
| reach_step: "reachable init step s \<Longrightarrow> step s t \<Longrightarrow> reachable init step t"

inductive steps_to :: "('s \<Rightarrow> 's \<Rightarrow> bool) \<Rightarrow> 's \<Rightarrow> 's \<Rightarrow> bool" for step where
  steps_refl: "steps_to step s s"
| steps_trans: "steps_to step s t \<Longrightarrow> step t u \<Longrightarrow> steps_to step s u"

section \<open>Rules for proofs\<close>

named_theorems inv_intros "introduction rules of the component invariants"
named_theorems op_defs "definitions of the component operations"

lemma and_then_eq_Ok [simp]:
  "and_then r f = Ok b \<longleftrightarrow> (\<exists>a. r = Ok a \<and> f a = Ok b)"
  by (cases r) auto

lemma map_err_eq_Ok [simp]: "map_err h r = Ok a \<longleftrightarrow> r = Ok a"
  by (cases r) auto

lemma is_ok_iff: "is_ok r \<longleftrightarrow> (\<exists>a. r = Ok a)"
  by (cases r) auto

lemma split_on_not_Nil [simp]: "split_on c s \<noteq> []"
  by (cases s) (auto split: list.splits)

lemma split_on_free: "c \<notin> set s \<Longrightarrow> split_on c s = [s]"
  by (induction s) auto

lemma split_on_append:
  "c \<notin> set a \<Longrightarrow> split_on c (a @ c # b) = a # split_on c b"
  by (induction a) auto

lemma split_on_parts_free: "p \<in> set (split_on c s) \<Longrightarrow> c \<notin> set p"
proof (induction s arbitrary: p)
  case Nil
  then show ?case by simp
next
  case (Cons x xs)
  obtain q qs where q: "split_on c xs = q # qs"
    by (cases "split_on c xs") auto
  show ?case
    using Cons.prems Cons.IH q by (cases "x = c") auto
qed

lemma char_digit_digit_char: "d < 10 \<Longrightarrow> char_digit (digit_char d) = Some d"
  by (simp add: char_digit_def digit_char_def Let_def of_char_of take_bit_eq_mod)

lemma show_nat_not_Nil [simp]: "show_nat n \<noteq> []"
  by (subst show_nat.simps) simp

lemma show_nat_digits: "c \<in> set (show_nat n) \<Longrightarrow> \<exists>d<10. c = digit_char d"
proof (induction n rule: show_nat.induct)
  case (1 n)
  show ?case
  proof (cases "n < 10")
    case True
    then show ?thesis using 1 by (auto simp: show_nat.simps [of n])
  next
    case False
    then have "c \<in> set (show_nat (n div 10)) \<or> c = digit_char (n mod 10)"
      using "1.prems" by (auto simp: show_nat.simps [of n])
    moreover have "n mod 10 < 10" by simp
    ultimately show ?thesis using "1.IH" False by blast
  qed
qed

lemma show_nat_free:
  assumes "char_digit c = None" shows "c \<notin> set (show_nat n)"
proof
  assume "c \<in> set (show_nat n)"
  then obtain d where "d < 10" "c = digit_char d" using show_nat_digits by blast
  then show False using assms char_digit_digit_char by simp
qed

lemma parse_digits_append:
  "parse_digits bound acc (xs @ ys) =
     and_then (parse_digits bound acc xs) (\<lambda>a. parse_digits bound a ys)"
  by (induction xs arbitrary: acc) (auto split: option.splits)

lemma parse_digits_show_nat: "n < bound \<Longrightarrow> parse_digits bound 0 (show_nat n) = Ok n"
proof (induction n rule: show_nat.induct)
  case (1 n)
  show ?case
  proof (cases "n < 10")
    case True
    then show ?thesis using 1 by (simp add: show_nat.simps [of n] char_digit_digit_char)
  next
    case False
    have "n div 10 < bound" using "1.prems" by (meson div_le_dividend le_less_trans)
    then have "parse_digits bound 0 (show_nat (n div 10)) = Ok (n div 10)"
      using "1.IH" False by simp
    moreover have "n div 10 * 10 + n mod 10 = n" by simp
    ultimately show ?thesis
      using False "1.prems"
      by (subst show_nat.simps) (simp add: parse_digits_append char_digit_digit_char)
  qed
qed

lemma parse_unsigned_show_nat: "n < bound \<Longrightarrow> parse_unsigned bound (show_nat n) = Ok n"
proof -
  assume n: "n < bound"
  have "CHR ''+'' \<notin> set (show_nat n)"
    by (rule show_nat_free) code_simp
  then show ?thesis
    using parse_digits_show_nat [OF n]
    by (auto simp: parse_unsigned_def split: list.splits)
qed

lemma parse_digits_bound: "parse_digits bound acc s = Ok n \<Longrightarrow> acc < bound \<Longrightarrow> n < bound"
  by (induction s arbitrary: acc) (auto split: option.splits if_splits)

lemma set_bset_insert [simp]: "set (bset_insert x s) = insert x (set s)"
  by (auto simp: bset_insert_def set_insort_key)

lemma set_bset_remove [simp]: "set (bset_remove x s) = set s - {x}"
  by (auto simp: bset_remove_def)

lemma bset_insert_not_Nil [simp]: "bset_insert x s \<noteq> []"
  by (auto simp: bset_insert_def)

lemma bset_remove_Nil_iff: "bset_remove x s = [] \<longleftrightarrow> set s \<subseteq> {x}"
  by (auto simp: bset_remove_def filter_empty_conv)

lemma bset_wf_insert [simp]: "bset_wf s \<Longrightarrow> bset_wf (bset_insert x s)"
  by (auto simp: bset_wf_def bset_insert_def sorted_insort distinct_insort)

lemma bset_wf_remove [simp]: "bset_wf s \<Longrightarrow> bset_wf (bset_remove x s)"
  by (auto simp: bset_wf_def bset_remove_def sorted_wrt_filter)

lemma bset_wf_single [simp]: "bset_wf [x]" "bset_wf []"
  by (simp_all add: bset_wf_def)

subsection \<open>Words\<close>

lemma unat_add_no_overflow:
  "unat a + unat b < 2 ^ LENGTH('a) \<Longrightarrow> unat (a + b) = unat a + unat (b :: 'a::len word)"
  by (simp add: unat_word_ariths)

lemma unat_add_one: "a \<noteq> - 1 \<Longrightarrow> unat (a + 1) = unat (a :: 'a::len word) + 1"
  using unatSuc [of a] by (simp add: add.commute add_eq_0_iff)

subsection \<open>Interfaces\<close>

text \<open>
  An invariant of a step relation. A component interprets the locale with its own initial
  states, steps and invariant, and gets the invariant of all reachable states.
\<close>

locale invariant_system =
  fixes init :: "'s \<Rightarrow> bool" and step :: "'s \<Rightarrow> 's \<Rightarrow> bool" and inv :: "'s \<Rightarrow> bool"
  assumes inv_init: "init s \<Longrightarrow> inv s"
    and inv_step: "inv s \<Longrightarrow> step s t \<Longrightarrow> inv t"
begin

lemma reachable_inv: "reachable init step s \<Longrightarrow> inv s"
  by (induction rule: reachable.induct) (auto intro: inv_init inv_step)

lemma steps_inv: "steps_to step s t \<Longrightarrow> inv s \<Longrightarrow> inv t"
  by (induction rule: steps_to.induct) (auto intro: inv_step)

lemma steps_reachable:
  "steps_to step s t \<Longrightarrow> reachable init step s \<Longrightarrow> reachable init step t"
  by (induction rule: steps_to.induct) (auto intro: reach_step)

end

text \<open>
  A printer with a parser that reads its output back on a domain of well-formed values, and
  that accepts nothing but well-formed values.
\<close>

locale print_parse =
  fixes wf :: "'a \<Rightarrow> bool" and print :: "'a \<Rightarrow> 'b" and parse :: "'b \<Rightarrow> ('e, 'a) outcome"
  assumes parse_print: "wf x \<Longrightarrow> parse (print x) = Ok x"
begin

lemma print_inj: "wf x \<Longrightarrow> wf y \<Longrightarrow> print x = print y \<Longrightarrow> x = y"
  using parse_print by (metis outcome.inject(1))

lemma print_inj_on: "inj_on print {x. wf x}"
  by (rule inj_onI) (simp add: print_inj)

end

end
