(* ===== verification/Common_Types.thy ===== *)
theory Common_Types
  imports Atomix_Prelude
begin

unbundle bit_operations_syntax

text \<open>
  The types of the \<^verbatim>\<open>common\<close> crate shared by all services (key ranges, regions, zones,
  host and port pairs, identifiers, transaction information), the protobuf messages they are
  converted to, and the flatbuffer encoding of identifiers. Printing and parsing of
  clouds, regions, zones and host/port pairs is interpreted as \<open>print_parse\<close>.
\<close>

section \<open>Definitions\<close>

subsection \<open>Protobuf messages (proto/src/universe.proto)\<close>

datatype proto_cloud = PublicCloud "32 word" | OtherCloud string

record proto_region =
  pr_cloud :: "proto_cloud option"
  pr_name :: string

record proto_zone =
  pz_region :: "proto_region option"
  pz_name :: string

record proto_key_range =
  base_range_uuid :: string
  pkr_lower_bound_inclusive :: bytes
  pkr_upper_bound_exclusive :: bytes

subsection \<open>Key ranges (common/src/key_range.rs)\<close>

record key_range =
  lower_bound_inclusive :: "bytes option"
  upper_bound_exclusive :: "bytes option"

definition key_range_includes :: "key_range \<Rightarrow> bytes \<Rightarrow> bool" where
  "key_range_includes kr key =
     ((case lower_bound_inclusive kr of None \<Rightarrow> True | Some b \<Rightarrow> key \<ge> b) \<and>
      (case upper_bound_exclusive kr of None \<Rightarrow> True | Some b \<Rightarrow> key < b))"

definition key_range_all :: key_range where
  "key_range_all = \<lparr>lower_bound_inclusive = None, upper_bound_exclusive = None\<rparr>"

definition key_range_empty :: key_range where
  "key_range_empty = \<lparr>lower_bound_inclusive = Some [], upper_bound_exclusive = Some []\<rparr>"

definition key_range_from_proto :: "proto_key_range \<Rightarrow> key_range" where
  "key_range_from_proto kr =
     \<lparr>lower_bound_inclusive = Some (pkr_lower_bound_inclusive kr),
      upper_bound_exclusive = Some (pkr_upper_bound_exclusive kr)\<rparr>"

subsection \<open>Clouds, regions and zones (common/src/region.rs)\<close>

datatype cloud = Aws | Azure | Gcp | Other string

record region =
  reg_cloud :: "cloud option"
  reg_name :: string

record zone =
  zone_region :: region
  zone_name :: string

definition region_to_proto :: "region \<Rightarrow> proto_region" where
  "region_to_proto val =
     \<lparr>pr_cloud = map_option (\<lambda>c. case c of
          Aws \<Rightarrow> PublicCloud 0
        | Azure \<Rightarrow> PublicCloud 1
        | Gcp \<Rightarrow> PublicCloud 2
        | Other s \<Rightarrow> OtherCloud s) (reg_cloud val),
      pr_name = reg_name val\<rparr>"

definition zone_to_proto :: "zone \<Rightarrow> proto_zone" where
  "zone_to_proto val =
     \<lparr>pz_region = Some (region_to_proto (zone_region val)), pz_name = zone_name val\<rparr>"

fun cloud_to_string :: "cloud \<Rightarrow> string" where
  "cloud_to_string Aws = ''aws''"
| "cloud_to_string Azure = ''azure''"
| "cloud_to_string Gcp = ''gcp''"
| "cloud_to_string (Other s) = s"

definition cloud_from_str :: "string \<Rightarrow> (string, cloud) outcome" where
  "cloud_from_str s =
     (if s = ''aws'' then Ok Aws
      else if s = ''azure'' then Ok Azure
      else if s = ''gcp'' then Ok Gcp
      else Ok (Other s))"

definition region_to_string :: "region \<Rightarrow> string" where
  "region_to_string r =
     (case reg_cloud r of
        None \<Rightarrow> reg_name r
      | Some c \<Rightarrow> cloud_to_string c @ '':'' @ reg_name r)"

definition region_from_str :: "string \<Rightarrow> (string, region) outcome" where
  "region_from_str s =
     (case split_on (CHR '':'') s of
        [_] \<Rightarrow> Ok \<lparr>reg_cloud = None, reg_name = s\<rparr>
      | [p0, p1] \<Rightarrow> and_then (cloud_from_str p0)
                      (\<lambda>c. Ok \<lparr>reg_cloud = Some c, reg_name = p1\<rparr>)
      | _ \<Rightarrow> Err ''invalid region string'')"

definition region_serialize :: "region \<Rightarrow> string" where
  "region_serialize r = region_to_string r"

definition region_visit_string :: "string \<Rightarrow> (string, region) outcome" where
  "region_visit_string value = unwrap (region_from_str value)"

definition zone_to_string :: "zone \<Rightarrow> string" where
  "zone_to_string z = region_to_string (zone_region z) @ ''/'' @ zone_name z"

definition zone_from_str :: "string \<Rightarrow> (string, zone) outcome" where
  "zone_from_str s =
     (let parts = split_on (CHR ''/'') s in
      if length parts \<noteq> 2 then Err ''Invalid zone string''
      else and_then (region_from_str (parts ! 0))
             (\<lambda>r. Ok \<lparr>zone_region = r, zone_name = parts ! 1\<rparr>))"

definition zone_serialize :: "zone \<Rightarrow> string" where
  "zone_serialize z = zone_to_string z"

definition zone_visit_string :: "string \<Rightarrow> (string, zone) outcome" where
  "zone_visit_string value = unwrap (zone_from_str value)"

subsection \<open>Host and port (common/src/config.rs)\<close>

record host_port =
  hp_host :: string
  hp_port :: "16 word"

definition host_port_to_string :: "host_port \<Rightarrow> string" where
  "host_port_to_string hp = hp_host hp @ '':'' @ show_nat (unat (hp_port hp))"

definition parse_u16 :: "string \<Rightarrow> (string, 16 word) outcome" where
  "parse_u16 s = and_then (parse_unsigned (2 ^ 16) s) (\<lambda>n. Ok (of_nat n))"

definition host_port_from_str :: "string \<Rightarrow> (string, host_port) outcome" where
  "host_port_from_str s =
     (let parts = split_on (CHR '':'') s in
      if length parts \<noteq> 2 then Err ''Invalid HostPort format''
      else and_then (parse_u16 (parts ! 1))
             (\<lambda>port. Ok \<lparr>hp_host = parts ! 0, hp_port = port\<rparr>))"

definition host_port_serialize :: "host_port \<Rightarrow> string" where
  "host_port_serialize hp = host_port_to_string hp"

definition host_port_deserialize :: "string \<Rightarrow> (string, host_port) outcome" where
  "host_port_deserialize s =
     (let parts = split_on (CHR '':'') s in
      if length parts \<noteq> 2 then Err ''Invalid HostPort format''
      else and_then (parse_u16 (parts ! 1))
             (\<lambda>port. Ok \<lparr>hp_host = parts ! 0, hp_port = port\<rparr>))"

subsection \<open>Identifiers and transactions\<close>

record keyspace =
  ks_namespace :: string
  ks_name :: string

record keyspace_id =
  ksid_id :: uuid

definition keyspace_id_from_str :: "(string \<Rightarrow> uuid option) \<Rightarrow> string \<Rightarrow> (string, keyspace_id) outcome" where
  "keyspace_id_from_str parse_str s =
     (case parse_str s of None \<Rightarrow> Err ''Invalid UUID'' | Some i \<Rightarrow> Ok \<lparr>ksid_id = i\<rparr>)"

record full_range_id =
  frid_keyspace_id :: keyspace_id
  frid_range_id :: uuid

record transaction_info =
  tx_id :: uuid
  started :: utc
  overall_timeout :: nat

record host_identity =
  hid_name :: string
  hid_zone :: zone

record host_info =
  identity :: host_identity
  address :: host_port
  warden_connection_epoch :: u64

record epoch_lease =
  el_lower_bound_inclusive :: u64
  el_upper_bound_inclusive :: u64

definition INVALID_LEADER_SEQUENCE_NUMBER :: i64 where
  "INVALID_LEADER_SEQUENCE_NUMBER = - 1"

definition UNSET_LEADER_SEQUENCE_NUMBER :: i64 where
  "UNSET_LEADER_SEQUENCE_NUMBER = 0"

subsection \<open>Identifiers in flatbuffers (common/src/util/flatbuf.rs)\<close>

text \<open>
  \<^verbatim>\<open>Uuid::to_u128_le\<close> and \<^verbatim>\<open>Uuid::from_u128_le\<close> belong to the uuid crate and are
  parameters. An optional table field is an option.
\<close>

record uuidu128 =
  uu_lower :: u64
  uu_upper :: u64

record fb_range_id =
  fb_keyspace_id :: "uuidu128 option"
  fb_range_id :: "uuidu128 option"

definition deserialize_uuid :: "(128 word \<Rightarrow> uuid) \<Rightarrow> uuidu128 \<Rightarrow> uuid" where
  "deserialize_uuid from_u128_le uuidf =
     from_u128_le (push_bit 64 (ucast (uu_upper uuidf)) OR ucast (uu_lower uuidf))"

definition serialize_uuid :: "(uuid \<Rightarrow> 128 word) \<Rightarrow> uuid \<Rightarrow> uuidu128" where
  "serialize_uuid to_u128_le u =
     (let uint128 = to_u128_le u in
      \<lparr>uu_lower = ucast uint128, uu_upper = ucast (drop_bit 64 uint128)\<rparr>)"

definition serialize_range_id :: "(uuid \<Rightarrow> 128 word) \<Rightarrow> full_range_id \<Rightarrow> fb_range_id" where
  "serialize_range_id to_u128_le i =
     \<lparr>fb_keyspace_id = Some (serialize_uuid to_u128_le (ksid_id (frid_keyspace_id i))),
      fb_range_id = Some (serialize_uuid to_u128_le (frid_range_id i))\<rparr>"

definition deserialize_range_id ::
  "(128 word \<Rightarrow> uuid) \<Rightarrow> fb_range_id \<Rightarrow> full_range_id option" where
  "deserialize_range_id from_u128_le i =
     (case fb_keyspace_id i of
        None \<Rightarrow> None
      | Some k \<Rightarrow> (case fb_range_id i of
          None \<Rightarrow> None
        | Some r \<Rightarrow> Some \<lparr>frid_keyspace_id = \<lparr>ksid_id = deserialize_uuid from_u128_le k\<rparr>,
                          frid_range_id = deserialize_uuid from_u128_le r\<rparr>))"

subsection \<open>Well-formed names\<close>

text \<open>The values whose printed form is unambiguous.\<close>

definition wf_cloud :: "cloud \<Rightarrow> bool" where
  "wf_cloud c = (case c of Other s \<Rightarrow> s \<notin> {''aws'', ''azure'', ''gcp''} | _ \<Rightarrow> True)"

definition wf_region :: "region \<Rightarrow> bool" where
  "wf_region r = (CHR '':'' \<notin> set (reg_name r) \<and>
     (case reg_cloud r of None \<Rightarrow> True
      | Some c \<Rightarrow> wf_cloud c \<and> CHR '':'' \<notin> set (cloud_to_string c)))"

definition wf_zone :: "zone \<Rightarrow> bool" where
  "wf_zone z = (wf_region (zone_region z) \<and> CHR ''/'' \<notin> set (region_to_string (zone_region z)) \<and>
     CHR ''/'' \<notin> set (zone_name z))"

definition wf_host_port :: "host_port \<Rightarrow> bool" where
  "wf_host_port hp = (CHR '':'' \<notin> set (hp_host hp))"

section \<open>Printing and parsing\<close>

lemma cloud_parse_print: "wf_cloud c \<Longrightarrow> cloud_from_str (cloud_to_string c) = Ok c"
  by (cases c) (auto simp: wf_cloud_def cloud_from_str_def)

lemma cloud_print_parse: "cloud_from_str s = Ok c \<Longrightarrow> cloud_to_string c = s \<and> wf_cloud c"
  by (auto simp: cloud_from_str_def wf_cloud_def split: if_splits)

lemma region_parse_print: "wf_region r \<Longrightarrow> region_from_str (region_to_string r) = Ok r"
  by (cases "reg_cloud r")
    (auto simp: wf_region_def region_from_str_def region_to_string_def split_on_free
       split_on_append cloud_parse_print)

lemma split_on_join2: "split_on c s = [a, b] \<Longrightarrow> s = a @ c # b"
proof (induction s arbitrary: a)
  case (Cons x xs)
  show ?case
  proof (cases "x = c")
    case True
    then have "a = []" "split_on c xs = [b]" using Cons.prems by auto
    moreover have "\<And>t. split_on c xs = [t] \<Longrightarrow> xs = t"
      by (induction xs) (auto split: if_splits list.splits)
    ultimately show ?thesis using True by auto
  next
    case False
    then obtain p where "split_on c xs = [p, b]" "a = x # p"
      using Cons.prems by (auto split: list.splits)
    then show ?thesis using Cons.IH by simp
  qed
qed simp

lemma split_on_single: "split_on c s = [t] \<Longrightarrow> s = t"
  by (induction s arbitrary: t) (auto split: if_splits list.splits)

lemma region_print_parse:
  assumes "region_from_str s = Ok r" shows "region_to_string r = s \<and> wf_region r"
proof -
  consider (one) p where "split_on (CHR '':'') s = [p]"
    | (two) p q where "split_on (CHR '':'') s = [p, q]"
    using assms by (auto simp: region_from_str_def split: list.splits)
  then show ?thesis
  proof cases
    case one
    moreover have "CHR '':'' \<notin> set s"
      using split_on_parts_free [of p "CHR '':''" s] split_on_single [OF one] one by simp
    ultimately show ?thesis
      using assms by (auto simp: region_from_str_def region_to_string_def wf_region_def)
  next
    case two
    then have "CHR '':'' \<notin> set p" "CHR '':'' \<notin> set q" "s = p @ CHR '':'' # q"
      using split_on_parts_free [of _ "CHR '':''" s] split_on_join2 by force+
    then show ?thesis
      using assms two cloud_print_parse [of p]
      by (auto simp: region_from_str_def region_to_string_def wf_region_def)
  qed
qed

lemma zone_parse_print: "wf_zone z \<Longrightarrow> zone_from_str (zone_to_string z) = Ok z"
  by (auto simp: wf_zone_def zone_from_str_def zone_to_string_def split_on_append split_on_free
      region_parse_print)

lemma zone_print_parse:
  assumes "zone_from_str s = Ok z" shows "zone_to_string z = s \<and> wf_zone z"
proof -
  obtain p q where pq: "split_on (CHR ''/'') s = [p, q]"
    using assms by (auto simp: zone_from_str_def Let_def length_Suc_conv numeral_2_eq_2
        split: if_splits)
  then have "CHR ''/'' \<notin> set p" "CHR ''/'' \<notin> set q" "s = p @ CHR ''/'' # q"
    using split_on_parts_free [of _ "CHR ''/''" s] split_on_join2 by force+
  then show ?thesis
    using assms pq region_print_parse [of p]
    by (auto simp: zone_from_str_def zone_to_string_def wf_zone_def)
qed

lemma parse_u16_show: "parse_u16 (show_nat (unat w)) = Ok w"
proof -
  have "unat w < 2 ^ 16" using unsigned_less [of w] by simp
  then show ?thesis
    by (simp add: parse_u16_def parse_unsigned_show_nat)
qed

lemma host_port_parse_print:
  "wf_host_port hp \<Longrightarrow> host_port_from_str (host_port_to_string hp) = Ok hp"
proof -
  assume hp: "wf_host_port hp"
  have "CHR '':'' \<notin> set (show_nat (unat (hp_port hp)))"
    by (rule show_nat_free) code_simp
  then show ?thesis
    using hp by (simp add: wf_host_port_def host_port_from_str_def host_port_to_string_def
        split_on_append split_on_free parse_u16_show)
qed

interpretation cloud_text: print_parse wf_cloud cloud_to_string cloud_from_str
  by unfold_locales (rule cloud_parse_print)

interpretation region_text: print_parse wf_region region_to_string region_from_str
  by unfold_locales (rule region_parse_print)

interpretation zone_text: print_parse wf_zone zone_to_string zone_from_str
  by unfold_locales (rule zone_parse_print)

interpretation host_port_text: print_parse wf_host_port host_port_to_string host_port_from_str
  by unfold_locales (rule host_port_parse_print)

section \<open>Identifiers\<close>

lemma word_halves:
  "push_bit 64 (ucast (ucast (drop_bit 64 w) :: u64)) OR ucast (ucast w :: u64) = (w :: 128 word)"
  by (rule bit_word_eqI)
    (auto simp: bit_push_bit_iff bit_or_iff bit_ucast_iff bit_drop_bit_eq not_less)

lemma deserialize_serialize_uuid:
  assumes "\<And>u. from_u128_le (to_u128_le u) = u"
  shows "deserialize_uuid from_u128_le (serialize_uuid to_u128_le u) = u"
  by (simp add: deserialize_uuid_def serialize_uuid_def Let_def word_halves assms)

lemma deserialize_serialize_range_id:
  assumes "\<And>u. from_u128_le (to_u128_le u) = u"
  shows "deserialize_range_id from_u128_le (serialize_range_id to_u128_le i) = Some i"
  by (simp add: deserialize_range_id_def serialize_range_id_def
      deserialize_serialize_uuid [of from_u128_le to_u128_le, OF assms])

section \<open>Key ranges\<close>

lemma includes_all [simp]: "key_range_includes key_range_all k"
  by (simp add: key_range_includes_def key_range_all_def)

lemma includes_empty [simp]: "\<not> key_range_includes key_range_empty k"
  by (simp add: key_range_includes_def key_range_empty_def)

lemma includes_from_proto:
  "key_range_includes (key_range_from_proto kr) k \<longleftrightarrow>
     pkr_lower_bound_inclusive kr \<le> k \<and> k < pkr_upper_bound_exclusive kr"
  by (simp add: key_range_includes_def key_range_from_proto_def)

end
