(* ===== verification/RS_Messages.thy ===== *)
theory RS_Messages
  imports Common_Types
begin

text \<open>
  The messages of the range server protocol (flatbuf/src/rangeserver/schema.fbs) as records of
  their fields, the errors of the range server and of the layers below it, and the conversions
  between them (rangeserver/src/error.rs). A table field that may be absent is an option. An
  error trait object is represented by its display text.
\<close>

section \<open>Definitions\<close>

subsection \<open>Flatbuffer tables\<close>

type_synonym fb_key = "bytes option"

record fb_record =
  fbr_key :: "fb_key option"
  fbr_value :: "bytes option"

datatype fb_status =
    StOk | StInvalidRequestFormat | StRangeDoesNotExist | StRangeIsNotLoaded | StKeyIsOutOfRange
  | StRangeOwnershipLost | StTimeout | StInternalError | StTransactionAborted
  | StUnknownTransaction | StCacheIsFull | StPrefetchError | StUnrecognised "8 word"

record get_request =
  gq_request_id :: "uuidu128 option"
  gq_transaction_id :: "uuidu128 option"
  gq_overall_timeout_us :: "nat option"
  gq_range_id :: "fb_range_id option"
  gq_keys :: "fb_key list option"

record get_response =
  gs_request_id :: "uuidu128 option"
  gs_status :: fb_status
  gs_leader_sequence_number :: i64
  gs_records :: "fb_record list option"

record prepare_request =
  pq_request_id :: "uuidu128 option"
  pq_transaction_id :: "uuidu128 option"
  pq_range_id :: "fb_range_id option"
  pq_has_reads :: bool
  pq_puts :: "fb_record list option"
  pq_deletes :: "fb_key list option"

record prepare_response =
  ps_request_id :: "uuidu128 option"
  ps_status :: fb_status
  ps_highest_known_epoch :: u64
  ps_epoch_lease :: "epoch_lease option"

record commit_request =
  cq_request_id :: "uuidu128 option"
  cq_transaction_id :: "uuidu128 option"
  cq_range_id :: "fb_range_id option"
  cq_epoch :: u64
  cq_vid :: i64

record commit_response =
  cs_request_id :: "uuidu128 option"
  cs_status :: fb_status

record abort_request =
  aq_request_id :: "uuidu128 option"
  aq_transaction_id :: "uuidu128 option"
  aq_range_id :: "fb_range_id option"

record abort_response =
  as_request_id :: "uuidu128 option"
  as_status :: fb_status

datatype log_entry_type = EntryPrepare | EntryCommit | EntryAbort

record log_entry =
  le_entry :: log_entry_type
  le_bytes :: "bytes option"

subsection \<open>Errors\<close>

datatype storage_error =
  StorageTimeout | StorageRangeDoesNotExist | StorageRangeOwnershipLost | StorageInternalError string

datatype wal_error = WalNotSynced | WalTimeout | WalInternal string

datatype cache_error = CacheTimeout | CacheIsFullError | CacheInternalError string

datatype epoch_supplier_error =
  EsInvalidRequestFormat | EsInvalidResponseFormat | EsTimeout | EsEpochUnknown | EsInternalError

datatype transaction_abort_reason = WaitDie | TransactionLockLost | OtherReason

datatype rs_error =
    InvalidRequestFormat | RangeDoesNotExist | RangeIsNotLoaded | KeyIsOutOfRange
  | RangeOwnershipLost | Timeout | ConnectionClosed | UnknownTransaction | CacheIsFull
  | PrefetchError | TransactionAborted transaction_abort_reason | InternalError string

text \<open>The display texts declared with the error types.\<close>

fun storage_error_text :: "storage_error \<Rightarrow> string" where
  "storage_error_text StorageTimeout = ''Timeout Error''"
| "storage_error_text StorageRangeDoesNotExist =
     ''No range with this id exists in the storage layer''"
| "storage_error_text StorageRangeOwnershipLost =
     ''Range ownership claimed by another range server''"
| "storage_error_text (StorageInternalError e) = ''Storage Layer error: '' @ e"

fun cache_error_text :: "cache_error \<Rightarrow> string" where
  "cache_error_text CacheTimeout = ''Timeout Error''"
| "cache_error_text CacheIsFullError = ''No space left in range cache''"
| "cache_error_text (CacheInternalError e) = ''range cache error: '' @ e"

fun epoch_supplier_error_text :: "epoch_supplier_error \<Rightarrow> string" where
  "epoch_supplier_error_text EsInvalidRequestFormat = ''Invalid Request Format Error''"
| "epoch_supplier_error_text EsInvalidResponseFormat = ''Invalid Response Format Error''"
| "epoch_supplier_error_text EsTimeout = ''Timeout Error''"
| "epoch_supplier_error_text EsEpochUnknown = ''Epoch Unknown Error''"
| "epoch_supplier_error_text EsInternalError = ''Unknown Internal Error''"

definition fmt_error_text :: string where
  "fmt_error_text = ''an error occurred when formatting an argument''"

fun from_storage_error :: "storage_error \<Rightarrow> rs_error" where
  "from_storage_error StorageRangeDoesNotExist = RangeDoesNotExist"
| "from_storage_error StorageRangeOwnershipLost = RangeOwnershipLost"
| "from_storage_error StorageTimeout = Timeout"
| "from_storage_error (StorageInternalError e) =
     InternalError (storage_error_text (StorageInternalError e))"

fun from_wal_error :: "wal_error \<Rightarrow> rs_error" where
  "from_wal_error WalTimeout = Timeout"
| "from_wal_error WalNotSynced = RangeOwnershipLost"
| "from_wal_error (WalInternal e) = InternalError e"

fun from_cache_error :: "cache_error \<Rightarrow> rs_error" where
  "from_cache_error CacheIsFullError = CacheIsFull"
| "from_cache_error CacheTimeout = Timeout"
| "from_cache_error (CacheInternalError e) =
     InternalError (cache_error_text (CacheInternalError e))"

definition from_epoch_supplier_error :: "epoch_supplier_error \<Rightarrow> rs_error" where
  "from_epoch_supplier_error e = InternalError (epoch_supplier_error_text e)"

fun to_flatbuf_status :: "rs_error \<Rightarrow> fb_status" where
  "to_flatbuf_status InvalidRequestFormat = StInvalidRequestFormat"
| "to_flatbuf_status RangeDoesNotExist = StRangeDoesNotExist"
| "to_flatbuf_status RangeIsNotLoaded = StRangeIsNotLoaded"
| "to_flatbuf_status KeyIsOutOfRange = StKeyIsOutOfRange"
| "to_flatbuf_status RangeOwnershipLost = StRangeOwnershipLost"
| "to_flatbuf_status Timeout = StTimeout"
| "to_flatbuf_status UnknownTransaction = StUnknownTransaction"
| "to_flatbuf_status (TransactionAborted _) = StTransactionAborted"
| "to_flatbuf_status CacheIsFull = StCacheIsFull"
| "to_flatbuf_status (InternalError _) = StInternalError"
| "to_flatbuf_status ConnectionClosed = StInternalError"
| "to_flatbuf_status PrefetchError = StPrefetchError"

fun from_flatbuf_status :: "fb_status \<Rightarrow> (rs_error, unit) outcome" where
  "from_flatbuf_status StOk = Ok ()"
| "from_flatbuf_status StInvalidRequestFormat = Err InvalidRequestFormat"
| "from_flatbuf_status StRangeDoesNotExist = Err RangeDoesNotExist"
| "from_flatbuf_status StRangeIsNotLoaded = Err RangeIsNotLoaded"
| "from_flatbuf_status StKeyIsOutOfRange = Err KeyIsOutOfRange"
| "from_flatbuf_status StRangeOwnershipLost = Err RangeOwnershipLost"
| "from_flatbuf_status StTimeout = Err Timeout"
| "from_flatbuf_status StUnknownTransaction = Err UnknownTransaction"
| "from_flatbuf_status StCacheIsFull = Err CacheIsFull"
| "from_flatbuf_status StTransactionAborted = Err (TransactionAborted OtherReason)"
| "from_flatbuf_status StInternalError = Err (InternalError fmt_error_text)"
| "from_flatbuf_status StPrefetchError = Err PrefetchError"
| "from_flatbuf_status (StUnrecognised _) = Err (InternalError fmt_error_text)"

text \<open>What is left of an error after a trip over the wire: the reason of an abort and the
  cause of an internal error are not transmitted.\<close>

fun wire_error :: "rs_error \<Rightarrow> rs_error" where
  "wire_error (TransactionAborted _) = TransactionAborted OtherReason"
| "wire_error (InternalError _) = InternalError fmt_error_text"
| "wire_error ConnectionClosed = InternalError fmt_error_text"
| "wire_error e = e"

section \<open>Lemmas\<close>

lemma status_round_trip: "from_flatbuf_status (to_flatbuf_status e) = Err (wire_error e)"
  by (cases e) auto

lemma to_flatbuf_status_not_Ok [simp]: "to_flatbuf_status e \<noteq> StOk"
  by (cases e) auto

lemma from_flatbuf_status_Ok_iff [simp]: "from_flatbuf_status s = Ok u \<longleftrightarrow> s = StOk"
  by (cases s) auto

end
