(* ===== verification/Cql.thy ===== *)
theory Cql
  imports RS_Messages
begin

text \<open>
  The database as the services see it. Cassandra and its driver are outside the sources: a
  session is a parameter \<open>exec\<close> of every operation that queries it. The statements of a component
  are a datatype (one constructor for each query text, with its bound values), and \<open>sem\<close> is
  the meaning CQL gives to them on the component's table. \<open>executes sem exec\<close> is what is
  documented of a session with serial consistency: a statement that succeeds has had
  exactly its effect, and one that fails has had its effect or none.
\<close>

datatype query_error = TimeoutError | DbWriteTimeout | OtherQueryError string

type_synonym ('stmt, 'db, 'res) session = "nat \<Rightarrow> 'stmt \<Rightarrow> 'db \<Rightarrow> (query_error, 'res) outcome \<times> 'db"

text \<open>The number is the position of the query in the operation, so that
  two queries of an operation may fare differently.\<close>

definition executes :: "('stmt \<Rightarrow> 'db \<Rightarrow> 'res \<times> 'db) \<Rightarrow> ('stmt, 'db, 'res) session \<Rightarrow> bool" where
  "executes sem exec \<longleftrightarrow> (\<forall>i s db. case exec i s db of
      (Ok r, db') \<Rightarrow> (r, db') = sem s db
    | (Err e, db') \<Rightarrow> db' = db \<or> db' = snd (sem s db)
    | (Panic, db') \<Rightarrow> False)"

text \<open>A session in which every statement succeeds.\<close>

definition reliable :: "('stmt \<Rightarrow> 'db \<Rightarrow> 'res \<times> 'db) \<Rightarrow> ('stmt, 'db, 'res) session" where
  "reliable sem i s db = (Ok (fst (sem s db)), snd (sem s db))"

lemma executes_reliable [simp]: "executes sem (reliable sem)"
  by (simp add: executes_def reliable_def)

lemma executes_at:
  "executes sem exec \<Longrightarrow> case exec i s db of
      (Ok r, db') \<Rightarrow> (r, db') = sem s db
    | (Err e, db') \<Rightarrow> db' = db \<or> db' = snd (sem s db)
    | (Panic, db') \<Rightarrow> False"
  by (simp add: executes_def)

lemma executes_OkD:
  "executes sem exec \<Longrightarrow> exec i s db = (Ok r, db') \<Longrightarrow> sem s db = (r, db')"
  using executes_at [of sem exec, where i = i and s = s and db = db] by simp

lemma executes_ErrD:
  "executes sem exec \<Longrightarrow> exec i s db = (Err e, db') \<Longrightarrow> db' = db \<or> db' = snd (sem s db)"
  using executes_at [of sem exec, where i = i and s = s and db = db] by simp

lemma executes_PanicD: "executes sem exec \<Longrightarrow> exec i s db \<noteq> (Panic, db')"
  using executes_at [of sem exec, where i = i and s = s and db = db] by auto

lemma executes_cases:
  assumes "executes sem exec"
  obtains "exec i s db = (Ok (fst (sem s db)), snd (sem s db))"
  | e where "exec i s db = (Err e, db)"
  | e where "exec i s db = (Err e, snd (sem s db))"
proof -
  obtain r db' where r: "exec i s db = (r, db')" by (cases "exec i s db")
  show ?thesis
  proof (cases r)
    case (Ok a)
    then show ?thesis using that(1) executes_OkD [OF assms, of i s db a db'] r by simp
  next
    case (Err e)
    then show ?thesis using that(2,3) executes_ErrD [OF assms, of i s db e db'] r by auto
  next
    case Panic
    then show ?thesis using executes_PanicD [OF assms] r by blast
  qed
qed

end
