(* ===== verification/Epoch_Storage.thy ===== *)
theory Epoch_Storage
  imports Cql
begin

text \<open>
  The storage of the global epoch (epoch/src/storage): the in-memory implementation, where 0
  means that the epoch is not initialised, and the Cassandra implementation, with a row for
  the region. Both are instances of the interface \<open>epoch_store\<close> that the epoch server relies on.
\<close>

section \<open>Definitions\<close>

datatype epoch_storage_error =
  EpTimeout | ConditionFailed | EpochNotInitialized | EpInternalError string

subsection \<open>In memory (epoch/src/storage/in\_memory.rs)\<close>

definition in_memory_new :: u64 where
  "in_memory_new = 0"

text \<open>\<^verbatim>\<open>AtomicU64::compare_exchange\<close>: whether it succeeded, and the new value.\<close>

definition compare_exchange :: "u64 \<Rightarrow> u64 \<Rightarrow> u64 \<Rightarrow> bool \<times> u64" where
  "compare_exchange current new v = (if v = current then (True, new) else (False, v))"

definition in_memory_initialize_epoch :: "u64 \<Rightarrow> (epoch_storage_error, unit) outcome \<times> u64" where
  "in_memory_initialize_epoch st = (Ok (), snd (compare_exchange 0 1 st))"

definition in_memory_read_latest :: "u64 \<Rightarrow> (epoch_storage_error, u64) outcome \<times> u64" where
  "in_memory_read_latest st = (if st = 0 then (Err EpochNotInitialized, st) else (Ok st, st))"

definition in_memory_conditional_update ::
  "u64 \<Rightarrow> u64 \<Rightarrow> u64 \<Rightarrow> (epoch_storage_error, unit) outcome \<times> u64" where
  "in_memory_conditional_update new_epoch current_epoch st =
     (if new_epoch < current_epoch then (Err ConditionFailed, st)
      else case compare_exchange current_epoch new_epoch st of
             (True, st') \<Rightarrow> (Ok (), st')
           | (False, st') \<Rightarrow> (Err ConditionFailed, st'))"

subsection \<open>Cassandra (epoch/src/storage/cassandra.rs)\<close>

record epoch_row =
  ep_epoch :: i64
  ep_timestamp :: utc

type_synonym epoch_table = "string \<rightharpoonup> epoch_row"

datatype epoch_stmt =
    INITIALIZE_EPOCH_QUERY string utc
  | GET_LATEST_EPOCH_QUERY string
  | UPDATE_EPOCH_QUERY i64 utc string i64

datatype epoch_rows = EpApplied "bool list" | EpRows "epoch_row list" | EpNoRows

fun epoch_sem :: "epoch_stmt \<Rightarrow> epoch_table \<Rightarrow> epoch_rows \<times> epoch_table" where
  "epoch_sem (INITIALIZE_EPOCH_QUERY r now) t =
     (case t r of
        None \<Rightarrow> (EpApplied [True], t(r \<mapsto> \<lparr>ep_epoch = 1, ep_timestamp = now\<rparr>))
      | Some _ \<Rightarrow> (EpApplied [False], t))"
| "epoch_sem (GET_LATEST_EPOCH_QUERY r) t =
     (EpRows (case t r of None \<Rightarrow> [] | Some row \<Rightarrow> [row]), t)"
| "epoch_sem (UPDATE_EPOCH_QUERY e now r c) t =
     (case t r of
        None \<Rightarrow> (EpApplied [False], t)
      | Some row \<Rightarrow> (if ep_epoch row = c
                     then (EpApplied [True], t(r \<mapsto> \<lparr>ep_epoch = e, ep_timestamp = now\<rparr>))
                     else (EpApplied [False], t)))"

type_synonym epoch_session = "(epoch_stmt, epoch_table, epoch_rows) session"

fun scylla_query_error_to_epoch_error :: "query_error \<Rightarrow> epoch_storage_error" where
  "scylla_query_error_to_epoch_error TimeoutError = EpTimeout"
| "scylla_query_error_to_epoch_error DbWriteTimeout = EpTimeout"
| "scylla_query_error_to_epoch_error (OtherQueryError e) = EpInternalError e"

definition cassandra_initialize_epoch ::
  "epoch_session \<Rightarrow> string \<Rightarrow> utc \<Rightarrow> epoch_table \<Rightarrow> (epoch_storage_error, unit) outcome \<times> epoch_table" where
  "cassandra_initialize_epoch exec region utcnow t =
     (case exec 0 (INITIALIZE_EPOCH_QUERY region utcnow) t of
        (Ok _, t') \<Rightarrow> (Ok (), t')
      | (Err qe, t') \<Rightarrow> (Err (scylla_query_error_to_epoch_error qe), t')
      | (Panic, t') \<Rightarrow> (Panic, t'))"

definition cassandra_read_latest ::
  "epoch_session \<Rightarrow> string \<Rightarrow> epoch_table \<Rightarrow> (epoch_storage_error, u64) outcome \<times> epoch_table" where
  "cassandra_read_latest exec region t =
     (case exec 0 (GET_LATEST_EPOCH_QUERY region) t of
        (Ok EpNoRows, t') \<Rightarrow> (Err EpochNotInitialized, t')
      | (Ok (EpRows [row]), t') \<Rightarrow> (Ok (ep_epoch row), t')
      | (Ok _, t') \<Rightarrow> (Panic, t')
      | (Err qe, t') \<Rightarrow> (Err (scylla_query_error_to_epoch_error qe), t')
      | (Panic, t') \<Rightarrow> (Panic, t'))"

definition cassandra_conditional_update ::
  "epoch_session \<Rightarrow> string \<Rightarrow> utc \<Rightarrow> u64 \<Rightarrow> u64 \<Rightarrow> epoch_table
     \<Rightarrow> (epoch_storage_error, unit) outcome \<times> epoch_table" where
  "cassandra_conditional_update exec region utcnow new_epoch current_epoch t =
     (if new_epoch < current_epoch then (Err ConditionFailed, t)
      else case exec 0 (UPDATE_EPOCH_QUERY new_epoch utcnow region current_epoch) t of
             (Ok (EpApplied [applied]), t') \<Rightarrow> (if applied then Ok () else Err ConditionFailed, t')
           | (Ok _, t') \<Rightarrow> (Panic, t')
           | (Err qe, t') \<Rightarrow> (Err (scylla_query_error_to_epoch_error qe), t')
           | (Panic, t') \<Rightarrow> (Panic, t'))"

subsection \<open>The update loop (epoch/src/server.rs)\<close>

text \<open>
  An iteration of the loop, on the operations of its storage: read the epoch, have every publisher
  set updated to it (\<open>sets e\<close> lists the results), and when all succeeded advance by one.
\<close>

definition update_iteration ::
  "('s \<Rightarrow> (epoch_storage_error, u64) outcome \<times> 's) \<Rightarrow>
   (u64 \<Rightarrow> u64 \<Rightarrow> 's \<Rightarrow> (epoch_storage_error, unit) outcome \<times> 's) \<Rightarrow>
   (u64 \<Rightarrow> (string, unit) outcome list) \<Rightarrow> 's \<Rightarrow> 's" where
  "update_iteration read_latest conditional_update sets st =
     (case read_latest st of
        (Ok epoch, st1) \<Rightarrow>
          (if list_all is_ok (sets epoch) then snd (conditional_update (epoch + 1) epoch st1) else st1)
      | (_, st1) \<Rightarrow> st1)"

text \<open>The RPC of the epoch server.\<close>

definition epoch_server_read_epoch ::
  "('s \<Rightarrow> (epoch_storage_error, u64) outcome \<times> 's) \<Rightarrow> 's \<Rightarrow> (string, u64) outcome \<times> 's" where
  "epoch_server_read_epoch read_latest st =
     (case read_latest st of
        (Ok epoch, st') \<Rightarrow> (Ok epoch, st')
      | (Err e, st') \<Rightarrow> (Err ''Failed to read latest epoch'', st')
      | (Panic, st') \<Rightarrow> (Panic, st'))"

text \<open>The stored epoch, if it is initialised.\<close>

definition in_memory_value :: "u64 \<Rightarrow> u64 option" where
  "in_memory_value st = (if st = 0 then None else Some st)"

definition cassandra_value :: "string \<Rightarrow> epoch_table \<Rightarrow> u64 option" where
  "cassandra_value region t = map_option ep_epoch (t region)"

section \<open>The interface\<close>

text \<open>
  What the epoch server relies on: a read returns the stored epoch and changes nothing; an update
  that succeeds moves the epoch from the expected to the new value, which is not
  smaller, and one that fails may have done so; initialising only ever stores the
  value 1 where there was none.
\<close>

locale epoch_store =
  fixes val :: "'s \<Rightarrow> u64 option"
    and init_op :: "'s \<Rightarrow> (epoch_storage_error, unit) outcome \<times> 's"
    and read_op :: "'s \<Rightarrow> (epoch_storage_error, u64) outcome \<times> 's"
    and update_op :: "u64 \<Rightarrow> u64 \<Rightarrow> 's \<Rightarrow> (epoch_storage_error, unit) outcome \<times> 's"
  assumes init_law: "init_op s = (r1, s') \<Longrightarrow> val s' = val s \<or> val s = None \<and> val s' = Some 1"
    and read_law: "read_op s = (r2, s') \<Longrightarrow> val s' = val s \<and> (\<forall>e. r2 = Ok e \<longrightarrow> val s = Some e)"
    and update_law: "update_op n c s = (r3, s') \<Longrightarrow> c \<noteq> 0 \<Longrightarrow>
      val s' = val s \<and> r3 \<noteq> Ok () \<or> c \<le> n \<and> val s = Some c \<and> val s' = Some n"
begin

lemma advance_monotone:
  assumes "val s = Some e" "e \<noteq> 0"
  shows "val (update_iteration read_op update_op sets s) = Some e \<or>
    list_all is_ok (sets e) \<and> val (update_iteration read_op update_op sets s) = Some (e + 1) \<and> e < e + 1"
proof -
  obtain r s1 where r: "read_op s = (r, s1)" by (cases "read_op s")
  obtain r2 s2 where u: "update_op (e + 1) e s1 = (r2, s2)" by (cases "update_op (e + 1) e s1")
  have "e \<le> e + 1 \<Longrightarrow> e < e + 1" by (simp add: order_le_less)
  then show ?thesis
    using read_law [OF r] update_law [OF u assms(2)] assms r u
    by (cases r) (auto simp: update_iteration_def)
qed

end

text \<open>A session gives an instance for every region and clock reading.\<close>

locale cassandra_epoch =
  fixes exec :: epoch_session and region :: string and now :: utc
  assumes session: "executes epoch_sem exec"
begin

lemma init_step:
  "cassandra_initialize_epoch exec region now t = (r, t') \<Longrightarrow>
     cassandra_value region t' = cassandra_value region t \<or>
     cassandra_value region t = None \<and> cassandra_value region t' = Some 1"
  by (rule executes_cases [OF session, where i = 0 and s = "INITIALIZE_EPOCH_QUERY region now" and db = t])
    (auto simp: cassandra_initialize_epoch_def cassandra_value_def split: option.splits)

lemma read_step:
  "cassandra_read_latest exec region t = (r, t') \<Longrightarrow>
     cassandra_value region t' = cassandra_value region t \<and>
     (\<forall>e. r = Ok e \<longrightarrow> cassandra_value region t = Some e)"
  by (rule executes_cases [OF session, where i = 0 and s = "GET_LATEST_EPOCH_QUERY region" and db = t])
    (auto simp: cassandra_read_latest_def cassandra_value_def split: option.splits)

lemma update_step:
  "cassandra_conditional_update exec region now n c t = (r, t') \<Longrightarrow>
     cassandra_value region t' = cassandra_value region t \<and> r \<noteq> Ok () \<or>
     c \<le> n \<and> cassandra_value region t = Some c \<and> cassandra_value region t' = Some n"
  by (rule executes_cases [OF session, where i = 0 and s = "UPDATE_EPOCH_QUERY n now region c" and db = t])
    (auto simp: cassandra_conditional_update_def cassandra_value_def not_less
      split: option.splits if_splits)

end

sublocale cassandra_epoch \<subseteq> epoch_store "cassandra_value region"
  "cassandra_initialize_epoch exec region now" "cassandra_read_latest exec region"
  "cassandra_conditional_update exec region now"
  using init_step read_step update_step by unfold_locales blast+

context cassandra_epoch
begin

lemmas cassandra_advance_monotone = advance_monotone

end

interpretation in_memory: epoch_store in_memory_value in_memory_initialize_epoch
  in_memory_read_latest in_memory_conditional_update
  by unfold_locales
    (auto simp: in_memory_value_def in_memory_initialize_epoch_def in_memory_read_latest_def
      in_memory_conditional_update_def compare_exchange_def word_gt_0 split: if_splits)

interpretation cassandra_session: cassandra_epoch "reliable epoch_sem" region now for region now
  by unfold_locales simp

section \<open>Properties\<close>

text \<open>
  The epoch only moves forward, one step at a time. Whatever the database does to the queries, an
  iteration of the update loop on the Cassandra storage leaves the epoch as it
  is or increments it, the latter only when every publisher set has accepted the current epoch.
\<close>

theorem epoch_update_monotone:
  assumes "executes epoch_sem exec" "cassandra_value region t = Some e" "e \<noteq> 0"
  shows "cassandra_value region (update_iteration (cassandra_read_latest exec region)
           (cassandra_conditional_update exec region now) sets t) = Some e \<or>
    list_all is_ok (sets e) \<and> e < e + 1 \<and>
    cassandra_value region (update_iteration (cassandra_read_latest exec region)
           (cassandra_conditional_update exec region now) sets t) = Some (e + 1)"
proof -
  have "cassandra_epoch exec" using assms(1) by unfold_locales
  from cassandra_epoch.cassandra_advance_monotone [OF this assms(2,3), of now sets] show ?thesis by auto
qed

section \<open>Observations\<close>

text \<open>Reading the epoch of a region that has no row panics: the result of a select is
  an empty list of rows, not the absence of rows.\<close>

lemma cassandra_read_uninitialized_panics:
  "t region = None \<Longrightarrow> fst (cassandra_read_latest (reliable epoch_sem) region t) = Panic"
  by (simp add: cassandra_read_latest_def reliable_def)

text \<open>The update to epoch 0, which stands for an uninitialised epoch, is accepted.\<close>

lemma in_memory_accepts_zero: "in_memory_conditional_update 0 0 in_memory_new = (Ok (), 0)"
  by (simp add: in_memory_conditional_update_def compare_exchange_def in_memory_new_def)

section \<open>Witnesses\<close>

lemma epoch_update_monotone_witness:
  "cassandra_value ''r'' (update_iteration (cassandra_read_latest (reliable epoch_sem) ''r'')
      (cassandra_conditional_update (reliable epoch_sem) ''r'' 5) (\<lambda>_. [Ok ()])
      [''r'' \<mapsto> \<lparr>ep_epoch = 3, ep_timestamp = 0\<rparr>]) = Some 4"
  using epoch_update_monotone [OF executes_reliable, of "''r''" "[''r'' \<mapsto> \<lparr>ep_epoch = 3, ep_timestamp = 0\<rparr>]" 3]
  by (simp add: cassandra_value_def update_iteration_def cassandra_read_latest_def
      cassandra_conditional_update_def reliable_def)

end
