(* ===== verification/Epoch_Service.thy ===== *)
theory Epoch_Service
  imports Epoch_Storage
begin

text \<open>
  The epoch service: publishers that hold the epoch (epoch\_publisher/src/server.rs), the update of
  a publisher set by a majority (epoch/src/publisher\_set\_updater.rs), the reader that looks for a
  majority (epoch\_reader/src/reader.rs), and a system of epoch servers, publishers and
  readers built from these operations, for which the global epoch invariant of
  rangeserver/src/epoch\_supplier.rs is shown.
\<close>

section \<open>Definitions\<close>

subsection \<open>Epoch publisher\<close>

datatype ep_status = EpStOk | EpStInvalidRequestFormat | EpStTimeout | EpStEpochUnknown | EpStUnrecognised "8 word"

record read_epoch_response =
  rer_request_id :: "uuidu128 option"
  rer_status :: ep_status
  rer_epoch :: u64

definition publisher_new :: u64 where
  "publisher_new = 0"

text \<open>The RPC loads the epoch and later compares and exchanges it; \<open>current_epoch\<close> is the value
  loaded, \<open>st\<close> the value at the time of the exchange.\<close>

definition set_epoch_loaded :: "u64 \<Rightarrow> u64 \<Rightarrow> u64 \<Rightarrow> (string, unit) outcome \<times> u64" where
  "set_epoch_loaded current_epoch new_epoch st =
     (if current_epoch = 0 then (Err ''Epoch not yet initialized'', st)
      else if new_epoch > current_epoch
      then (Ok (), snd (compare_exchange current_epoch new_epoch st))
      else (Ok (), st))"

definition set_epoch :: "u64 \<Rightarrow> u64 \<Rightarrow> (string, unit) outcome \<times> u64" where
  "set_epoch new_epoch st = set_epoch_loaded st new_epoch st"

definition publisher_read_epoch :: "uuidu128 option \<Rightarrow> u64 \<Rightarrow> read_epoch_response" where
  "publisher_read_epoch request_id st =
     (case request_id of
        None \<Rightarrow> \<lparr>rer_request_id = None, rer_status = EpStInvalidRequestFormat, rer_epoch = 0\<rparr>
      | Some i \<Rightarrow> \<lparr>rer_request_id = Some i,
                   rer_status = (if st = 0 then EpStEpochUnknown else EpStOk), rer_epoch = st\<rparr>)"

text \<open>The loop of the initial synchronisation, on the answers of its attempts: \<^term>\<open>None\<close> while
  it is still trying.\<close>

fun initial_epoch_sync :: "(string, u64) outcome list \<Rightarrow> u64 option" where
  "initial_epoch_sync [] = None"
| "initial_epoch_sync (Ok epoch # rs) = Some epoch"
| "initial_epoch_sync (_ # rs) = initial_epoch_sync rs"

fun ep_from_flatbuf_status :: "ep_status \<Rightarrow> (epoch_supplier_error, unit) outcome" where
  "ep_from_flatbuf_status EpStOk = Ok ()"
| "ep_from_flatbuf_status EpStInvalidRequestFormat = Err EsInvalidRequestFormat"
| "ep_from_flatbuf_status EpStTimeout = Err EsTimeout"
| "ep_from_flatbuf_status EpStEpochUnknown = Err EsEpochUnknown"
| "ep_from_flatbuf_status (EpStUnrecognised _) = Err EsInternalError"

text \<open>What the client makes of a response.\<close>

definition read_epoch_parse :: "read_epoch_response \<Rightarrow> (epoch_supplier_error, u64) outcome" where
  "read_epoch_parse response_msg =
     and_then (ep_from_flatbuf_status (rer_status response_msg)) (\<lambda>_. Ok (rer_epoch response_msg))"

subsection \<open>Updating and reading a publisher set\<close>

definition publisher_majority_count :: "nat \<Rightarrow> nat" where
  "publisher_majority_count n = n div 2 + 1"

text \<open>The results are in order of completion; a task that panicked is \<^term>\<open>Panic\<close>.\<close>

fun update_epoch_loop :: "nat \<Rightarrow> nat \<Rightarrow> (string, unit) outcome list \<Rightarrow> (string, unit) outcome" where
  "update_epoch_loop majority num_success [] = Err ''failed to update epoch''"
| "update_epoch_loop majority num_success (Ok u # rs) =
     (if num_success + 1 \<ge> majority then Ok () else update_epoch_loop majority (num_success + 1) rs)"
| "update_epoch_loop majority num_success (_ # rs) = update_epoch_loop majority num_success rs"

definition update_epoch :: "nat \<Rightarrow> (string, unit) outcome list \<Rightarrow> (string, unit) outcome" where
  "update_epoch publishers rs = update_epoch_loop (publisher_majority_count publishers) 0 rs"

fun read_epoch_loop ::
  "nat \<Rightarrow> (u64 \<rightharpoonup> nat) \<Rightarrow> (epoch_supplier_error, u64) outcome list \<Rightarrow> (epoch_supplier_error, u64) outcome" where
  "read_epoch_loop majority counts [] = Err EsEpochUnknown"
| "read_epoch_loop majority counts (Ok epoch # rs) =
     (let current_count = (case counts epoch of None \<Rightarrow> 0 | Some c \<Rightarrow> c) in
      if current_count + 1 \<ge> majority then Ok epoch
      else read_epoch_loop majority (counts(epoch \<mapsto> current_count + 1)) rs)"
| "read_epoch_loop majority counts (_ # rs) = read_epoch_loop majority counts rs"

definition read_epoch :: "nat \<Rightarrow> (epoch_supplier_error, u64) outcome list \<Rightarrow> (epoch_supplier_error, u64) outcome" where
  "read_epoch clients rs = read_epoch_loop (publisher_majority_count clients) Map.empty rs"

fun ok_values :: "('e, 'a) outcome list \<Rightarrow> 'a list" where
  "ok_values [] = []"
| "ok_values (Ok a # rs) = a # ok_values rs"
| "ok_values (_ # rs) = ok_values rs"

subsection \<open>A system of epoch servers, publishers and readers\<close>

text \<open>
  A publisher serves an epoch, is down, or is starting and has read an epoch from the epoch
  server. An epoch server instance has read an epoch and collects the publishers that
  acknowledged it. A reader has the replies received so far, and, for the statement only, the
  stored epoch when it started.
\<close>

datatype pub_state = Up u64 | Down | Syncing u64

record epoch_sys =
  sys_storage :: u64
  sys_pubs :: "nat \<Rightarrow> pub_state"
  sys_updaters :: "nat \<rightharpoonup> u64 \<times> nat set"
  sys_readers :: "nat \<rightharpoonup> u64 \<times> (nat \<times> u64) list"

definition epoch_sys_init :: "epoch_sys \<Rightarrow> bool" where
  "epoch_sys_init s \<longleftrightarrow> sys_storage s = in_memory_new \<and> (\<forall>p. sys_pubs s p = Down) \<and>
     sys_updaters s = Map.empty \<and> sys_readers s = Map.empty"

inductive epoch_step :: "nat set \<Rightarrow> epoch_sys \<Rightarrow> epoch_sys \<Rightarrow> bool" for P where
  es_initialize: "in_memory_initialize_epoch (sys_storage s) = (r, v) \<Longrightarrow>
     epoch_step P s (s\<lparr>sys_storage := v\<rparr>)"
| es_read: "in_memory_read_latest (sys_storage s) = (Ok e, v) \<Longrightarrow>
     epoch_step P s (s\<lparr>sys_updaters := (sys_updaters s)(u \<mapsto> (e, {}))\<rparr>)"
| es_set: "sys_updaters s u = Some (e, A) \<Longrightarrow> p \<in> P \<Longrightarrow> sys_pubs s p = Up x \<Longrightarrow> set_epoch e x = (r, x') \<Longrightarrow>
     epoch_step P s (s\<lparr>sys_pubs := (sys_pubs s)(p := Up x'),
                       sys_updaters := (sys_updaters s)(u \<mapsto> (e, if is_ok r then insert p A else A))\<rparr>)"
| es_late_set: "e \<le> sys_storage s \<Longrightarrow> p \<in> P \<Longrightarrow> sys_pubs s p = Up x \<Longrightarrow> set_epoch e x = (r, x') \<Longrightarrow>
     epoch_step P s (s\<lparr>sys_pubs := (sys_pubs s)(p := Up x')\<rparr>)"
| es_advance: "sys_updaters s u = Some (e, A) \<Longrightarrow> update_epoch (card P) rs = Ok () \<Longrightarrow>
     length (ok_values rs) \<le> card A \<Longrightarrow> sys_storage s \<noteq> - 1 \<Longrightarrow>
     in_memory_conditional_update (e + 1) e (sys_storage s) = (r, v) \<Longrightarrow>
     epoch_step P s (s\<lparr>sys_storage := v, sys_updaters := (sys_updaters s)(u := None)\<rparr>)"
| es_give_up: "epoch_step P s (s\<lparr>sys_updaters := (sys_updaters s)(u := None)\<rparr>)"
| es_crash: "epoch_step P s (s\<lparr>sys_pubs := (sys_pubs s)(p := Down)\<rparr>)"
| es_sync_read: "sys_pubs s p = Down \<Longrightarrow> in_memory_read_latest (sys_storage s) = (Ok e, v) \<Longrightarrow>
     epoch_step P s (s\<lparr>sys_pubs := (sys_pubs s)(p := Syncing e)\<rparr>)"
| es_sync_store: "sys_pubs s p = Syncing e \<Longrightarrow> initial_epoch_sync (rs @ [Ok e]) = Some x \<Longrightarrow> ok_values rs = [] \<Longrightarrow>
     epoch_step P s (s\<lparr>sys_pubs := (sys_pubs s)(p := Up x)\<rparr>)"
| es_reader_start:
    "epoch_step P s (s\<lparr>sys_readers := (sys_readers s)(r \<mapsto> (sys_storage s, []))\<rparr>)"
| es_reader_reply: "sys_readers s r = Some (s0, reps) \<Longrightarrow> p \<in> P \<Longrightarrow> p \<notin> fst ` set reps \<Longrightarrow>
     sys_pubs s p = Up x \<Longrightarrow> read_epoch_parse (publisher_read_epoch (Some i) x) = Ok y \<Longrightarrow>
     epoch_step P s (s\<lparr>sys_readers := (sys_readers s)(r \<mapsto> (s0, reps @ [(p, y)]))\<rparr>)"

text \<open>Reader \<open>r\<close> can return \<open>v\<close>: its tasks finished with some of the replies received, other
  tasks with errors, at most one for each publisher.\<close>

definition read_returns :: "nat set \<Rightarrow> epoch_sys \<Rightarrow> nat \<Rightarrow> u64 \<Rightarrow> bool" where
  "read_returns P s r v \<longleftrightarrow> (\<exists>s0 reps rs. sys_readers s r = Some (s0, reps) \<and> length rs \<le> card P \<and>
     (\<forall>w. count_list (ok_values rs) w \<le> count_list (map snd reps) w) \<and> read_epoch (card P) rs = Ok v)"

subsection \<open>Invariant of the system\<close>

fun at_least :: "nat \<Rightarrow> pub_state \<Rightarrow> bool" where
  "at_least c (Up x) = (c \<le> unat x)"
| "at_least c (Syncing x) = (c \<le> unat x)"
| "at_least c Down = True"

fun at_most :: "u64 \<Rightarrow> pub_state \<Rightarrow> bool" where
  "at_most e (Up x) = (x \<le> e)"
| "at_most e (Syncing x) = (x \<le> e)"
| "at_most e Down = True"

definition majority :: "nat set \<Rightarrow> nat set \<Rightarrow> bool" where
  "majority P Q \<longleftrightarrow> Q \<subseteq> P \<and> card P < 2 * card Q"

definition updaters_ok :: "nat set \<Rightarrow> epoch_sys \<Rightarrow> bool" where
  "updaters_ok P s \<longleftrightarrow> (\<forall>u e A. sys_updaters s u = Some (e, A) \<longrightarrow> e \<noteq> 0 \<and> e \<le> sys_storage s \<and> A \<subseteq> P \<and>
     (\<forall>p \<in> A. at_least (unat e) (sys_pubs s p)))"

definition reader_ok :: "nat set \<Rightarrow> epoch_sys \<Rightarrow> u64 \<Rightarrow> (nat \<times> u64) list \<Rightarrow> bool" where
  "reader_ok P s s0 reps \<longleftrightarrow> s0 \<le> sys_storage s \<and> distinct (map fst reps) \<and> fst ` set reps \<subseteq> P \<and>
     (\<forall>(p, x) \<in> set reps. x \<le> sys_storage s) \<and>
     (\<exists>Q. majority P Q \<and> (\<forall>p \<in> Q. at_least (unat s0 - 1) (sys_pubs s p)) \<and>
        (\<forall>(p, x) \<in> set reps. p \<in> Q \<longrightarrow> unat s0 - 1 \<le> unat x))"

definition epoch_inv :: "nat set \<Rightarrow> epoch_sys \<Rightarrow> bool" where
  "epoch_inv P s \<longleftrightarrow> (\<forall>p. at_most (sys_storage s) (sys_pubs s p)) \<and> updaters_ok P s \<and>
     (\<exists>Q. majority P Q \<and> (\<forall>p \<in> Q. at_least (unat (sys_storage s) - 1) (sys_pubs s p))) \<and>
     (\<forall>r s0 reps. sys_readers s r = Some (s0, reps) \<longrightarrow> reader_ok P s s0 reps)"

section \<open>Counting votes\<close>

lemma update_epoch_loop_iff:
  "k < m \<Longrightarrow> update_epoch_loop m k rs = Ok () \<longleftrightarrow> m \<le> k + length (ok_values rs)"
  by (induction m k rs rule: update_epoch_loop.induct) auto

definition votes :: "(u64 \<rightharpoonup> nat) \<Rightarrow> u64 \<Rightarrow> nat" where
  "votes c v = (case c v of None \<Rightarrow> 0 | Some n \<Rightarrow> n)"

lemma votes_upd: "votes (c(e \<mapsto> n)) v = (if v = e then n else votes c v)"
  by (simp add: votes_def)

lemma read_epoch_loop_Cons:
  "read_epoch_loop m c (r # rs) = (case r of
      Ok e \<Rightarrow> (if m \<le> votes c e + 1 then Ok e else read_epoch_loop m (c(e \<mapsto> votes c e + 1)) rs)
    | _ \<Rightarrow> read_epoch_loop m c rs)"
  by (cases r) (simp_all add: Let_def votes_def)

lemma ok_values_Cons: "ok_values (r # rs) = (case r of Ok a \<Rightarrow> a # ok_values rs | _ \<Rightarrow> ok_values rs)"
  by (cases r) simp_all

lemma votes_below:
  "\<forall>u. votes c u < m \<Longrightarrow> \<not> m \<le> votes c e + 1 \<Longrightarrow> \<forall>u. votes (c(e \<mapsto> votes c e + 1)) u < m"
  by (simp add: votes_upd)

lemma read_epoch_loop_Ok:
  "\<forall>u. votes c u < m \<Longrightarrow> read_epoch_loop m c rs = Ok v \<Longrightarrow> m \<le> votes c v + count_list (ok_values rs) v"
proof (induction rs arbitrary: c)
  case (Cons r rs)
  show ?case
  proof (cases r)
    case (Ok e)
    show ?thesis
    proof (cases "m \<le> votes c e + 1")
      case False
      then have "m \<le> votes (c(e \<mapsto> votes c e + 1)) v + count_list (ok_values rs) v"
        using Cons.prems(2) Ok Cons.IH [OF votes_below [OF Cons.prems(1) False]]
        by (simp add: read_epoch_loop_Cons del: fun_upd_apply)
      then show ?thesis using Ok by (auto simp: votes_upd ok_values_Cons split: if_splits)
    qed (use Cons.prems Ok in \<open>simp add: read_epoch_loop_Cons ok_values_Cons\<close>)
  qed (use Cons in \<open>simp_all add: read_epoch_loop_Cons ok_values_Cons\<close>)
qed simp

lemma read_epoch_loop_total:
  "\<forall>u. votes c u < m \<Longrightarrow> m \<le> votes c v + count_list (ok_values rs) v \<Longrightarrow>
     \<exists>w. read_epoch_loop m c rs = Ok w"
proof (induction rs arbitrary: c)
  case (Cons r rs)
  show ?case
  proof (cases r)
    case (Ok e)
    show ?thesis
    proof (cases "m \<le> votes c e + 1")
      case False
      have "m \<le> votes (c(e \<mapsto> votes c e + 1)) v + count_list (ok_values rs) v"
        using Cons.prems(2) Ok by (auto simp: votes_upd ok_values_Cons split: if_splits)
      then show ?thesis
        using Cons.IH [OF votes_below [OF Cons.prems(1) False]] Ok False
        by (simp add: read_epoch_loop_Cons del: fun_upd_apply)
    qed (use Ok in \<open>simp add: read_epoch_loop_Cons\<close>)
  qed (use Cons in \<open>simp_all add: read_epoch_loop_Cons ok_values_Cons\<close>)
next
  case Nil
  then have "votes c v < m" "m \<le> votes c v" by auto
  then show ?case by simp
qed

lemma read_epoch_loop_result:
  "read_epoch_loop m c rs = Err EsEpochUnknown \<or> (\<exists>v. read_epoch_loop m c rs = Ok v)"
proof (induction rs arbitrary: c)
  case (Cons r rs)
  then show ?case by (cases r) (auto simp: read_epoch_loop_Cons simp del: fun_upd_apply)
qed simp

lemma count_list_two: "v \<noteq> w \<Longrightarrow> count_list xs v + count_list xs w \<le> length xs"
  by (induction xs) auto

lemma length_ok_values: "length (ok_values rs) \<le> length rs"
  by (induction rs rule: ok_values.induct) auto

lemma read_epoch_Ok_iff:
  assumes "length rs \<le> n"
  shows "read_epoch n rs = Ok v \<longleftrightarrow> publisher_majority_count n \<le> count_list (ok_values rs) v"
proof -
  let ?m = "publisher_majority_count n"
  have v0: "\<forall>u. votes Map.empty u < ?m"
    by (simp add: votes_def publisher_majority_count_def)
  have ok: "read_epoch n rs = Ok w \<Longrightarrow> ?m \<le> count_list (ok_values rs) w" for w
    using read_epoch_loop_Ok [OF v0, of rs w] by (simp add: read_epoch_def votes_def)
  have tot: "?m \<le> count_list (ok_values rs) v \<Longrightarrow> \<exists>w. read_epoch n rs = Ok w"
    using read_epoch_loop_total [OF v0, of v rs] by (simp add: read_epoch_def votes_def)
  have "v = w" if "?m \<le> count_list (ok_values rs) v" "?m \<le> count_list (ok_values rs) w" for w
    using that count_list_two [of v w "ok_values rs"] length_ok_values [of rs] assms
    by (cases "v = w") (auto simp: publisher_majority_count_def)
  then show ?thesis
    using ok tot by blast
qed

lemma read_epoch_Err_iff:
  "read_epoch n rs = Err EsEpochUnknown \<longleftrightarrow> (\<forall>v. read_epoch n rs \<noteq> Ok v)"
  using read_epoch_loop_result [of "publisher_majority_count n" Map.empty rs]
  by (auto simp: read_epoch_def)

section \<open>Preservation of the system invariant\<close>

definition pub_moves :: "u64 \<Rightarrow> pub_state \<Rightarrow> pub_state \<Rightarrow> bool" where
  "pub_moves e a b \<longleftrightarrow> a = b \<or> b = Down \<or> (\<exists>x x'. a = Up x \<and> b = Up x' \<and> x \<le> x' \<and> (x' \<le> e \<or> x' = x)) \<or>
     (a = Down \<and> b = Syncing e) \<or> (\<exists>v. a = Syncing v \<and> b = Up v)"

lemma moves_at_least: "pub_moves e a b \<Longrightarrow> c \<le> unat e \<Longrightarrow> at_least c a \<Longrightarrow> at_least c b"
  by (auto simp: pub_moves_def word_le_nat_alt)

lemma moves_at_most: "pub_moves e a b \<Longrightarrow> at_most e a \<Longrightarrow> at_most e b"
  by (auto simp: pub_moves_def)

lemma at_most_mono: "e \<le> e' \<Longrightarrow> at_most e a \<Longrightarrow> at_most e' a"
  by (cases a) auto

lemma set_epoch_moves: "set_epoch e x = (r, x') \<Longrightarrow> e \<le> st \<Longrightarrow> pub_moves st (Up x) (Up x')"
  by (auto simp: set_epoch_def set_epoch_loaded_def compare_exchange_def pub_moves_def split: if_splits)

lemma set_epoch_ack: "set_epoch e x = (r, x') \<Longrightarrow> is_ok r \<Longrightarrow> at_least (unat e) (Up x')"
  by (auto simp: set_epoch_def set_epoch_loaded_def compare_exchange_def word_le_nat_alt [symmetric]
      split: if_splits)

lemma unat_pred_le: "a \<le> b \<Longrightarrow> unat (a :: u64) - 1 \<le> unat b"
  by (auto simp: word_le_nat_alt)

text \<open>What survives a step in which publishers move and the stored epoch does not decrease.\<close>

lemma frame_reader:
  assumes "reader_ok P s s0 reps" "sys_storage s \<le> sys_storage s'"
    and "\<And>p. pub_moves (sys_storage s) (sys_pubs s p) (sys_pubs s' p)"
  shows "reader_ok P s' s0 reps"
proof -
  obtain Q where Q: "majority P Q" "\<forall>p \<in> Q. at_least (unat s0 - 1) (sys_pubs s p)"
    "\<forall>(p, x) \<in> set reps. p \<in> Q \<longrightarrow> unat s0 - 1 \<le> unat x"
    using assms(1) by (auto simp: reader_ok_def)
  have "s0 \<le> sys_storage s" using assms(1) by (simp add: reader_ok_def)
  then have "\<forall>p \<in> Q. at_least (unat s0 - 1) (sys_pubs s' p)"
    using Q(2) moves_at_least [OF assms(3) unat_pred_le] by blast
  then show ?thesis
    using assms(1,2) Q unfolding reader_ok_def by (fastforce intro: order_trans)
qed

lemma frame_updaters:
  assumes "updaters_ok P s" "sys_storage s \<le> sys_storage s'"
    and "\<And>p. pub_moves (sys_storage s) (sys_pubs s p) (sys_pubs s' p)"
    and "sys_updaters s u = Some (e, A)"
  shows "e \<noteq> 0 \<and> e \<le> sys_storage s' \<and> A \<subseteq> P \<and> (\<forall>p \<in> A. at_least (unat e) (sys_pubs s' p))"
proof -
  have e: "e \<noteq> 0" "e \<le> sys_storage s" "A \<subseteq> P" "\<forall>p \<in> A. at_least (unat e) (sys_pubs s p)"
    using assms(1,4) by (auto simp: updaters_ok_def)
  then have "\<forall>p \<in> A. at_least (unat e) (sys_pubs s' p)"
    using moves_at_least [OF assms(3)] by (auto simp: word_le_nat_alt)
  then show ?thesis using e assms(2) by auto
qed

lemma frame_quorum:
  assumes "\<And>p. pub_moves (sys_storage s) (sys_pubs s p) (sys_pubs s' p)"
    and "\<forall>p \<in> Q. at_least (unat (sys_storage s) - 1) (sys_pubs s p)"
  shows "\<forall>p \<in> Q. at_least (unat (sys_storage s) - 1) (sys_pubs s' p)"
  using assms moves_at_least [OF assms(1)] by (meson diff_le_self)

lemma frame_inv:
  assumes inv: "epoch_inv P s" and st: "sys_storage s' = sys_storage s"
    and mv: "\<And>p. pub_moves (sys_storage s) (sys_pubs s p) (sys_pubs s' p)"
    and up: "updaters_ok P s'"
    and rd: "\<And>r s0 reps. sys_readers s' r = Some (s0, reps) \<Longrightarrow> sys_readers s r \<noteq> Some (s0, reps) \<Longrightarrow>
       reader_ok P s' s0 reps"
  shows "epoch_inv P s'"
proof -
  have "reader_ok P s' s0 reps" if "sys_readers s' r = Some (s0, reps)" for r s0 reps
  proof (cases "sys_readers s r = Some (s0, reps)")
    case True
    then show ?thesis using inv frame_reader [OF _ _ mv] st by (auto simp: epoch_inv_def)
  qed (use rd that in blast)
  moreover have "\<forall>p. at_most (sys_storage s') (sys_pubs s' p)"
    using inv st moves_at_most [OF mv] by (auto simp: epoch_inv_def)
  ultimately show ?thesis
    using inv up frame_quorum [OF mv] unfolding epoch_inv_def st by blast
qed

lemma pub_moves_refl [simp]: "pub_moves e a a"
  by (simp add: pub_moves_def)

lemma frame_advance:
  assumes inv: "epoch_inv P s" and st: "sys_storage s \<le> sys_storage s'"
    and same: "sys_pubs s' = sys_pubs s" "sys_readers s' = sys_readers s"
    and up: "\<And>u e A. sys_updaters s' u = Some (e, A) \<Longrightarrow> sys_updaters s u = Some (e, A)"
    and Q: "majority P Q" "\<forall>p \<in> Q. at_least (unat (sys_storage s') - 1) (sys_pubs s' p)"
  shows "epoch_inv P s'"
proof -
  have mv: "\<And>p. pub_moves (sys_storage s) (sys_pubs s p) (sys_pubs s' p)" by (simp add: same)
  have "updaters_ok P s'"
    using inv up frame_updaters [OF _ st mv] unfolding updaters_ok_def epoch_inv_def by metis
  moreover have "\<forall>r s0 reps. sys_readers s' r = Some (s0, reps) \<longrightarrow> reader_ok P s' s0 reps"
    using inv frame_reader [OF _ st mv] same by (auto simp: epoch_inv_def)
  moreover have "\<forall>p. at_most (sys_storage s') (sys_pubs s' p)"
    using inv at_most_mono [OF st] same by (auto simp: epoch_inv_def)
  ultimately show ?thesis using Q unfolding epoch_inv_def by blast
qed

lemma frame_updaters_ok:
  assumes "epoch_inv P s" "sys_storage s' = sys_storage s"
    and "\<And>p. pub_moves (sys_storage s) (sys_pubs s p) (sys_pubs s' p)"
    and "\<And>u e A. sys_updaters s' u = Some (e, A) \<Longrightarrow> sys_updaters s u = Some (e, A) \<or>
       e \<noteq> 0 \<and> e \<le> sys_storage s \<and> A \<subseteq> P \<and> (\<forall>p \<in> A. at_least (unat e) (sys_pubs s' p))"
  shows "updaters_ok P s'"
  unfolding updaters_ok_def
proof (intro allI impI)
  fix u e A assume u: "sys_updaters s' u = Some (e, A)"
  have ok: "updaters_ok P s" and le: "sys_storage s \<le> sys_storage s'"
    using assms(1,2) by (simp_all add: epoch_inv_def)
  show "e \<noteq> 0 \<and> e \<le> sys_storage s' \<and> A \<subseteq> P \<and> (\<forall>p \<in> A. at_least (unat e) (sys_pubs s' p))"
    using assms(4) [OF u]
  proof
    assume "sys_updaters s u = Some (e, A)"
    then show ?thesis by (rule frame_updaters [OF ok le assms(3)])
  qed (simp add: assms(2))
qed

lemma read_latest_Ok: "in_memory_read_latest st = (Ok e, v) \<Longrightarrow> e = st \<and> st \<noteq> 0"
  by (auto simp: in_memory_read_latest_def split: if_splits)

lemma read_parse_Ok: "read_epoch_parse (publisher_read_epoch (Some i) x) = Ok y \<Longrightarrow> y = x"
  by (auto simp: read_epoch_parse_def publisher_read_epoch_def split: if_splits)

lemma initial_epoch_sync_Ok: "initial_epoch_sync (rs @ [Ok e]) = Some x \<Longrightarrow> ok_values rs = [] \<Longrightarrow> x = e"
  by (induction rs rule: initial_epoch_sync.induct) auto

lemma majority_of_count:
  "finite P \<Longrightarrow> A \<subseteq> P \<Longrightarrow> publisher_majority_count (card P) \<le> card A \<Longrightarrow> majority P A"
  by (auto simp: majority_def publisher_majority_count_def)

lemma advance_inv:
  assumes "epoch_inv P s" "finite P" "sys_updaters s u = Some (e, A)" "update_epoch (card P) rs = Ok ()"
    "length (ok_values rs) \<le> card A" "sys_storage s \<noteq> - 1"
    "in_memory_conditional_update (e + 1) e (sys_storage s) = (r, v)"
  shows "epoch_inv P (s\<lparr>sys_storage := v, sys_updaters := (sys_updaters s)(u := None)\<rparr>)"
proof (cases "e = sys_storage s")
  case True
  have lt: "sys_storage s < sys_storage s + 1" "unat (sys_storage s + 1) = unat (sys_storage s) + 1"
    using assms(6) by (simp_all add: word_less_nat_alt unat_add_one)
  have v: "v = sys_storage s + 1"
    using assms(7) True lt by (auto simp: in_memory_conditional_update_def compare_exchange_def
        split: if_splits)
  have A: "A \<subseteq> P" "\<forall>p \<in> A. at_least (unat (sys_storage s)) (sys_pubs s p)"
    using assms(1,3) True by (auto simp: epoch_inv_def updaters_ok_def)
  have "publisher_majority_count (card P) \<le> length (ok_values rs)"
    using assms(4) update_epoch_loop_iff [of 0 "publisher_majority_count (card P)" rs]
    by (simp add: update_epoch_def publisher_majority_count_def)
  then have "majority P A"
    using majority_of_count [OF assms(2) A(1)] assms(5) by linarith
  then show ?thesis
    by (rule frame_advance [OF assms(1), rotated 4]) (use A v lt in \<open>auto split: if_splits\<close>)
next
  case False
  then have "v = sys_storage s"
    using assms(7) by (auto simp: in_memory_conditional_update_def compare_exchange_def split: if_splits)
  moreover obtain Q where "majority P Q" "\<forall>p \<in> Q. at_least (unat (sys_storage s) - 1) (sys_pubs s p)"
    using assms(1) by (auto simp: epoch_inv_def)
  ultimately show ?thesis
    by (intro frame_advance [OF assms(1)]) (auto split: if_splits)
qed

lemma initialize_inv:
  assumes "epoch_inv P s" "in_memory_initialize_epoch (sys_storage s) = (r, v)"
  shows "epoch_inv P (s\<lparr>sys_storage := v\<rparr>)"
proof -
  obtain Q where Q: "majority P Q" "\<forall>p \<in> Q. at_least (unat (sys_storage s) - 1) (sys_pubs s p)"
    using assms(1) by (auto simp: epoch_inv_def)
  have "v = sys_storage s \<or> sys_storage s = 0 \<and> v = 1"
    using assms(2) by (auto simp: in_memory_initialize_epoch_def compare_exchange_def split: if_splits)
  then show ?thesis
    using Q by (intro frame_advance [OF assms(1)]) auto
qed

lemma reply_inv:
  assumes "reader_ok P s s0 reps" "p \<in> P" "p \<notin> fst ` set reps" "sys_pubs s p = Up x"
    "at_most (sys_storage s) (sys_pubs s p)"
  shows "reader_ok P s s0 (reps @ [(p, x)])"
  using assms unfolding reader_ok_def by fastforce

lemma epoch_step_inv:
  assumes "epoch_step P s s'" "epoch_inv P s" "finite P"
  shows "epoch_inv P s'"
  using assms(1)
proof cases
  case (es_initialize r v)
  then show ?thesis using initialize_inv assms(2) by blast
next
  case (es_read e v u)
  then show ?thesis
    using read_latest_Ok [OF es_read(2)] assms(2)
    by (intro frame_inv [OF assms(2)] frame_updaters_ok [OF assms(2)]) (auto split: if_splits)
next
  case (es_set u e A p x r x')
  have e: "e \<noteq> 0" "e \<le> sys_storage s" "A \<subseteq> P" "\<forall>p \<in> A. at_least (unat e) (sys_pubs s p)"
    using assms(2) es_set(2) by (auto simp: epoch_inv_def updaters_ok_def)
  have mv: "pub_moves (sys_storage s) (sys_pubs s q) (sys_pubs s' q)" for q
    using set_epoch_moves [OF es_set(5) e(2)] es_set(1,4) by simp
  have "\<forall>p \<in> A. at_least (unat e) (sys_pubs s' p)"
    using e moves_at_least [OF mv] by (auto simp: word_le_nat_alt)
  then show ?thesis
    using set_epoch_ack [OF es_set(5)] e es_set mv
    by (intro frame_inv [OF assms(2)] frame_updaters_ok [OF assms(2)]) (auto split: if_splits)
next
  case (es_late_set e p x r x')
  have mv: "pub_moves (sys_storage s) (sys_pubs s q) (sys_pubs s' q)" for q
    using set_epoch_moves [OF es_late_set(5,2)] es_late_set(1,4) by simp
  then show ?thesis
    using es_late_set(1) by (intro frame_inv [OF assms(2)] frame_updaters_ok [OF assms(2)]) auto
next
  case (es_advance u e A rs r v)
  then show ?thesis using advance_inv [OF assms(2,3)] by blast
next
  case (es_give_up u)
  then show ?thesis
    by (intro frame_inv [OF assms(2)] frame_updaters_ok [OF assms(2)]) (auto split: if_splits)
next
  case (es_crash p)
  then show ?thesis
    by (intro frame_inv [OF assms(2)] frame_updaters_ok [OF assms(2)]) (auto simp: pub_moves_def)
next
  case (es_sync_read p e v)
  then show ?thesis
    using read_latest_Ok [OF es_sync_read(3)]
    by (intro frame_inv [OF assms(2)] frame_updaters_ok [OF assms(2)]) (auto simp: pub_moves_def)
next
  case (es_sync_store p e rs x)
  then show ?thesis
    using initial_epoch_sync_Ok [OF es_sync_store(3,4)]
    by (intro frame_inv [OF assms(2)] frame_updaters_ok [OF assms(2)]) (auto simp: pub_moves_def)
next
  case (es_reader_start r)
  have "reader_ok P s' (sys_storage s) []"
    using assms(2) es_reader_start by (auto simp: reader_ok_def epoch_inv_def)
  then show ?thesis
    using es_reader_start
    by (intro frame_inv [OF assms(2)] frame_updaters_ok [OF assms(2)]) (auto split: if_splits)
next
  case (es_reader_reply r s0 reps p x i y)
  have "reader_ok P s s0 (reps @ [(p, y)])"
    using reply_inv [OF _ es_reader_reply(3-5)] read_parse_Ok [OF es_reader_reply(6)] assms(2)
      es_reader_reply(2) by (auto simp: epoch_inv_def)
  then have "reader_ok P s' s0 (reps @ [(p, y)])"
    using es_reader_reply(1) by (simp add: reader_ok_def)
  then show ?thesis
    using es_reader_reply(1)
    by (intro frame_inv [OF assms(2)] frame_updaters_ok [OF assms(2)]) (auto split: if_splits)
qed

lemma epoch_init_inv: "epoch_sys_init s \<Longrightarrow> finite P \<Longrightarrow> P \<noteq> {} \<Longrightarrow> epoch_inv P s"
  by (auto simp: epoch_sys_init_def epoch_inv_def updaters_ok_def majority_def card_gt_0_iff
      intro!: exI [of _ P])

lemma epoch_system: "finite P \<Longrightarrow> P \<noteq> {} \<Longrightarrow> invariant_system epoch_sys_init (epoch_step P) (epoch_inv P)"
  using epoch_init_inv epoch_step_inv by unfold_locales blast+

lemma epoch_step_storage: "epoch_step P s s' \<Longrightarrow> sys_storage s \<le> sys_storage s'"
proof (induction rule: epoch_step.induct)
  case (es_advance s u e A rs r v)
  have "sys_storage s \<le> sys_storage s + 1"
    using es_advance(4) by (simp add: word_le_nat_alt unat_add_one)
  then show ?case
    using es_advance(5) by (auto simp: in_memory_conditional_update_def compare_exchange_def split: if_splits)
qed (auto simp: in_memory_initialize_epoch_def compare_exchange_def split: if_splits)

definition started_since :: "u64 \<Rightarrow> nat \<Rightarrow> epoch_sys \<Rightarrow> bool" where
  "started_since c r s \<longleftrightarrow> c \<le> sys_storage s \<and> (\<exists>s0 reps. sys_readers s r = Some (s0, reps) \<and> c \<le> s0)"

lemma step_started_since:
  assumes "epoch_step P s s'" "started_since c r s" shows "started_since c r s'"
  using assms(1) epoch_step_storage [OF assms(1)] assms(2)
  by cases (auto simp: started_since_def)

lemma steps_started_since:
  "steps_to (epoch_step P) s s' \<Longrightarrow> started_since c r s \<Longrightarrow> started_since c r s'"
  by (induction rule: steps_to.induct) (auto intro: step_started_since)

lemma steps_storage: "steps_to (epoch_step P) s s' \<Longrightarrow> sys_storage s \<le> sys_storage s'"
  by (induction rule: steps_to.induct) (auto dest: epoch_step_storage)

lemma count_card: "distinct (map fst reps) \<Longrightarrow> count_list (map snd reps) v = card {p. (p, v) \<in> set reps}"
proof (induction reps)
  case (Cons r reps)
  obtain q w where r: "r = (q, w)" by (cases r)
  have fin: "finite {p. (p, v) \<in> set reps}"
    by (rule finite_subset [of _ "fst ` set reps"]) force+
  have "{p. (p, v) \<in> set (r # reps)} =
      (if w = v then insert q {p. (p, v) \<in> set reps} else {p. (p, v) \<in> set reps})"
    using r by auto
  moreover have "q \<notin> {p. (p, v) \<in> set reps}" using Cons.prems r by force
  ultimately show ?case using Cons fin r by simp
qed simp

lemma majority_inter:
  assumes "finite P" "majority P Q" "majority P R" shows "\<exists>p. p \<in> Q \<and> p \<in> R"
proof (rule ccontr)
  assume "\<not> ?thesis"
  then have "card (Q \<union> R) = card Q + card R"
    using assms finite_subset by (intro card_Un_disjoint) (auto simp: majority_def)
  moreover have "card (Q \<union> R) \<le> card P"
    using assms by (intro card_mono) (auto simp: majority_def)
  ultimately show False using assms by (auto simp: majority_def)
qed

lemma read_returns_bound:
  assumes "epoch_inv P s" "finite P" "read_returns P s r v"
  shows "\<exists>s0 reps. sys_readers s r = Some (s0, reps) \<and> v \<le> sys_storage s \<and> unat s0 \<le> unat v + 1"
proof -
  obtain s0 reps rs where r: "sys_readers s r = Some (s0, reps)" "length rs \<le> card P"
    "count_list (ok_values rs) v \<le> count_list (map snd reps) v" "read_epoch (card P) rs = Ok v"
    using assms(3) by (auto simp: read_returns_def)
  have ok: "reader_ok P s s0 reps" using assms(1) r(1) by (simp add: epoch_inv_def)
  then obtain Q where Q: "majority P Q" "\<forall>(p, x) \<in> set reps. p \<in> Q \<longrightarrow> unat s0 - 1 \<le> unat x"
    by (auto simp: reader_ok_def)
  have d: "distinct (map fst reps)" "fst ` set reps \<subseteq> P" "\<forall>(p, x) \<in> set reps. x \<le> sys_storage s"
    using ok by (simp_all add: reader_ok_def)
  have "publisher_majority_count (card P) \<le> card {p. (p, v) \<in> set reps}"
    using r(2-4) read_epoch_Ok_iff count_card [OF d(1)] by (metis order_trans)
  then have "majority P {p. (p, v) \<in> set reps}"
    by (rule majority_of_count [OF assms(2), rotated]) (use d(2) in force)
  then obtain p where "p \<in> Q" "(p, v) \<in> set reps"
    using majority_inter [OF assms(2) Q(1)] by blast
  then have "unat s0 - 1 \<le> unat v" "v \<le> sys_storage s"
    using Q(2) d(3) by auto
  then show ?thesis using r(1) by auto
qed

section \<open>Properties\<close>


text \<open>
  C39: the reader decides by majority. Whatever the order in which the tasks finish, it
  returns the epoch that a majority of the publishers reported, and it reports
  that the epoch is unknown exactly when there is none.
\<close>

theorem read_epoch_majority:
  assumes "length rs \<le> n"
  shows "(read_epoch n rs = Ok v \<longleftrightarrow> n < 2 * count_list (ok_values rs) v) \<and>
    (read_epoch n rs = Err EsEpochUnknown \<longleftrightarrow> (\<forall>w. 2 * count_list (ok_values rs) w \<le> n))"
proof -
  have m: "publisher_majority_count n \<le> c \<longleftrightarrow> n < 2 * c" for c
    by (auto simp: publisher_majority_count_def)
  show ?thesis
    using read_epoch_Ok_iff [OF assms] read_epoch_Err_iff [of n rs] by (auto simp: m not_less)
qed

text \<open>
  The updater decides by majority: updating a publisher set succeeds exactly when more than half of
  its publishers acknowledged, in whatever order.
\<close>

theorem update_epoch_majority: "update_epoch n rs = Ok () \<longleftrightarrow> n < 2 * length (ok_values rs)"
  using update_epoch_loop_iff [of 0 "publisher_majority_count n" rs]
  by (auto simp: update_epoch_def publisher_majority_count_def)

section \<open>Observations\<close>

text \<open>Two concurrent calls: the publisher acknowledges epoch 7 and stays at 6.\<close>

lemma set_epoch_race: "set_epoch_loaded 5 6 5 = (Ok (), 6) \<and> set_epoch_loaded 5 7 6 = (Ok (), 6)"
  by (simp add: set_epoch_loaded_def compare_exchange_def)

section \<open>Witnesses\<close>

text \<open>One publisher, started at epoch 1, answers two readers one after the other.\<close>

definition ex_sys :: "pub_state \<Rightarrow> (nat \<rightharpoonup> u64 \<times> (nat \<times> u64) list) \<Rightarrow> epoch_sys" where
  "ex_sys ps rd = \<lparr>sys_storage = 1, sys_pubs = (\<lambda>_. Down)(0 := ps), sys_updaters = Map.empty, sys_readers = rd\<rparr>"

definition ex_sys0 :: epoch_sys where
  "ex_sys0 = \<lparr>sys_storage = 0, sys_pubs = (\<lambda>_. Down), sys_updaters = Map.empty, sys_readers = Map.empty\<rparr>"

lemma ex_sys_steps:
  "epoch_step {0} ex_sys0 (ex_sys Down Map.empty)"
  "epoch_step {0} (ex_sys Down Map.empty) (ex_sys (Syncing 1) Map.empty)"
  "epoch_step {0} (ex_sys (Syncing 1) Map.empty) (ex_sys (Up 1) Map.empty)"
  using es_initialize [of ex_sys0 "Ok ()" 1 "{0}"]
    es_sync_read [of "ex_sys Down Map.empty" 0 1 1 "{0}"]
    es_sync_store [of "ex_sys (Syncing 1) Map.empty" 0 1 "[]" 1 "{0}"]
  by (simp_all add: ex_sys_def ex_sys0_def in_memory_initialize_epoch_def in_memory_read_latest_def
      compare_exchange_def fun_upd_idem)

lemma ex_sys_read:
  "epoch_step {0} (ex_sys (Up 1) rd) (ex_sys (Up 1) (rd(r \<mapsto> (1, []))))"
  "rd r = Some (1, []) \<Longrightarrow> epoch_step {0} (ex_sys (Up 1) rd) (ex_sys (Up 1) (rd(r \<mapsto> (1, [(0, 1)]))))"
  "rd r = Some (1, [(0, 1)]) \<Longrightarrow> read_returns {0} (ex_sys (Up 1) rd) r 1"
proof -
  show "epoch_step {0} (ex_sys (Up 1) rd) (ex_sys (Up 1) (rd(r \<mapsto> (1, []))))"
    using es_reader_start [of "{0}" "ex_sys (Up 1) rd" r] by (simp add: ex_sys_def)
  show "rd r = Some (1, []) \<Longrightarrow> epoch_step {0} (ex_sys (Up 1) rd) (ex_sys (Up 1) (rd(r \<mapsto> (1, [(0, 1)]))))"
    using es_reader_reply [of "ex_sys (Up 1) rd" r 1 "[]" 0 "{0}" 1 _ 1]
    by (simp add: ex_sys_def read_epoch_parse_def publisher_read_epoch_def)
  show "rd r = Some (1, [(0, 1)]) \<Longrightarrow> read_returns {0} (ex_sys (Up 1) rd) r 1"
    unfolding read_returns_def
    by (rule exI [of _ 1], rule exI [of _ "[(0, 1)]"], rule exI [of _ "[Ok 1]"])
      (simp add: ex_sys_def read_epoch_def publisher_majority_count_def)
qed

lemma ex_sys_reachable:
  "reachable epoch_sys_init (epoch_step {0}) (ex_sys (Up 1) (Map.empty(0 \<mapsto> (1, [(0, 1)]))))"
proof -
  have "reachable epoch_sys_init (epoch_step {0}) ex_sys0"
    by (rule reach_init) (simp add: epoch_sys_init_def ex_sys0_def in_memory_new_def)
  then have "reachable epoch_sys_init (epoch_step {0}) (ex_sys (Up 1) Map.empty)"
    using ex_sys_steps by (meson reach_step)
  then have "reachable epoch_sys_init (epoch_step {0}) (ex_sys (Up 1) (Map.empty(0 \<mapsto> (1, []))))"
    using ex_sys_read(1) by (rule reach_step)
  then show ?thesis
    using ex_sys_read(2) [of "Map.empty(0 \<mapsto> (1, []))" 0] reach_step by fastforce
qed


lemma read_epoch_majority_witness:
  "read_epoch 3 [Ok 4, Err EsTimeout, Ok 4] = Ok 4 \<and>
   read_epoch 3 [Ok 4, Ok 5, Err EsTimeout] = Err EsEpochUnknown"
  using read_epoch_majority [of "[Ok 4, Err EsTimeout, Ok 4]" 3 4]
    read_epoch_majority [of "[Ok 4, Ok 5, Err EsTimeout]" 3] by simp

end
