(* ===== verification/Lock_Table.thy ===== *)
theory Lock_Table
  imports RS_Messages
begin

text \<open>
  The transaction lock of a range (rangeserver/src/range_manager/lock_table.rs). The
  state is the record behind the \<^verbatim>\<open>RwLock\<close>; an operation runs with the lock held and is one
  function on it. A oneshot channel is an identifier; an operation returns the list of the
  channels it signals, in order. The current time is an argument.
\<close>

section \<open>Definitions\<close>

record current_lock_holder =
  holder_transaction :: transaction_info
  holder_when_acquired :: utc
  holder_when_requested :: utc

record lock_request =
  req_transaction :: transaction_info
  req_sender :: chan
  req_when_requested :: utc

record lock_state =
  current_holder :: "current_lock_holder option"
  waiting_for_release :: "lock_request list"
  waiting_to_acquire :: "lock_request list"

definition lock_table_new :: lock_state where
  "lock_table_new = \<lparr>current_holder = None, waiting_for_release = [], waiting_to_acquire = []\<rparr>"

definition maybe_wait_for_current_holder ::
  "utc \<Rightarrow> chan \<Rightarrow> transaction_info \<Rightarrow> lock_state \<Rightarrow> chan \<times> lock_state \<times> chan list" where
  "maybe_wait_for_current_holder now ch tx st =
     (case current_holder st of
        None \<Rightarrow> (ch, st, [ch])
      | Some _ \<Rightarrow>
          (let req = \<lparr>req_transaction = tx, req_sender = ch, req_when_requested = now\<rparr>
           in (ch, st\<lparr>waiting_for_release := waiting_for_release st @ [req]\<rparr>, [])))"

definition acquire ::
  "utc \<Rightarrow> utc \<Rightarrow> chan \<Rightarrow> transaction_info \<Rightarrow> lock_state
     \<Rightarrow> (rs_error, chan) outcome \<times> lock_state \<times> chan list" where
  "acquire when_requested now ch tx st =
     (case current_holder st of
        None \<Rightarrow>
          (let holder = \<lparr>holder_transaction = tx, holder_when_acquired = when_requested,
                         holder_when_requested = when_requested\<rparr>
           in (Ok ch, st\<lparr>current_holder := Some holder\<rparr>, [ch]))
      | Some h \<Rightarrow>
          (if tx_id (holder_transaction h) = tx_id tx then (Ok ch, st, [ch])
           else
             (let highest_waiter =
                    (if waiting_to_acquire st = [] then tx_id (holder_transaction h)
                     else tx_id (req_transaction (last (waiting_to_acquire st))))
              in if highest_waiter > tx_id tx then (Err (TransactionAborted WaitDie), st, [])
                 else
                   (let req = \<lparr>req_transaction = tx, req_sender = ch, req_when_requested = now\<rparr>
                    in (Ok ch, st\<lparr>waiting_to_acquire := waiting_to_acquire st @ [req]\<rparr>, [])))))"

text \<open>The loop that empties the release queue: \<^verbatim>\<open>send(()).unwrap()\<close> panics when the
  receiving end is gone; the requests already popped stay popped.\<close>

fun notify_released :: "(chan \<Rightarrow> bool) \<Rightarrow> lock_request list \<Rightarrow> bool \<times> lock_request list \<times> chan list" where
  "notify_released alive [] = (True, [], [])"
| "notify_released alive (req # reqs) =
     (if alive (req_sender req)
      then (let (ok, rest, sent) = notify_released alive reqs in (ok, rest, req_sender req # sent))
      else (False, reqs, []))"

definition release ::
  "(chan \<Rightarrow> bool) \<Rightarrow> utc \<Rightarrow> lock_state \<Rightarrow> (rs_error, unit) outcome \<times> lock_state \<times> chan list" where
  "release alive now st =
     (let (ok, rest, sent) = notify_released alive (waiting_for_release st);
          st1 = st\<lparr>current_holder := None, waiting_for_release := rest\<rparr>
      in if \<not> ok then (Panic, st1, sent)
         else case waiting_to_acquire st1 of
             [] \<Rightarrow> (Ok (), st1, sent)
           | req # reqs \<Rightarrow>
               (let new_holder = \<lparr>holder_transaction = req_transaction req,
                                  holder_when_acquired = now,
                                  holder_when_requested = req_when_requested req\<rparr>;
                    st2 = st1\<lparr>current_holder := Some new_holder, waiting_to_acquire := reqs\<rparr>
                in if alive (req_sender req) then (Ok (), st2, sent @ [req_sender req])
                   else (Panic, st2, sent)))"

definition is_currently_holding :: "uuid \<Rightarrow> lock_state \<Rightarrow> bool" where
  "is_currently_holding txid st =
     (case current_holder st of
        None \<Rightarrow> False
      | Some current \<Rightarrow> tx_id (holder_transaction current) = txid)"

text \<open>A sequence of releases at the given times.\<close>

fun release_n :: "(chan \<Rightarrow> bool) \<Rightarrow> utc list \<Rightarrow> lock_state \<Rightarrow> lock_state" where
  "release_n alive [] st = st"
| "release_n alive (t # ts) st = release_n alive ts (fst (snd (release alive t st)))"

subsection \<open>Abstract view: the queue of transactions\<close>

text \<open>The holder followed by the waiters, oldest request first.\<close>

definition lock_queue :: "lock_state \<Rightarrow> uuid list" where
  "lock_queue st =
     (case current_holder st of None \<Rightarrow> []
      | Some h \<Rightarrow> tx_id (holder_transaction h)
                   # map (tx_id \<circ> req_transaction) (waiting_to_acquire st))"

definition lock_inv :: "lock_state \<Rightarrow> bool" where
  "lock_inv st \<longleftrightarrow> sorted (lock_queue st) \<and>
     (current_holder st = None \<longrightarrow> waiting_to_acquire st = [] \<and> waiting_for_release st = [])"

definition all_alive :: "(chan \<Rightarrow> bool) \<Rightarrow> lock_state \<Rightarrow> bool" where
  "all_alive alive st =
     list_all (\<lambda>r. alive (req_sender r)) (waiting_for_release st @ waiting_to_acquire st)"

inductive lock_step :: "lock_state \<Rightarrow> lock_state \<Rightarrow> bool" where
  step_acquire: "acquire t0 t1 ch tx st = (r, st', sent) \<Longrightarrow> lock_step st st'"
| step_wait: "maybe_wait_for_current_holder t0 ch tx st = (c, st', sent) \<Longrightarrow> lock_step st st'"
| step_release: "release alive t0 st = (Ok u, st', sent) \<Longrightarrow> lock_step st st'"

definition lock_init :: "lock_state \<Rightarrow> bool" where
  "lock_init st \<longleftrightarrow> st = lock_table_new"

text \<open>Transaction \<open>t\<close> waits for \<open>u\<close> when in the queue of some range \<open>u\<close> stands before \<open>t\<close>.\<close>

definition waits_for :: "('r \<Rightarrow> lock_state) \<Rightarrow> (uuid \<times> uuid) set" where
  "waits_for locks = {(t, u). t \<noteq> u \<and> (\<exists>r i j. i < j \<and> j < length (lock_queue (locks r)) \<and>
      lock_queue (locks r) ! j = t \<and> lock_queue (locks r) ! i = u)}"

section \<open>Lemmas\<close>

lemmas lock_op_defs = acquire_def maybe_wait_for_current_holder_def release_def

lemma notify_released_all:
  "list_all (\<lambda>r. alive (req_sender r)) reqs \<Longrightarrow>
     notify_released alive reqs = (True, [], map req_sender reqs)"
  by (induction reqs) auto

lemma notify_released_ok:
  "notify_released alive reqs = (True, rest, sent) \<Longrightarrow> rest = [] \<and> sent = map req_sender reqs"
  by (induction reqs arbitrary: rest sent) (auto split: if_splits prod.splits)

lemma lock_queue_Nil_iff [simp]: "lock_queue st = [] \<longleftrightarrow> current_holder st = None"
  by (auto simp: lock_queue_def split: option.splits)

lemma lock_queue_new [simp]: "lock_queue lock_table_new = []"
  by (simp add: lock_table_new_def)

lemma holding_iff_head: "is_currently_holding t st \<longleftrightarrow> lock_queue st \<noteq> [] \<and> hd (lock_queue st) = t"
  by (auto simp: is_currently_holding_def lock_queue_def split: option.splits)

lemma last_lock_queue:
  "current_holder st = Some h \<Longrightarrow>
     last (lock_queue st) = (if waiting_to_acquire st = [] then tx_id (holder_transaction h)
       else tx_id (req_transaction (last (waiting_to_acquire st))))"
  by (auto simp: lock_queue_def last_map)

lemma sorted_last_ge: "sorted xs \<Longrightarrow> xs \<noteq> [] \<Longrightarrow> (\<forall>x \<in> set xs. x \<le> y) \<longleftrightarrow> last xs \<le> (y :: 'a::linorder)"
  by (induction xs rule: rev_induct) (auto simp: sorted_append intro: order_trans)

text \<open>The three branches of \<^term>\<open>acquire\<close> in terms of the queue.\<close>

lemma acquire_queue:
  assumes "acquire t0 t1 ch tx st = (r, st', sent)" "lock_inv st"
  shows "lock_queue st' =
    (if lock_queue st = [] then [tx_id tx]
     else if hd (lock_queue st) = tx_id tx \<or> last (lock_queue st) > tx_id tx then lock_queue st
     else lock_queue st @ [tx_id tx])"
  using assms
  by (cases "current_holder st")
    (auto simp: acquire_def lock_queue_def lock_inv_def Let_def last_map split: if_splits)

lemma acquire_results:
  assumes "acquire t0 t1 ch tx st = (r, st', sent)"
  shows "r = (if lock_queue st \<noteq> [] \<and> hd (lock_queue st) \<noteq> tx_id tx \<and> last (lock_queue st) > tx_id tx
              then Err (TransactionAborted WaitDie) else Ok ch) \<and>
    sent = (if lock_queue st = [] \<or> hd (lock_queue st) = tx_id tx then [ch] else []) \<and>
    waiting_for_release st' = waiting_for_release st \<and> current_holder st' \<noteq> None"
  using assms
  by (cases "current_holder st")
    (auto simp: acquire_def lock_queue_def Let_def last_map split: if_splits)

lemmas acquire_result = acquire_results [THEN conjunct1] acquire_results [THEN conjunct2, THEN conjunct1]
  acquire_results [THEN conjunct2, THEN conjunct2, THEN conjunct1] acquire_results [THEN conjunct2, THEN conjunct2, THEN conjunct2]

lemma acquire_inv [inv_intros]:
  assumes "acquire t0 t1 ch tx st = (r, st', sent)" "lock_inv st"
  shows "lock_inv st'"
proof -
  have "sorted (lock_queue st')"
    using assms(2) acquire_queue [OF assms]
      sorted_last_ge [of "lock_queue st" "tx_id tx"]
    by (auto simp: lock_inv_def sorted_append not_less split: if_splits)
  then show ?thesis
    using acquire_result(4) [OF assms(1)] by (auto simp: lock_inv_def)
qed

lemma wait_inv [inv_intros]:
  "maybe_wait_for_current_holder t0 ch tx st = (c, st', sent) \<Longrightarrow> lock_inv st \<Longrightarrow> lock_inv st'"
  by (auto simp: maybe_wait_for_current_holder_def lock_inv_def lock_queue_def split: option.splits)

lemma wait_queue:
  "maybe_wait_for_current_holder t0 ch tx st = (c, st', sent) \<Longrightarrow> lock_queue st' = lock_queue st"
  by (auto simp: maybe_wait_for_current_holder_def lock_queue_def split: option.splits)

lemma release_Ok:
  assumes "release alive now st = (Ok u, st', sent)"
  shows "lock_queue st' = map (tx_id \<circ> req_transaction) (waiting_to_acquire st)"
    and "waiting_to_acquire st' = tl (waiting_to_acquire st)"
    and "waiting_for_release st' = []"
    and "sent = map req_sender (waiting_for_release st @ take 1 (waiting_to_acquire st))"
    and "current_holder st' = None \<Longrightarrow> waiting_to_acquire st' = []"
  using assms
  by (auto simp: release_def Let_def lock_queue_def split: prod.splits if_splits list.splits
      dest: notify_released_ok)

lemma release_queue:
  "release alive now st = (Ok u, st', sent) \<Longrightarrow> lock_inv st \<Longrightarrow> lock_queue st' = tl (lock_queue st)"
  using release_Ok(1) by (auto simp: lock_inv_def lock_queue_def split: option.splits)

lemma release_inv [inv_intros]:
  assumes "release alive now st = (Ok u, st', sent)" "lock_inv st"
  shows "lock_inv st'"
  using assms release_queue [OF assms] release_Ok(3,5) [OF assms(1)]
  by (auto simp: lock_inv_def sorted_tl)

lemma release_alive:
  "all_alive alive st \<Longrightarrow> \<exists>st' sent. release alive now st = (Ok (), st', sent)"
  by (auto simp: release_def all_alive_def notify_released_all Let_def split: list.splits)

lemma release_keeps_alive:
  "all_alive alive st \<Longrightarrow> release alive now st = (Ok u, st', sent) \<Longrightarrow> all_alive alive st'"
  using release_Ok(2,3) [of alive now st u st' sent]
  by (cases "waiting_to_acquire st") (auto simp: all_alive_def)

lemma release_n_queue:
  assumes "lock_inv st" "all_alive alive st"
  shows "lock_queue (release_n alive ts st) = drop (length ts) (lock_queue st)"
  using assms
proof (induction ts arbitrary: st)
  case (Cons t ts)
  obtain st' sent where r: "release alive t st = (Ok (), st', sent)"
    using release_alive Cons.prems(2) by blast
  show ?case
    using Cons.IH [of st'] r Cons.prems release_inv release_keeps_alive release_queue
    by (auto simp: drop_Suc)
qed simp

interpretation lock: invariant_system lock_init lock_step lock_inv
proof unfold_locales
  fix s assume "lock_init s"
  then show "lock_inv s"
    by (simp add: lock_init_def lock_inv_def lock_table_new_def lock_queue_def)
next
  fix s t assume "lock_inv s" "lock_step s t"
  then show "lock_inv t"
    by (auto elim!: lock_step.cases intro: inv_intros)
qed

lemma waits_for_decreases: "(\<And>r. lock_inv (locks r)) \<Longrightarrow> (t, u) \<in> waits_for locks \<Longrightarrow> u < t"
  by (fastforce simp: waits_for_def lock_inv_def sorted_iff_nth_mono_less order_le_less)

lemma acyclic_decreasing:
  fixes R :: "('a::order \<times> 'a) set"
  assumes "\<And>a b. (a, b) \<in> R \<Longrightarrow> b < a" shows "acyclic R"
proof -
  have "(a, b) \<in> R\<^sup>+ \<Longrightarrow> b < a" for a b
    by (induction rule: trancl_induct) (auto dest: assms)
  then show ?thesis by (auto simp: acyclic_def)
qed

lemma acquire_die_unchanged:
  "acquire t0 t1 ch tx st = (Err e, st', sent) \<Longrightarrow> st' = st \<and> sent = []"
  by (auto simp: acquire_def Let_def split: option.splits if_splits)

lemma acquire_holder_unchanged:
  "acquire t0 t1 ch tx st = (r, st', sent) \<Longrightarrow> lock_queue st \<noteq> [] \<Longrightarrow>
     is_currently_holding t st' = is_currently_holding t st"
  by (auto simp: acquire_def Let_def is_currently_holding_def split: option.splits if_splits)

section \<open>Properties\<close>

text \<open>
  C2: wait-die prevents deadlocks. Take the locks of any number of ranges, each in a
  state reachable by acquire, wait and release operations. The relation "some range makes
  transaction t wait behind transaction u" has no cycle, so no set of transactions can
  block each other, within a range or across ranges.
\<close>

theorem lock_table_no_deadlock:
  assumes "\<And>r. reachable lock_init lock_step (locks r)"
  shows "acyclic (waits_for locks)"
  using assms lock.reachable_inv acyclic_decreasing waits_for_decreases by metis

text \<open>
  C3: an acquire in a reachable state. The one comparison with the last waiter decides exactly
  as comparing with every queued transaction would: the request dies, leaving the state
  alone, if and only if the lock is held by another transaction and some queued transaction has
  a larger identifier. A request for a free lock or by the holder is granted at once; every
  other request is queued last and not signalled.
\<close>

theorem lock_acquire_correct:
  assumes "reachable lock_init lock_step st" "acquire t0 t1 ch tx st = (r, st', sent)"
  shows "if lock_queue st = [] \<or> is_currently_holding (tx_id tx) st
         then r = Ok ch \<and> sent = [ch] \<and> is_currently_holding (tx_id tx) st' \<and>
              tl (lock_queue st') = tl (lock_queue st)
         else if list_ex (\<lambda>u. tx_id tx < u) (lock_queue st)
         then r = Err (TransactionAborted WaitDie) \<and> st' = st \<and> sent = []
         else r = Ok ch \<and> sent = [] \<and> lock_queue st' = lock_queue st @ [tx_id tx]"
proof -
  have inv: "lock_inv st" using assms(1) by (rule lock.reachable_inv)
  then have last: "lock_queue st \<noteq> [] \<Longrightarrow>
      list_ex (\<lambda>u. tx_id tx < u) (lock_queue st) \<longleftrightarrow> tx_id tx < last (lock_queue st)"
    using sorted_last_ge [of "lock_queue st" "tx_id tx"]
    by (auto simp: lock_inv_def list_ex_iff not_le)
  show ?thesis
    using acquire_queue [OF assms(2) inv] acquire_result [OF assms(2)] last
      acquire_die_unchanged [of t0 t1 ch tx st _ st' sent] assms(2)
    by (cases "lock_queue st") (auto simp: holding_iff_head simp del: lock_queue_Nil_iff)
qed

text \<open>
  C4: no waiter is forgotten. As long as the receivers of the waiting requests exist, the
  transaction at position i of the queue holds the lock after i releases (position 0 is the holder).
\<close>

theorem lock_release_fifo:
  assumes "reachable lock_init lock_step st" "all_alive alive st"
    and "length ts < length (lock_queue st)"
  shows "is_currently_holding (lock_queue st ! length ts) (release_n alive ts st)"
  using assms release_n_queue [OF lock.reachable_inv [OF assms(1)] assms(2)]
  by (simp add: holding_iff_head hd_drop_conv_nth)

section \<open>Witnesses\<close>

definition ex_tx :: "uuid \<Rightarrow> transaction_info" where
  "ex_tx i = \<lparr>tx_id = i, started = 0, overall_timeout = 10\<rparr>"

definition ex_lock_held :: lock_state where
  "ex_lock_held = fst (snd (acquire 0 0 1 (ex_tx 5) lock_table_new))"

definition ex_lock_waiting :: lock_state where
  "ex_lock_waiting = fst (snd (acquire 1 1 2 (ex_tx 7) ex_lock_held))"

lemma lock_step_acquire: "lock_step st (fst (snd (acquire t0 t1 ch tx st)))"
  by (cases "acquire t0 t1 ch tx st") (auto intro: step_acquire)

lemma ex_lock_held_reachable: "reachable lock_init lock_step ex_lock_held"
  unfolding ex_lock_held_def
  by (rule reach_step [of lock_init lock_step, OF reach_init lock_step_acquire])
    (simp add: lock_init_def)

lemma ex_lock_waiting_reachable: "reachable lock_init lock_step ex_lock_waiting"
  unfolding ex_lock_waiting_def
  by (rule reach_step [OF ex_lock_held_reachable lock_step_acquire])

lemma ex_lock_waiting_queue: "lock_queue ex_lock_waiting = [5, 7]"
  by (simp add: ex_lock_waiting_def ex_lock_held_def acquire_def lock_table_new_def
      lock_queue_def ex_tx_def)

lemma lock_table_no_deadlock_witness:
  "(7, 5) \<in> waits_for (\<lambda>r :: bool. if r then ex_lock_waiting else ex_lock_held) \<and>
   acyclic (waits_for (\<lambda>r :: bool. if r then ex_lock_waiting else ex_lock_held))"
proof
  have "lock_queue ex_lock_waiting ! 1 = 7" "lock_queue ex_lock_waiting ! 0 = 5"
    by (simp_all add: ex_lock_waiting_queue)
  then show "(7, 5) \<in> waits_for (\<lambda>r :: bool. if r then ex_lock_waiting else ex_lock_held)"
    unfolding waits_for_def mem_Collect_eq prod.case
    by (intro conjI exI [where x = True] exI [where x = "0 :: nat"] exI [where x = "1 :: nat"])
      (simp_all add: ex_lock_waiting_queue)
qed (rule lock_table_no_deadlock, simp add: ex_lock_waiting_reachable ex_lock_held_reachable)

lemma lock_acquire_correct_witness:
  "acquire 2 2 3 (ex_tx 6) ex_lock_waiting = (Err (TransactionAborted WaitDie), ex_lock_waiting, [])"
  using lock_acquire_correct [OF ex_lock_waiting_reachable, of 2 2 3 "ex_tx 6"]
  by (cases "acquire 2 2 3 (ex_tx 6) ex_lock_waiting")
    (auto simp: ex_lock_waiting_queue holding_iff_head ex_tx_def)

lemma lock_release_fifo_witness:
  "is_currently_holding 7 (release_n (\<lambda>_. True) [9] ex_lock_waiting)"
  using lock_release_fifo [OF ex_lock_waiting_reachable, of "\<lambda>_. True" "[9]"]
  by (simp add: ex_lock_waiting_queue all_alive_def list_all_iff)

end
