(* ===== verification/Prefetching_Buffer.thy ===== *)
theory Prefetching_Buffer
  imports RS_Messages
begin

text \<open>
  The buffer of prefetched keys of a range server (rangeserver/src/prefetching\_buffer.rs). The
  state is the record behind the mutex, with the tokio watch channels its maps point to added as
  a heap: a channel has a version, which a send increases, and a value; a receiver is a channel
  with the last version it has seen. Every critical section of the source is one function;
  \<^verbatim>\<open>process_prefetch_request\<close>, which drops the mutex and waits, is the four
  functions \<open>_start\<close>, \<open>_subscribe\<close>, \<open>_poll\<close> and \<open>_retry\<close>.
\<close>

section \<open>Definitions\<close>

datatype key_state = Fetched | Loading u64 | Requested u64

record pb_state =
  prefetch_store :: "bytes \<rightharpoonup> bytes"
  key_state_map :: "bytes \<rightharpoonup> key_state"
  transaction_keys :: "uuid \<rightharpoonup> bytes list"
  key_transactions :: "bytes \<rightharpoonup> uuid list"
  key_state_watcher :: "bytes \<rightharpoonup> chan \<times> nat"
  key_state_sender :: "bytes \<rightharpoonup> chan"
  fetch_sequence_number :: u64
  watch_channels :: "chan \<rightharpoonup> nat \<times> key_state"
  next_chan :: chan

definition pb_new :: pb_state where
  "pb_new = \<lparr>prefetch_store = Map.empty, key_state_map = Map.empty,
     transaction_keys = Map.empty, key_transactions = Map.empty,
     key_state_watcher = Map.empty, key_state_sender = Map.empty,
     fetch_sequence_number = 0, watch_channels = Map.empty, next_chan = 0\<rparr>"

definition get_from_buffer :: "bytes \<Rightarrow> pb_state \<Rightarrow> (unit, bytes option) outcome" where
  "get_from_buffer key st =
     (if key_state_map st key = Some Fetched
      then (case prefetch_store st key of Some v \<Rightarrow> Ok (Some v) | None \<Rightarrow> Err ())
      else Ok None)"

definition add_to_transaction_keys ::
  "uuid \<Rightarrow> bytes \<Rightarrow> (uuid \<rightharpoonup> bytes list) \<Rightarrow> (uuid \<rightharpoonup> bytes list)" where
  "add_to_transaction_keys t key tk =
     (case tk t of Some s \<Rightarrow> tk(t \<mapsto> bset_insert key s) | None \<Rightarrow> tk(t \<mapsto> [key]))"

definition add_to_key_transactions ::
  "uuid \<Rightarrow> bytes \<Rightarrow> (bytes \<rightharpoonup> uuid list) \<Rightarrow> (bytes \<rightharpoonup> uuid list)" where
  "add_to_key_transactions t key kt =
     (case kt key of Some s \<Rightarrow> kt(key \<mapsto> bset_insert t s) | None \<Rightarrow> kt(key \<mapsto> [t]))"

definition remove_from_key_transactions ::
  "uuid \<Rightarrow> bytes \<Rightarrow> (bytes \<rightharpoonup> uuid list) \<Rightarrow> (bytes \<rightharpoonup> uuid list)" where
  "remove_from_key_transactions t key kt =
     (case kt key of
        None \<Rightarrow> kt
      | Some s \<Rightarrow> (let s' = bset_remove t s
                   in if s' = [] then kt(key := None) else kt(key \<mapsto> s')))"

text \<open>\<^verbatim>\<open>watch::channel\<close> and \<^verbatim>\<open>watch::Sender::send\<close>; the receiver stored beside the sender keeps
  every channel open.\<close>

definition watch_send :: "bytes \<Rightarrow> key_state \<Rightarrow> pb_state \<Rightarrow> pb_state" where
  "watch_send key v st =
     (case key_state_sender st key of
        None \<Rightarrow> st
      | Some ch \<Rightarrow> (case watch_channels st ch of
          None \<Rightarrow> st
        | Some (ver, _) \<Rightarrow> st\<lparr>watch_channels := (watch_channels st)(ch \<mapsto> (ver + 1, v))\<rparr>))"

definition change_keystate_to_loading ::
  "bytes \<Rightarrow> u64 \<Rightarrow> pb_state \<Rightarrow> (unit, unit) outcome \<times> pb_state" where
  "change_keystate_to_loading key n st =
     (let st1 = st\<lparr>key_state_map := (key_state_map st)(key \<mapsto> Loading n)\<rparr>
      in case key_state_map st key of
           Some _ \<Rightarrow>
             (Ok (),
              if key_state_watcher st1 key = None
              then (let ch = next_chan st1 in
                    st1\<lparr>watch_channels := (watch_channels st1)(ch \<mapsto> (0, Loading n)),
                        next_chan := ch + 1,
                        key_state_sender := (key_state_sender st1)(key \<mapsto> ch),
                        key_state_watcher := (key_state_watcher st1)(key \<mapsto> (ch, 0))\<rparr>)
              else st1)
         | None \<Rightarrow> (Err (), st1))"

datatype prefetch_progress = Ready key_state | AwaitWatcher u64

definition register_prefetch_request :: "uuid \<Rightarrow> bytes \<Rightarrow> pb_state \<Rightarrow> pb_state" where
  "register_prefetch_request t key st =
     (let st1 = st\<lparr>transaction_keys := add_to_transaction_keys t key (transaction_keys st),
                   key_transactions := add_to_key_transactions t key (key_transactions st)\<rparr>
      in if key_state_map st1 key = None
         then (let n = fetch_sequence_number st1 + 1 in
               st1\<lparr>fetch_sequence_number := n,
                   key_state_map := (key_state_map st1)(key \<mapsto> Requested n)\<rparr>)
         else st1)"

definition process_prefetch_request_start ::
  "uuid \<Rightarrow> bytes \<Rightarrow> pb_state \<Rightarrow> (unit, prefetch_progress) outcome \<times> pb_state" where
  "process_prefetch_request_start t key st =
     (let st2 = register_prefetch_request t key st
      in case key_state_map st2 key of
           None \<Rightarrow> (Panic, st2)
         | Some Fetched \<Rightarrow> (Ok (Ready Fetched), st2)
         | Some (Loading n) \<Rightarrow> (Ok (AwaitWatcher n), st2)
         | Some (Requested n) \<Rightarrow>
             (case change_keystate_to_loading key n st2 of
                (Ok _, st3) \<Rightarrow> (Ok (Ready (Requested n)), st3)
              | (_, st3) \<Rightarrow> (Panic, st3)))"

text \<open>The second critical section: read the receiver of the key, if any.\<close>

definition process_prefetch_request_subscribe :: "bytes \<Rightarrow> pb_state \<Rightarrow> (chan \<times> nat) option" where
  "process_prefetch_request_subscribe key st = key_state_watcher st key"

text \<open>\<^verbatim>\<open>changed().await\<close> followed by \<^verbatim>\<open>borrow()\<close>: \<^term>\<open>None\<close> while the version is the one
  the receiver has seen, afterwards whether the value is \<^term>\<open>Fetched\<close>.\<close>

definition process_prefetch_request_poll :: "chan \<times> nat \<Rightarrow> pb_state \<Rightarrow> bool option" where
  "process_prefetch_request_poll rx st =
     (case watch_channels st (fst rx) of
        None \<Rightarrow> None
      | Some (ver, v) \<Rightarrow> if ver = snd rx then None else Some (v = Fetched))"

definition process_prefetch_request_retry ::
  "bytes \<Rightarrow> u64 \<Rightarrow> pb_state \<Rightarrow> (unit, key_state) outcome \<times> pb_state" where
  "process_prefetch_request_retry key n st =
     (case change_keystate_to_loading key n st of
        (Ok _, st1) \<Rightarrow> (Ok (Requested n), st1)
      | (_, st1) \<Rightarrow> (Panic, st1))"

definition fetch_complete :: "bytes \<Rightarrow> bytes option \<Rightarrow> u64 \<Rightarrow> pb_state \<Rightarrow> pb_state" where
  "fetch_complete key v n st =
     (if key_state_map st key = Some (Loading n)
      then (let st1 = (case v of
                  Some data \<Rightarrow> st\<lparr>prefetch_store := (prefetch_store st)(key \<mapsto> data)\<rparr>
                | None \<Rightarrow> st);
                st2 = st1\<lparr>key_state_map := (key_state_map st1)(key \<mapsto> Fetched)\<rparr>
            in watch_send key Fetched st2)
      else st)"

definition fetch_failed :: "bytes \<Rightarrow> u64 \<Rightarrow> pb_state \<Rightarrow> pb_state" where
  "fetch_failed key n st =
     (if key_state_map st key = Some (Loading n)
      then watch_send key (Requested n)
             (st\<lparr>key_state_map := (key_state_map st)(key \<mapsto> Requested n)\<rparr>)
      else st)"

definition evict_key :: "bytes \<Rightarrow> pb_state \<Rightarrow> pb_state" where
  "evict_key key st =
     st\<lparr>prefetch_store := (prefetch_store st)(key := None),
        key_state_map := (key_state_map st)(key := None)\<rparr>"

fun complete_keys :: "uuid \<Rightarrow> bytes list \<Rightarrow> pb_state \<Rightarrow> pb_state" where
  "complete_keys t [] st = st"
| "complete_keys t (key # keys) st =
     (let st1 = st\<lparr>key_transactions := remove_from_key_transactions t key (key_transactions st)\<rparr>;
          st2 = (if key_transactions st1 key = None then evict_key key st1 else st1)
      in complete_keys t keys st2)"

definition process_transaction_complete :: "uuid \<Rightarrow> pb_state \<Rightarrow> pb_state" where
  "process_transaction_complete t st =
     (let st1 = (case transaction_keys st t of Some keys \<Rightarrow> complete_keys t keys st | None \<Rightarrow> st)
      in st1\<lparr>transaction_keys := (transaction_keys st1)(t := None)\<rparr>)"

fun is_loading :: "key_state option \<Rightarrow> bool" where
  "is_loading (Some (Loading _)) = True"
| "is_loading _ = False"

definition pb_upsert :: "bytes \<Rightarrow> bytes \<Rightarrow> pb_state \<Rightarrow> pb_state" where
  "pb_upsert key v st =
     (if key_state_map st key \<noteq> None
      then (let st1 = st\<lparr>prefetch_store := (prefetch_store st)(key \<mapsto> v)\<rparr>
            in if is_loading (key_state_map st1 key)
               then watch_send key Fetched
                      (st1\<lparr>key_state_map := (key_state_map st1)(key \<mapsto> Fetched)\<rparr>)
               else st1)
      else st)"

definition pb_delete :: "bytes \<Rightarrow> pb_state \<Rightarrow> pb_state" where
  "pb_delete key st =
     (if key_state_map st key \<noteq> None
      then (let st1 = st\<lparr>prefetch_store := (prefetch_store st)(key := None)\<rparr>
            in if is_loading (key_state_map st1 key)
               then watch_send key Fetched
                      (st1\<lparr>key_state_map := (key_state_map st1)(key \<mapsto> Fetched)\<rparr>)
               else st1)
      else st)"

subsection \<open>Steps and invariant\<close>

text \<open>
  The critical sections as steps. The sequence number may not wrap around (it counts the requests
  for keys that are not buffered), and a retry happens while the failed request is in place.
\<close>

inductive pb_step :: "pb_state \<Rightarrow> pb_state \<Rightarrow> bool" where
  pb_start: "process_prefetch_request_start t k st = (r, st') \<Longrightarrow> fetch_sequence_number st \<noteq> - 1 \<Longrightarrow>
     pb_step st st'"
| pb_retry: "process_prefetch_request_retry k n st = (r, st') \<Longrightarrow>
     key_state_map st k = Some (Requested n) \<or> key_state_map st k = Some (Loading n) \<Longrightarrow>
     pb_step st st'"
| pb_fetch_complete: "pb_step st (fetch_complete k v n st)"
| pb_fetch_failed: "pb_step st (fetch_failed k n st)"
| pb_transaction_complete: "pb_step st (process_transaction_complete t st)"
| pb_upsert: "pb_step st (pb_upsert k w st)"
| pb_delete: "pb_step st (pb_delete k st)"

definition pb_init :: "pb_state \<Rightarrow> bool" where
  "pb_init st \<longleftrightarrow> st = pb_new"

definition keys_of :: "pb_state \<Rightarrow> uuid \<Rightarrow> bytes set" where
  "keys_of st t = (case transaction_keys st t of None \<Rightarrow> {} | Some s \<Rightarrow> set s)"

definition txs_of :: "pb_state \<Rightarrow> bytes \<Rightarrow> uuid set" where
  "txs_of st k = (case key_transactions st k of None \<Rightarrow> {} | Some s \<Rightarrow> set s)"

definition pb_links :: "pb_state \<Rightarrow> bool" where
  "pb_links st \<longleftrightarrow> (\<forall>t k. k \<in> keys_of st t \<longleftrightarrow> t \<in> txs_of st k) \<and>
     (\<forall>t s. transaction_keys st t = Some s \<longrightarrow> s \<noteq> [] \<and> bset_wf s) \<and>
     (\<forall>k s. key_transactions st k = Some s \<longrightarrow> s \<noteq> [] \<and> bset_wf s)"

definition pb_domains :: "pb_state \<Rightarrow> bool" where
  "pb_domains st \<longleftrightarrow> (\<forall>k. (key_transactions st k = None \<longleftrightarrow> key_state_map st k = None) \<and>
     (key_state_map st k = None \<longrightarrow> prefetch_store st k = None) \<and>
     (key_state_watcher st k = None \<longrightarrow> key_state_map st k = None))"

definition pb_channels :: "pb_state \<Rightarrow> bool" where
  "pb_channels st \<longleftrightarrow>
     (\<forall>k rx. key_state_watcher st k = Some rx \<longrightarrow>
        snd rx = 0 \<and> key_state_sender st k = Some (fst rx) \<and> watch_channels st (fst rx) \<noteq> None) \<and>
     (\<forall>ch. watch_channels st ch \<noteq> None \<longrightarrow> ch < next_chan st)"

definition pb_seq :: "pb_state \<Rightarrow> bool" where
  "pb_seq st \<longleftrightarrow> (\<forall>k n. key_state_map st k = Some (Loading n) \<or> key_state_map st k = Some (Requested n)
      \<longrightarrow> n \<le> fetch_sequence_number st)"

definition pb_inv :: "pb_state \<Rightarrow> bool" where
  "pb_inv st \<longleftrightarrow> pb_links st \<and> pb_domains st \<and> pb_channels st \<and> pb_seq st"

text \<open>Fetch \<open>n\<close> of key \<open>k\<close> is over: no completion of it may be accepted any more.\<close>

definition fetch_over :: "bytes \<Rightarrow> u64 \<Rightarrow> pb_state \<Rightarrow> bool" where
  "fetch_over k n st \<longleftrightarrow> n \<le> fetch_sequence_number st \<and>
     key_state_map st k \<noteq> Some (Loading n) \<and> key_state_map st k \<noteq> Some (Requested n)"

section \<open>Lemmas\<close>

subsection \<open>What the operations leave alone\<close>

lemma watch_send_simps [simp]:
  "prefetch_store (watch_send k v st) = prefetch_store st"
  "key_state_map (watch_send k v st) = key_state_map st"
  "transaction_keys (watch_send k v st) = transaction_keys st"
  "key_transactions (watch_send k v st) = key_transactions st"
  "key_state_watcher (watch_send k v st) = key_state_watcher st"
  "key_state_sender (watch_send k v st) = key_state_sender st"
  "fetch_sequence_number (watch_send k v st) = fetch_sequence_number st"
  "next_chan (watch_send k v st) = next_chan st"
  by (auto simp: watch_send_def split: option.splits)

lemma watch_send_dom [simp]: "watch_channels (watch_send k v st) ch = None \<longleftrightarrow> watch_channels st ch = None"
  by (auto simp: watch_send_def split: option.splits)

lemma change_to_loading_simps [simp]:
  "prefetch_store (snd (change_keystate_to_loading k n st)) = prefetch_store st"
  "key_state_map (snd (change_keystate_to_loading k n st)) = (key_state_map st)(k \<mapsto> Loading n)"
  "transaction_keys (snd (change_keystate_to_loading k n st)) = transaction_keys st"
  "key_transactions (snd (change_keystate_to_loading k n st)) = key_transactions st"
  "fetch_sequence_number (snd (change_keystate_to_loading k n st)) = fetch_sequence_number st"
  by (auto simp: change_keystate_to_loading_def Let_def split: option.splits)

lemma change_to_loading_watcher:
  "key_state_map st k \<noteq> None \<Longrightarrow>
     key_state_watcher (snd (change_keystate_to_loading k n st)) l = None \<longleftrightarrow>
       l \<noteq> k \<and> key_state_watcher st l = None"
  by (auto simp: change_keystate_to_loading_def Let_def split: if_splits)

lemma change_to_loading_channels:
  "pb_channels st \<Longrightarrow> pb_channels (snd (change_keystate_to_loading k n st))"
  by (fastforce simp: change_keystate_to_loading_def Let_def pb_channels_def less_Suc_eq
      split: option.splits if_splits)

lemma change_to_loading_result:
  "fst (change_keystate_to_loading k n st) = (if key_state_map st k = None then Err () else Ok ())"
  by (auto simp: change_keystate_to_loading_def Let_def split: option.splits)

lemma change_to_loading_case:
  "(case change_keystate_to_loading k n st of (Ok _, s) \<Rightarrow> f s | (_, s) \<Rightarrow> g s) =
     (if key_state_map st k = None then g (snd (change_keystate_to_loading k n st))
      else f (snd (change_keystate_to_loading k n st)))"
  using change_to_loading_result [of k n st]
  by (cases "change_keystate_to_loading k n st") auto

lemma register_simps [simp]:
  "prefetch_store (register_prefetch_request t k st) = prefetch_store st"
  "transaction_keys (register_prefetch_request t k st) = add_to_transaction_keys t k (transaction_keys st)"
  "key_transactions (register_prefetch_request t k st) = add_to_key_transactions t k (key_transactions st)"
  "key_state_watcher (register_prefetch_request t k st) = key_state_watcher st"
  "key_state_sender (register_prefetch_request t k st) = key_state_sender st"
  "watch_channels (register_prefetch_request t k st) = watch_channels st"
  "next_chan (register_prefetch_request t k st) = next_chan st"
  by (simp_all add: register_prefetch_request_def Let_def)

lemma register_key_state:
  "key_state_map (register_prefetch_request t k st) =
     (if key_state_map st k = None then (key_state_map st)(k \<mapsto> Requested (fetch_sequence_number st + 1))
      else key_state_map st)"
  "fetch_sequence_number (register_prefetch_request t k st) =
     (if key_state_map st k = None then fetch_sequence_number st + 1 else fetch_sequence_number st)"
  by (simp_all add: register_prefetch_request_def Let_def)

lemma start_cases:
  assumes "process_prefetch_request_start t k st = (r, st')"
  obtains "r = Ok (Ready Fetched)" "key_state_map st k = Some Fetched"
      "st' = register_prefetch_request t k st"
  | n where "r = Ok (AwaitWatcher n)" "key_state_map st k = Some (Loading n)"
      "st' = register_prefetch_request t k st"
  | n where "r = Ok (Ready (Requested n))"
      "key_state_map (register_prefetch_request t k st) k = Some (Requested n)"
      "st' = snd (change_keystate_to_loading k n (register_prefetch_request t k st))"
  using assms
  by (auto simp: process_prefetch_request_start_def Let_def change_to_loading_case register_key_state
      split: option.splits key_state.splits if_splits)

lemma complete_keys_frame [simp]:
  "transaction_keys (complete_keys t ks st) = transaction_keys st"
  "key_state_watcher (complete_keys t ks st) = key_state_watcher st"
  "key_state_sender (complete_keys t ks st) = key_state_sender st"
  "watch_channels (complete_keys t ks st) = watch_channels st"
  "next_chan (complete_keys t ks st) = next_chan st"
  "fetch_sequence_number (complete_keys t ks st) = fetch_sequence_number st"
  by (induction t ks st rule: complete_keys.induct) (simp_all add: Let_def evict_key_def)

text \<open>What completing a transaction leaves of the requesters of a key.\<close>

definition without_tx :: "uuid \<Rightarrow> uuid list option \<Rightarrow> uuid list option" where
  "without_tx t r = (case r of None \<Rightarrow> None
     | Some s \<Rightarrow> (if bset_remove t s = [] then None else Some (bset_remove t s)))"

lemma remove_from_key_transactions_apply:
  "remove_from_key_transactions t k kt k' = (if k' = k then without_tx t (kt k) else kt k')"
  by (auto simp: remove_from_key_transactions_def without_tx_def Let_def split: option.splits)

lemma complete_keys_maps:
  assumes "distinct ks"
  shows "key_transactions (complete_keys t ks st) k =
           (if k \<in> set ks then without_tx t (key_transactions st k) else key_transactions st k)"
    and "key_state_map (complete_keys t ks st) k =
           (if k \<in> set ks \<and> without_tx t (key_transactions st k) = None then None else key_state_map st k)"
    and "prefetch_store (complete_keys t ks st) k =
           (if k \<in> set ks \<and> without_tx t (key_transactions st k) = None then None else prefetch_store st k)"
  using assms
  by (induction t ks st rule: complete_keys.induct)
    (auto simp: Let_def evict_key_def remove_from_key_transactions_apply)

subsection \<open>Preservation of the invariant\<close>

lemma register_links:
  assumes "pb_links st" shows "pb_links (register_prefetch_request t k st)"
proof -
  have k: "keys_of (register_prefetch_request t k st) u =
      (if u = t then insert k (keys_of st t) else keys_of st u)" for u
    by (auto simp: keys_of_def add_to_transaction_keys_def split: option.splits)
  have t: "txs_of (register_prefetch_request t k st) l =
      (if l = k then insert t (txs_of st k) else txs_of st l)" for l
    by (auto simp: txs_of_def add_to_key_transactions_def split: option.splits)
  show ?thesis
    using assms unfolding pb_links_def k t
    by (auto simp: add_to_transaction_keys_def add_to_key_transactions_def
        split: option.splits if_splits)
qed

lemma register_seq:
  assumes "pb_seq st" "fetch_sequence_number st \<noteq> - 1"
  shows "pb_seq (register_prefetch_request t k st)"
proof -
  have "fetch_sequence_number st \<le> fetch_sequence_number st + 1"
    using assms(2) by (simp add: word_le_nat_alt unat_add_one)
  then show ?thesis
    using assms(1) by (auto simp: pb_seq_def register_key_state intro: order_trans)
qed

lemma links_cong:
  "transaction_keys st' = transaction_keys st \<Longrightarrow> key_transactions st' = key_transactions st \<Longrightarrow>
     pb_links st' = pb_links st"
  by (simp add: pb_links_def keys_of_def txs_of_def)

lemma channels_cong:
  "key_state_watcher st' = key_state_watcher st \<Longrightarrow> key_state_sender st' = key_state_sender st \<Longrightarrow>
   next_chan st' = next_chan st \<Longrightarrow>
   (\<And>ch. watch_channels st' ch = None \<longleftrightarrow> watch_channels st ch = None) \<Longrightarrow>
     pb_channels st' = pb_channels st"
  by (simp add: pb_channels_def)

lemma channels_simps [simp]:
  "pb_channels (watch_send k v st) = pb_channels st"
  "pb_channels (st\<lparr>prefetch_store := a\<rparr>) = pb_channels st"
  "pb_channels (st\<lparr>key_state_map := b\<rparr>) = pb_channels st"
  "pb_channels (st\<lparr>prefetch_store := a, key_state_map := b\<rparr>) = pb_channels st"
  by (rule channels_cong; simp)+

lemma change_to_loading_domains:
  assumes "\<And>l. (key_transactions st l = None \<longleftrightarrow> key_state_map st l = None)"
    and "\<And>l. key_state_map st l = None \<Longrightarrow> prefetch_store st l = None"
    and "\<And>l. key_state_watcher st l = None \<Longrightarrow> l \<noteq> k \<Longrightarrow> key_state_map st l = None"
    and "key_state_map st k \<noteq> None"
  shows "pb_domains (snd (change_keystate_to_loading k n st))"
  using assms change_to_loading_watcher [OF assms(4)] by (auto simp: pb_domains_def)

lemma start_inv:
  assumes "process_prefetch_request_start t k st = (r, st')" "fetch_sequence_number st \<noteq> - 1" "pb_inv st"
  shows "pb_inv st'"
proof -
  let ?s = "register_prefetch_request t k st"
  have l: "pb_links ?s" and q: "pb_seq ?s" and c: "pb_channels ?s"
    using assms register_links register_seq by (auto simp: pb_inv_def pb_channels_def)
  have d: "\<And>l. key_transactions ?s l = None \<longleftrightarrow> key_state_map ?s l = None"
    "\<And>l. key_state_map ?s l = None \<Longrightarrow> prefetch_store ?s l = None"
    "\<And>l. key_state_watcher ?s l = None \<Longrightarrow> l \<noteq> k \<Longrightarrow> key_state_map ?s l = None"
    using assms(3)
    by (auto simp: pb_inv_def pb_domains_def register_key_state add_to_key_transactions_def
        split: option.splits if_splits)
  show ?thesis
    using assms(1)
  proof (cases rule: start_cases)
    case (3 n)
    have "pb_channels st'" using c 3 by (simp add: change_to_loading_channels)
    moreover have "pb_links st'" using l links_cong [of st' ?s] 3 by simp
    moreover have "pb_seq st'" using q 3 by (auto simp: pb_seq_def)
    moreover have "pb_domains st'"
      unfolding 3(3) by (rule change_to_loading_domains) (use d 3(2) in auto)
    ultimately show ?thesis by (simp add: pb_inv_def)
  next
    case 1
    then show ?thesis
      using l q c d assms(3) by (auto simp: pb_inv_def pb_domains_def register_key_state)
  next
    case (2 n)
    then show ?thesis
      using l q c d assms(3) by (auto simp: pb_inv_def pb_domains_def register_key_state)
  qed
qed

lemma retry_inv:
  assumes "process_prefetch_request_retry k n st = (r, st')"
    and "key_state_map st k = Some (Requested n) \<or> key_state_map st k = Some (Loading n)" "pb_inv st"
  shows "pb_inv st'"
proof -
  have st': "st' = snd (change_keystate_to_loading k n st)"
    using assms(1,2) by (auto simp: process_prefetch_request_retry_def change_to_loading_case)
  have "pb_links st'" using assms(3) links_cong [of st' st] st' by (simp add: pb_inv_def)
  moreover have "pb_channels st'" using assms(3) st' by (simp add: pb_inv_def change_to_loading_channels)
  moreover have "pb_seq st'" using assms(2,3) st' by (auto simp: pb_inv_def pb_seq_def)
  moreover have "pb_domains st'"
    unfolding st' by (rule change_to_loading_domains)
      (use assms(2,3) in \<open>auto simp: pb_inv_def pb_domains_def\<close>)
  ultimately show ?thesis by (simp add: pb_inv_def)
qed

text \<open>The operations that change the state of one present key and its stored value.\<close>

lemma key_update_inv:
  assumes "pb_inv st" "transaction_keys st' = transaction_keys st"
    "key_transactions st' = key_transactions st" "pb_channels st' = pb_channels st"
    "key_state_watcher st' = key_state_watcher st"
    "fetch_sequence_number st' = fetch_sequence_number st"
    "\<And>l. key_state_map st' l = None \<longleftrightarrow> key_state_map st l = None"
    "\<And>l. key_state_map st l = None \<Longrightarrow> prefetch_store st' l = None"
    "\<And>l m. key_state_map st' l = Some (Loading m) \<or> key_state_map st' l = Some (Requested m) \<Longrightarrow>
       key_state_map st l = Some (Loading m) \<or> key_state_map st l = Some (Requested m)"
  shows "pb_inv st'"
  using assms links_cong [of st' st] unfolding pb_inv_def pb_domains_def pb_seq_def by metis

lemma fetch_complete_inv: "pb_inv st \<Longrightarrow> pb_inv (fetch_complete k v n st)"
  by (rule key_update_inv, assumption)
    (auto simp: fetch_complete_def Let_def pb_inv_def pb_domains_def split: option.splits if_splits)

lemma fetch_failed_inv: "pb_inv st \<Longrightarrow> pb_inv (fetch_failed k n st)"
  by (rule key_update_inv, assumption)
    (auto simp: fetch_failed_def Let_def pb_inv_def pb_domains_def split: option.splits if_splits)

lemma is_loading_iff [simp]: "is_loading s \<longleftrightarrow> (\<exists>n. s = Some (Loading n))"
  by (cases s rule: is_loading.cases) auto

lemma upsert_inv: "pb_inv st \<Longrightarrow> pb_inv (pb_upsert k w st)"
  by (rule key_update_inv, assumption)
    (auto simp: pb_upsert_def Let_def pb_inv_def pb_domains_def split: option.splits if_splits)

lemma delete_inv: "pb_inv st \<Longrightarrow> pb_inv (pb_delete k st)"
  by (rule key_update_inv, assumption)
    (auto simp: pb_delete_def Let_def pb_inv_def pb_domains_def split: option.splits if_splits)

lemma without_tx_None_iff: "without_tx t r = None \<longleftrightarrow> (\<forall>s. r = Some s \<longrightarrow> set s \<subseteq> {t})"
  by (auto simp: without_tx_def bset_remove_Nil_iff split: option.splits)

lemma transaction_complete_maps:
  assumes "pb_links st"
  shows "key_transactions (process_transaction_complete t st) k =
           (if k \<in> keys_of st t then without_tx t (key_transactions st k) else key_transactions st k)"
    and "key_state_map (process_transaction_complete t st) k =
           (if txs_of st k = {t} then None else key_state_map st k)"
    and "prefetch_store (process_transaction_complete t st) k =
           (if txs_of st k = {t} then None else prefetch_store st k)"
    and "transaction_keys (process_transaction_complete t st) = (transaction_keys st)(t := None)"
proof -
  have d: "transaction_keys st t = Some ks \<Longrightarrow> distinct ks" for ks
    using assms by (auto simp: pb_links_def bset_wf_def)
  have m: "txs_of st k = {t} \<longleftrightarrow> k \<in> keys_of st t \<and> without_tx t (key_transactions st k) = None"
    using assms by (auto simp: pb_links_def txs_of_def without_tx_None_iff split: option.splits)
  show "key_transactions (process_transaction_complete t st) k =
      (if k \<in> keys_of st t then without_tx t (key_transactions st k) else key_transactions st k)"
    "key_state_map (process_transaction_complete t st) k =
      (if txs_of st k = {t} then None else key_state_map st k)"
    "prefetch_store (process_transaction_complete t st) k =
      (if txs_of st k = {t} then None else prefetch_store st k)"
    unfolding m
    by (auto simp: process_transaction_complete_def Let_def keys_of_def complete_keys_maps d
        split: option.splits)
  show "transaction_keys (process_transaction_complete t st) = (transaction_keys st)(t := None)"
    by (auto simp: process_transaction_complete_def Let_def split: option.splits)
qed

lemma transaction_complete_frame [simp]:
  "key_state_watcher (process_transaction_complete t st) = key_state_watcher st"
  "key_state_sender (process_transaction_complete t st) = key_state_sender st"
  "watch_channels (process_transaction_complete t st) = watch_channels st"
  "next_chan (process_transaction_complete t st) = next_chan st"
  "fetch_sequence_number (process_transaction_complete t st) = fetch_sequence_number st"
  by (simp_all add: process_transaction_complete_def Let_def split: option.splits)

lemma transaction_complete_links:
  assumes "pb_links st" shows "pb_links (process_transaction_complete t st)"
proof -
  note m = transaction_complete_maps [OF assms, of t]
  have k: "keys_of (process_transaction_complete t st) u = (if u = t then {} else keys_of st u)" for u
    by (simp add: keys_of_def m)
  have t: "txs_of (process_transaction_complete t st) l = txs_of st l - {t}" for l
    using assms by (auto simp: txs_of_def m without_tx_def pb_links_def bset_remove_Nil_iff
        split: option.splits)
  have "key_transactions (process_transaction_complete t st) l = Some s \<Longrightarrow> s \<noteq> [] \<and> bset_wf s" for l s
    using assms by (auto simp: m without_tx_def pb_links_def split: option.splits if_splits)
  then show ?thesis
    using assms unfolding pb_links_def k t m by auto
qed

lemma transaction_complete_inv:
  assumes "pb_inv st" shows "pb_inv (process_transaction_complete t st)"
proof -
  have l: "pb_links st" using assms by (simp add: pb_inv_def)
  note m = transaction_complete_maps [OF l, of t]
  have "txs_of st k = {t} \<longleftrightarrow> k \<in> keys_of st t \<and> without_tx t (key_transactions st k) = None" for k
    using l by (auto simp: pb_links_def txs_of_def without_tx_None_iff split: option.splits)
  then have "pb_domains (process_transaction_complete t st)"
    using assms
    by (auto simp: pb_inv_def pb_domains_def m without_tx_def split: option.splits if_splits)
  moreover have "pb_channels (process_transaction_complete t st)"
    using assms by (simp add: pb_inv_def pb_channels_def)
  moreover have "pb_seq (process_transaction_complete t st)"
    using assms by (auto simp: pb_inv_def pb_seq_def m)
  ultimately show ?thesis
    using transaction_complete_links [OF l] by (simp add: pb_inv_def)
qed

lemma pb_step_inv: "pb_step st st' \<Longrightarrow> pb_inv st \<Longrightarrow> pb_inv st'"
  by (induction rule: pb_step.induct)
    (auto intro: start_inv retry_inv fetch_complete_inv fetch_failed_inv upsert_inv delete_inv
      transaction_complete_inv)

interpretation pb: invariant_system pb_init pb_step pb_inv
proof unfold_locales
  fix s assume "pb_init s"
  then show "pb_inv s"
    by (simp add: pb_init_def pb_new_def pb_inv_def pb_links_def pb_domains_def pb_channels_def
        pb_seq_def keys_of_def txs_of_def)
qed (rule pb_step_inv)

subsection \<open>Fetches that are over\<close>

lemma fetch_over_complete: "fetch_over k n st \<Longrightarrow> fetch_complete k v n st = st"
  by (simp add: fetch_over_def fetch_complete_def)

lemma fetch_over_failed: "fetch_over k n st \<Longrightarrow> fetch_failed k n st = st"
  by (simp add: fetch_over_def fetch_failed_def)

lemma register_fetch_over:
  assumes "fetch_over k n st" "fetch_sequence_number st \<noteq> - 1"
  shows "fetch_over k n (register_prefetch_request t l st)"
proof -
  have "fetch_sequence_number st < fetch_sequence_number st + 1"
    using assms(2) by (simp add: word_less_nat_alt unat_add_one)
  then show ?thesis
    using assms(1) by (auto simp: fetch_over_def register_key_state)
qed

lemma change_to_loading_fetch_over:
  "fetch_over k n st \<Longrightarrow> key_state_map st l = Some (Requested m) \<or> key_state_map st l = Some (Loading m) \<Longrightarrow>
     fetch_over k n (snd (change_keystate_to_loading l m st))"
  by (auto simp: fetch_over_def)

lemma start_fetch_over:
  assumes "process_prefetch_request_start t l st = (r, st')"
    and "fetch_sequence_number st \<noteq> - 1" "fetch_over k n st"
  shows "fetch_over k n st'"
  using assms(1)
  by (cases rule: start_cases)
    (use register_fetch_over [OF assms(3,2)] change_to_loading_fetch_over in auto)

lemma pb_step_fetch_over:
  assumes "pb_step st st'" "pb_links st" "fetch_over k n st" shows "fetch_over k n st'"
  using assms(1)
proof cases
  case (pb_start t l r)
  then show ?thesis using start_fetch_over assms(3) by blast
next
  case (pb_retry l m r)
  then have "st' = snd (change_keystate_to_loading l m st)"
    by (auto simp: process_prefetch_request_retry_def change_to_loading_case)
  then show ?thesis using pb_retry(2) assms(3) change_to_loading_fetch_over by simp
next
  case (pb_transaction_complete t)
  then show ?thesis
    using assms(3) by (auto simp: fetch_over_def transaction_complete_maps [OF assms(2)])
qed (use assms(3) in \<open>auto simp: fetch_over_def fetch_complete_def fetch_failed_def pb_upsert_def
       pb_delete_def Let_def split: option.splits\<close>)

lemma pb_inv_links: "pb_inv st \<Longrightarrow> pb_links st"
  by (simp add: pb_inv_def)

lemma steps_fetch_over:
  "steps_to pb_step st st' \<Longrightarrow> pb_inv st \<Longrightarrow> fetch_over k n st \<Longrightarrow> pb_inv st' \<and> fetch_over k n st'"
  by (induction rule: steps_to.induct) (auto intro: pb_step_inv pb_step_fetch_over pb_inv_links)

lemma watch_send_poll:
  assumes "pb_channels st" "key_state_watcher st k = Some rx"
  shows "process_prefetch_request_poll rx (watch_send k v st) = Some (v = Fetched)"
  using assms by (cases rx) (fastforce simp: pb_channels_def process_prefetch_request_poll_def watch_send_def)

section \<open>Properties\<close>


text \<open>
  C30: completing a transaction. Its requests are forgotten, exactly the keys that no other
  transaction has requested are evicted, and the state and value of every other key are untouched.
\<close>

theorem pb_transaction_complete_correct:
  assumes "reachable pb_init pb_step st"
  shows "keys_of (process_transaction_complete t st) t = {} \<and>
    (u \<noteq> t \<longrightarrow> keys_of (process_transaction_complete t st) u = keys_of st u) \<and>
    (if txs_of st k = {t}
     then key_state_map (process_transaction_complete t st) k = None \<and>
          prefetch_store (process_transaction_complete t st) k = None
     else key_state_map (process_transaction_complete t st) k = key_state_map st k \<and>
          prefetch_store (process_transaction_complete t st) k = prefetch_store st k)"
  using transaction_complete_maps [OF pb_inv_links [OF pb.reachable_inv [OF assms]], of t]
  by (simp add: keys_of_def)



section \<open>Observations\<close>

text \<open>A key whose fetch found no value, and a key that a commit deleted, stay marked as fetched
  with no stored value; reading them from the buffer is an error.\<close>

lemma absent_key_get_error:
  "key_state_map st k = Some (Loading n) \<Longrightarrow> prefetch_store st k = None \<Longrightarrow>
     get_from_buffer k (fetch_complete k None n st) = Err ()"
  by (simp add: fetch_complete_def get_from_buffer_def)

lemma deleted_key_get_error:
  "key_state_map st k = Some Fetched \<or> key_state_map st k = Some (Loading n) \<Longrightarrow>
     get_from_buffer k (pb_delete k st) = Err ()"
  by (auto simp: pb_delete_def get_from_buffer_def Let_def)

text \<open>A waiter that retries after the key was evicted panics, and leaves the key loading with no
  requester.\<close>

lemma retry_after_eviction_panics:
  "key_state_map st k = None \<Longrightarrow>
     fst (process_prefetch_request_retry k n st) = Panic \<and>
     key_state_map (snd (process_prefetch_request_retry k n st)) k = Some (Loading n)"
  by (simp add: process_prefetch_request_retry_def change_to_loading_case)

section \<open>Witnesses\<close>

text \<open>Transaction 1 requests a key and its fetch starts.\<close>

definition ex_pb_loading :: pb_state where
  "ex_pb_loading = snd (process_prefetch_request_start 1 [7] pb_new)"

lemma ex_pb_loading_reachable: "reachable pb_init pb_step ex_pb_loading"
  unfolding ex_pb_loading_def
  by (rule reach_step [of pb_init pb_step, OF reach_init pb_start [OF prod.collapse [symmetric]]])
    (simp_all add: pb_init_def pb_new_def)

lemmas ex_pb_eval = ex_pb_loading_def process_prefetch_request_start_def register_prefetch_request_def
  pb_new_def change_keystate_to_loading_def add_to_transaction_keys_def add_to_key_transactions_def
  keys_of_def txs_of_def Let_def

lemma ex_pb_loading_facts:
  "key_state_map ex_pb_loading [7] = Some (Loading 1)"
  "txs_of ex_pb_loading [7] = {1}" "keys_of ex_pb_loading 1 = {[7]}"
  by (simp_all add: ex_pb_eval)


lemma pb_transaction_complete_correct_witness:
  "key_state_map (process_transaction_complete 1 ex_pb_loading) [7] = None"
  using pb_transaction_complete_correct [OF ex_pb_loading_reachable, of 1 _ "[7]"]
  by (simp add: ex_pb_loading_facts)



text \<open>The stored receiver never sees a version, so after a first fetch of a key the waiters of
  every later fetch of the same key are told at once that it is complete.\<close>

definition ex_pb_reloading :: pb_state where
  "ex_pb_reloading =
     snd (process_prefetch_request_start 2 [7]
       (process_transaction_complete 1 (fetch_complete [7] (Some [3]) 1 ex_pb_loading)))"

lemma stale_watcher:
  "key_state_map ex_pb_reloading [7] = Some (Loading 2) \<and>
   (\<exists>rx. process_prefetch_request_subscribe [7] ex_pb_reloading = Some rx \<and>
         process_prefetch_request_poll rx ex_pb_reloading = Some True)"
  by (simp add: ex_pb_reloading_def ex_pb_eval fetch_complete_def watch_send_def evict_key_def
      process_transaction_complete_def remove_from_key_transactions_def bset_remove_def
      process_prefetch_request_subscribe_def process_prefetch_request_poll_def)

end
