(* ===== verification/RS_Storage.thy ===== *)
theory RS_Storage
  imports Cql
begin

text \<open>
  The storage layer of a range server: the trait (rangeserver/src/storage.rs) as a record
  of operations on a state, the laws its users rely on as the locale \<open>record_store\<close>, and the Cassandra
  implementation (rangeserver/src/storage/cassandra.rs) over a database session.
\<close>

section \<open>Definitions\<close>

subsection \<open>The trait\<close>

record range_info =
  ri_id :: uuid
  ri_key_range :: key_range
  ri_leader_sequence_number :: u64
  ri_epoch_lease :: "u64 \<times> u64"

record key_version =
  kv_epoch :: u64
  kv_version_counter :: u64

record 's storage_ops =
  so_take_ownership_and_load_range :: "full_range_id \<Rightarrow> 's \<Rightarrow> (storage_error, range_info) outcome \<times> 's"
  so_renew_epoch_lease :: "full_range_id \<Rightarrow> u64 \<times> u64 \<Rightarrow> u64 \<Rightarrow> 's \<Rightarrow> (storage_error, unit) outcome \<times> 's"
  so_upsert :: "full_range_id \<Rightarrow> bytes \<Rightarrow> bytes \<Rightarrow> key_version \<Rightarrow> 's \<Rightarrow> (storage_error, unit) outcome \<times> 's"
  so_delete :: "full_range_id \<Rightarrow> bytes \<Rightarrow> key_version \<Rightarrow> 's \<Rightarrow> (storage_error, unit) outcome \<times> 's"
  so_get :: "full_range_id \<Rightarrow> bytes \<Rightarrow> 's \<Rightarrow> (storage_error, bytes option) outcome \<times> 's"

subsection \<open>Tables and statements\<close>

text \<open>
  A record row is clustered by epoch, largest first: the rows of a key are a list in that order. A
  cell carries the timestamp of the write it holds. Of two writes to a cell the one with
  the larger timestamp wins; which one wins at equal timestamps is up to the database and
  given by \<open>tie new old\<close> for values and for flags.
\<close>

record cql_range_lease =
  cl_range_id :: uuid
  cl_epoch_lease :: "i64 \<times> i64"
  cl_key_lower_bound_inclusive :: "bytes option"
  cl_key_upper_bound_exclusive :: "bytes option"
  cl_leader_sequence_number :: i64
  cl_safe_snapshot_epochs :: "i64 \<times> i64"

record record_row =
  rr_value :: "(bytes \<times> i64) option"
  rr_is_tombstone :: "(bool \<times> i64) option"

record storage_db =
  db_range_leases :: "uuid \<rightharpoonup> cql_range_lease"
  db_records :: "uuid \<times> bytes \<Rightarrow> (i64 \<times> record_row) list"

datatype storage_stmt =
    GET_RANGE_LEASE_QUERY uuid
  | ACQUIRE_RANGE_LEASE_QUERY i64 uuid i64
  | RENEW_EPOCH_LEASE_QUERY "i64 \<times> i64" uuid i64
  | UPSERT_QUERY uuid bytes "bytes option" i64 bool i64
  | GET_QUERY uuid bytes

datatype storage_rows = LeaseRows "cql_range_lease list" | ValueRows "(bytes option \<times> bool option) list" | NoStorageRows

type_synonym ties = "(bytes \<Rightarrow> bytes \<Rightarrow> bool) \<times> (bool \<Rightarrow> bool \<Rightarrow> bool)"

definition write_cell :: "('v \<Rightarrow> 'v \<Rightarrow> bool) \<Rightarrow> 'v \<Rightarrow> i64 \<Rightarrow> ('v \<times> i64) option \<Rightarrow> ('v \<times> i64) option" where
  "write_cell tie v ts old =
     (case old of
        None \<Rightarrow> Some (v, ts)
      | Some (v0, ts0) \<Rightarrow> (if ts0 <s ts \<or> (ts = ts0 \<and> tie v v0) then Some (v, ts) else old))"

definition write_row :: "ties \<Rightarrow> bytes option \<Rightarrow> bool \<Rightarrow> i64 \<Rightarrow> record_row \<Rightarrow> record_row" where
  "write_row tie v tomb ts row =
     row\<lparr>rr_value := (case v of None \<Rightarrow> rr_value row | Some b \<Rightarrow> write_cell (fst tie) b ts (rr_value row)),
         rr_is_tombstone := write_cell (snd tie) tomb ts (rr_is_tombstone row)\<rparr>"

definition empty_row :: record_row where
  "empty_row = \<lparr>rr_value = None, rr_is_tombstone = None\<rparr>"

fun update_rows :: "i64 \<Rightarrow> (record_row \<Rightarrow> record_row) \<Rightarrow> (i64 \<times> record_row) list \<Rightarrow> (i64 \<times> record_row) list" where
  "update_rows e f [] = [(e, f empty_row)]"
| "update_rows e f ((e0, row) # rows) =
     (if e = e0 then (e0, f row) # rows
      else if e0 <s e then (e, f empty_row) # (e0, row) # rows
      else (e0, row) # update_rows e f rows)"

fun storage_sem :: "ties \<Rightarrow> storage_stmt \<Rightarrow> storage_db \<Rightarrow> storage_rows \<times> storage_db" where
  "storage_sem tie (GET_RANGE_LEASE_QUERY i) db =
     (LeaseRows (case db_range_leases db i of None \<Rightarrow> [] | Some l \<Rightarrow> [l]), db)"
| "storage_sem tie (ACQUIRE_RANGE_LEASE_QUERY n i p) db =
     (case db_range_leases db i of
        None \<Rightarrow> (NoStorageRows, db)
      | Some l \<Rightarrow> (NoStorageRows,
          if cl_leader_sequence_number l = p
          then db\<lparr>db_range_leases := (db_range_leases db)(i \<mapsto> l\<lparr>cl_leader_sequence_number := n\<rparr>)\<rparr>
          else db))"
| "storage_sem tie (RENEW_EPOCH_LEASE_QUERY el i n) db =
     (case db_range_leases db i of
        None \<Rightarrow> (NoStorageRows, db)
      | Some l \<Rightarrow> (NoStorageRows,
          if cl_leader_sequence_number l = n
          then db\<lparr>db_range_leases := (db_range_leases db)(i \<mapsto> l\<lparr>cl_epoch_lease := el\<rparr>)\<rparr>
          else db))"
| "storage_sem tie (UPSERT_QUERY i k v e tomb ts) db =
     (NoStorageRows,
      db\<lparr>db_records := (db_records db)((i, k) := update_rows e (write_row tie v tomb ts) (db_records db (i, k)))\<rparr>)"
| "storage_sem tie (GET_QUERY i k) db =
     (ValueRows (map (\<lambda>(e, row). (map_option fst (rr_value row), map_option fst (rr_is_tombstone row)))
        (take 1 (db_records db (i, k)))), db)"

type_synonym storage_session = "(storage_stmt, storage_db, storage_rows) session"

subsection \<open>Operations\<close>

definition cql_key_range :: "cql_range_lease \<Rightarrow> key_range" where
  "cql_key_range l = \<lparr>lower_bound_inclusive = cl_key_lower_bound_inclusive l,
                      upper_bound_exclusive = cl_key_upper_bound_exclusive l\<rparr>"

fun scylla_query_error_to_persistence_error :: "query_error \<Rightarrow> storage_error" where
  "scylla_query_error_to_persistence_error TimeoutError = StorageTimeout"
| "scylla_query_error_to_persistence_error DbWriteTimeout = StorageTimeout"
| "scylla_query_error_to_persistence_error (OtherQueryError e) = StorageInternalError e"

definition get_range_lease ::
  "storage_session \<Rightarrow> nat \<Rightarrow> full_range_id \<Rightarrow> storage_db \<Rightarrow> (storage_error, cql_range_lease) outcome \<times> storage_db" where
  "get_range_lease exec n range_id db =
     (case exec n (GET_RANGE_LEASE_QUERY (frid_range_id range_id)) db of
        (Ok NoStorageRows, db') \<Rightarrow> (Err StorageRangeDoesNotExist, db')
      | (Ok (LeaseRows [row]), db') \<Rightarrow> (Ok row, db')
      | (Ok _, db') \<Rightarrow> (Panic, db')
      | (Err qe, db') \<Rightarrow> (Err (scylla_query_error_to_persistence_error qe), db')
      | (Panic, db') \<Rightarrow> (Panic, db'))"

text \<open>The conditional update of \<^verbatim>\<open>take_ownership_and_load_range\<close>, and its final read and check.\<close>

definition take_ownership_acquire ::
  "storage_session \<Rightarrow> cql_range_lease \<Rightarrow> storage_db \<Rightarrow> (storage_error, unit) outcome \<times> storage_db" where
  "take_ownership_acquire exec l db =
     (case exec 1 (ACQUIRE_RANGE_LEASE_QUERY (cl_leader_sequence_number l + 1) (cl_range_id l)
                     (cl_leader_sequence_number l)) db of
        (Ok _, db') \<Rightarrow> (Ok (), db')
      | (Err qe, db') \<Rightarrow> (Err (scylla_query_error_to_persistence_error qe), db')
      | (Panic, db') \<Rightarrow> (Panic, db'))"

definition take_ownership_check ::
  "storage_session \<Rightarrow> full_range_id \<Rightarrow> i64 \<Rightarrow> storage_db \<Rightarrow> (storage_error, range_info) outcome \<times> storage_db" where
  "take_ownership_check exec range_id new_leader_sequence_number db =
     (case get_range_lease exec 2 range_id db of
        (Ok l, db') \<Rightarrow>
          (if cl_leader_sequence_number l \<noteq> new_leader_sequence_number
           then Err StorageRangeOwnershipLost
           else Ok \<lparr>ri_id = frid_range_id range_id, ri_key_range = cql_key_range l,
                    ri_leader_sequence_number = new_leader_sequence_number,
                    ri_epoch_lease = cl_epoch_lease l\<rparr>, db')
      | (Err e, db') \<Rightarrow> (Err e, db')
      | (Panic, db') \<Rightarrow> (Panic, db'))"

definition take_ownership_and_load_range ::
  "storage_session \<Rightarrow> full_range_id \<Rightarrow> storage_db \<Rightarrow> (storage_error, range_info) outcome \<times> storage_db" where
  "take_ownership_and_load_range exec range_id db =
     (case get_range_lease exec 0 range_id db of
        (Ok l, db1) \<Rightarrow>
          (case take_ownership_acquire exec l db1 of
             (Ok _, db2) \<Rightarrow> take_ownership_check exec range_id (cl_leader_sequence_number l + 1) db2
           | (Err e, db2) \<Rightarrow> (Err e, db2)
           | (Panic, db2) \<Rightarrow> (Panic, db2))
      | (Err e, db1) \<Rightarrow> (Err e, db1)
      | (Panic, db1) \<Rightarrow> (Panic, db1))"

definition renew_epoch_lease ::
  "storage_session \<Rightarrow> full_range_id \<Rightarrow> u64 \<times> u64 \<Rightarrow> u64 \<Rightarrow> storage_db \<Rightarrow> (storage_error, unit) outcome \<times> storage_db" where
  "renew_epoch_lease exec range_id new_lease leader_sequence_number db =
     (case exec 0 (RENEW_EPOCH_LEASE_QUERY new_lease (frid_range_id range_id) leader_sequence_number) db of
        (Ok _, db1) \<Rightarrow>
          (case get_range_lease exec 1 range_id db1 of
             (Ok l, db2) \<Rightarrow>
               (if cl_leader_sequence_number l \<noteq> leader_sequence_number
                then Err StorageRangeOwnershipLost else Ok (), db2)
           | (Err e, db2) \<Rightarrow> (Err e, db2)
           | (Panic, db2) \<Rightarrow> (Panic, db2))
      | (Err qe, db1) \<Rightarrow> (Err (scylla_query_error_to_persistence_error qe), db1)
      | (Panic, db1) \<Rightarrow> (Panic, db1))"

definition storage_upsert ::
  "storage_session \<Rightarrow> full_range_id \<Rightarrow> bytes \<Rightarrow> bytes \<Rightarrow> key_version \<Rightarrow> storage_db
     \<Rightarrow> (storage_error, unit) outcome \<times> storage_db" where
  "storage_upsert exec range_id key val version db =
     (case exec 0 (UPSERT_QUERY (frid_range_id range_id) key (Some val) (kv_epoch version) False
                     (kv_version_counter version)) db of
        (Ok _, db') \<Rightarrow> (Ok (), db')
      | (Err qe, db') \<Rightarrow> (Err (scylla_query_error_to_persistence_error qe), db')
      | (Panic, db') \<Rightarrow> (Panic, db'))"

definition storage_delete ::
  "storage_session \<Rightarrow> full_range_id \<Rightarrow> bytes \<Rightarrow> key_version \<Rightarrow> storage_db
     \<Rightarrow> (storage_error, unit) outcome \<times> storage_db" where
  "storage_delete exec range_id key version db =
     (case exec 0 (UPSERT_QUERY (frid_range_id range_id) key None (kv_epoch version) True
                     (kv_version_counter version)) db of
        (Ok _, db') \<Rightarrow> (Ok (), db')
      | (Err qe, db') \<Rightarrow> (Err (scylla_query_error_to_persistence_error qe), db')
      | (Panic, db') \<Rightarrow> (Panic, db'))"

definition storage_get ::
  "storage_session \<Rightarrow> full_range_id \<Rightarrow> bytes \<Rightarrow> storage_db \<Rightarrow> (storage_error, bytes option) outcome \<times> storage_db" where
  "storage_get exec range_id key db =
     (case exec 0 (GET_QUERY (frid_range_id range_id) key) db of
        (Ok NoStorageRows, db') \<Rightarrow> (Ok None, db')
      | (Ok (ValueRows []), db') \<Rightarrow> (Ok None, db')
      | (Ok (ValueRows [(v, Some is_tombstone)]), db') \<Rightarrow> (if is_tombstone then Ok None else Ok v, db')
      | (Ok _, db') \<Rightarrow> (Panic, db')
      | (Err qe, db') \<Rightarrow> (Err (scylla_query_error_to_persistence_error qe), db')
      | (Panic, db') \<Rightarrow> (Panic, db'))"

definition cassandra_storage :: "storage_session \<Rightarrow> storage_db storage_ops" where
  "cassandra_storage exec =
     \<lparr>so_take_ownership_and_load_range = take_ownership_and_load_range exec,
      so_renew_epoch_lease = renew_epoch_lease exec,
      so_upsert = storage_upsert exec, so_delete = storage_delete exec, so_get = storage_get exec\<rparr>"

subsection \<open>Abstract view\<close>

definition row_visible :: "record_row \<Rightarrow> bytes option" where
  "row_visible row = (case rr_is_tombstone row of
      Some (False, _) \<Rightarrow> map_option fst (rr_value row)
    | _ \<Rightarrow> None)"

definition db_content :: "storage_db \<Rightarrow> uuid \<Rightarrow> bytes \<Rightarrow> bytes option" where
  "db_content db i k = (case db_records db (i, k) of [] \<Rightarrow> None | (e, row) # _ \<Rightarrow> row_visible row)"

text \<open>Epoch \<open>e\<close> is larger than the epochs of the stored versions of the key.\<close>

definition db_fresh :: "u64 \<Rightarrow> uuid \<Rightarrow> bytes \<Rightarrow> storage_db \<Rightarrow> bool" where
  "db_fresh e i k db = (case db_records db (i, k) of [] \<Rightarrow> True | (e0, row) # _ \<Rightarrow> e0 <s e)"

definition db_lease :: "storage_db \<Rightarrow> uuid \<Rightarrow> (u64 \<times> (u64 \<times> u64)) option" where
  "db_lease db i = map_option (\<lambda>l. (cl_leader_sequence_number l, cl_epoch_lease l)) (db_range_leases db i)"

text \<open>Every lease row carries its own key.\<close>

definition db_wf :: "storage_db \<Rightarrow> bool" where
  "db_wf db \<longleftrightarrow> (\<forall>i l. db_range_leases db i = Some l \<longrightarrow> cl_range_id l = i)"

text \<open>The Cassandra storage over some session; each operation may meet another one, with other failures.\<close>

definition cassandra_ops :: "ties \<Rightarrow> storage_db storage_ops \<Rightarrow> bool" where
  "cassandra_ops tie ops \<longleftrightarrow> (\<exists>exec. executes (storage_sem tie) exec \<and> ops = cassandra_storage exec)"

section \<open>The interface\<close>

text \<open>
  Reads return the visible value. A write at an epoch newer than the versions of its key makes its
  value visible when it succeeds; it affects no other key, whatever its outcome.
\<close>

locale record_store =
  fixes ops :: "'s storage_ops"
    and content :: "'s \<Rightarrow> uuid \<Rightarrow> bytes \<Rightarrow> bytes option"
    and fresh :: "u64 \<Rightarrow> uuid \<Rightarrow> bytes \<Rightarrow> 's \<Rightarrow> bool"
  assumes get_value: "so_get ops r k s = (Ok v, s') \<Longrightarrow> v = content s (frid_range_id r) k"
    and get_frame: "so_get ops r k s = (rg, s') \<Longrightarrow> content s' = content s \<and> fresh e i l s' = fresh e i l s"
    and upsert_value: "so_upsert ops r k w ver s = (Ok u, s') \<Longrightarrow> fresh (kv_epoch ver) (frid_range_id r) k s \<Longrightarrow>
      content s' (frid_range_id r) k = Some w"
    and upsert_frame: "so_upsert ops r k w ver s = (ru, s') \<Longrightarrow> (i, l) \<noteq> (frid_range_id r, k) \<Longrightarrow>
      content s' i l = content s i l \<and> fresh e i l s' = fresh e i l s"
    and delete_value: "so_delete ops r k ver s = (Ok u, s') \<Longrightarrow> fresh (kv_epoch ver) (frid_range_id r) k s \<Longrightarrow>
      content s' (frid_range_id r) k = None"
    and delete_frame: "so_delete ops r k ver s = (rd, s') \<Longrightarrow> (i, l) \<noteq> (frid_range_id r, k) \<Longrightarrow>
      content s' i l = content s i l \<and> fresh e i l s' = fresh e i l s"

text \<open>
  Leases: taking ownership advances the leader sequence number and returns the stored lease; a
  renewal succeeds only for the current leader and stores the new lease, and one of another
  leader has no effect.
\<close>

locale range_store = record_store +
  fixes wf :: "'a \<Rightarrow> bool" and lease :: "'a \<Rightarrow> uuid \<Rightarrow> (u64 \<times> (u64 \<times> u64)) option"
  assumes take_wf: "so_take_ownership_and_load_range ops r s = (rt, s') \<Longrightarrow> wf s \<Longrightarrow> wf s'"
    and take_value: "so_take_ownership_and_load_range ops r s = (Ok info, s') \<Longrightarrow> wf s \<Longrightarrow>
      \<exists>n. lease s (frid_range_id r) = Some (n, ri_epoch_lease info) \<and>
          ri_leader_sequence_number info = n + 1 \<and>
          lease s' (frid_range_id r) = Some (n + 1, ri_epoch_lease info)"
    and renew_wf: "so_renew_epoch_lease ops r new n s = (rr, s') \<Longrightarrow> wf s \<Longrightarrow> wf s'"
    and renew_value: "so_renew_epoch_lease ops r new n s = (Ok u, s') \<Longrightarrow>
      (\<exists>old. lease s (frid_range_id r) = Some (n, old)) \<and> lease s' (frid_range_id r) = Some (n, new)"
    and renew_fenced: "so_renew_epoch_lease ops r new n s = (rr, s') \<Longrightarrow>
      lease s (frid_range_id r) = Some (m, old) \<Longrightarrow> m \<noteq> n \<Longrightarrow>
      (\<forall>u. rr \<noteq> Ok u) \<and> lease s' (frid_range_id r) = Some (m, old)"
    and take_lease: "so_take_ownership_and_load_range ops r s = (rt, s') \<Longrightarrow> wf s \<Longrightarrow>
      lease s' (frid_range_id r) = lease s (frid_range_id r) \<or>
      (\<exists>m el. lease s (frid_range_id r) = Some (m, el) \<and> lease s' (frid_range_id r) = Some (m + 1, el))"
    and renew_lease: "so_renew_epoch_lease ops r new n s = (rr, s') \<Longrightarrow>
      lease s' (frid_range_id r) = lease s (frid_range_id r) \<or>
      (\<exists>old. lease s (frid_range_id r) = Some (n, old)) \<and> lease s' (frid_range_id r) = Some (n, new)"
    and take_frame: "so_take_ownership_and_load_range ops r s = (rt, s') \<Longrightarrow> wf s \<Longrightarrow>
      content s' = content s \<and> fresh s1 i k s' = fresh s1 i k s"
    and renew_frame: "so_renew_epoch_lease ops r new n s = (rr, s') \<Longrightarrow>
      content s' = content s \<and> fresh s1 i k s' = fresh s1 i k s"
begin

text \<open>A new owner is never granted a lease below the one in the store, and fences the old owner.\<close>

lemma take_then_renew_fenced:
  assumes "wf s" "so_take_ownership_and_load_range ops r s = (Ok info, s1)"
    and "n \<noteq> ri_leader_sequence_number info" "so_renew_epoch_lease ops r new n s1 = (res, s2)"
  shows "(\<forall>u. res \<noteq> Ok u) \<and> lease s2 (frid_range_id r) = lease s1 (frid_range_id r)"
proof -
  obtain m where m: "lease s1 (frid_range_id r) = Some (m, ri_epoch_lease info)" "m \<noteq> n"
    using take_value [OF assms(2,1)] assms(3) by auto
  show ?thesis using renew_fenced [OF assms(4) m] m(1) by simp
qed

end

section \<open>The Cassandra implementation\<close>

lemma write_cell_None [simp]: "write_cell tie v ts None = Some (v, ts)"
  by (simp add: write_cell_def)

lemma update_rows_fresh:
  "(case rows of [] \<Rightarrow> True | (e0, row) # _ \<Rightarrow> e0 <s e) \<Longrightarrow> update_rows e f rows = (e, f empty_row) # rows"
  by (cases rows) (auto simp: signed.less_le)

lemma fresh_write:
  assumes "db_fresh e i k db"
  shows "db_content (snd (storage_sem tie (UPSERT_QUERY i k v e tomb ts) db)) i k = (if tomb then None else v)"
  using assms
  by (cases v) (auto simp: db_fresh_def db_content_def update_rows_fresh write_row_def empty_row_def
      row_visible_def)

lemma other_write:
  "(j, l) \<noteq> (i, k) \<Longrightarrow>
     db_content (snd (storage_sem tie (UPSERT_QUERY i k v e tomb ts) db)) j l = db_content db j l \<and>
     db_fresh e' j l (snd (storage_sem tie (UPSERT_QUERY i k v e tomb ts) db)) = db_fresh e' j l db"
  by (auto simp: db_content_def db_fresh_def)

lemma renew_sem:
  "db_lease (snd (storage_sem tie (RENEW_EPOCH_LEASE_QUERY new i n) db)) i =
     (case db_lease db i of None \<Rightarrow> None | Some (m, old) \<Rightarrow> Some (m, if m = n then new else old)) \<and>
   (db_wf db \<longrightarrow> db_wf (snd (storage_sem tie (RENEW_EPOCH_LEASE_QUERY new i n) db))) \<and>
   db_records (snd (storage_sem tie (RENEW_EPOCH_LEASE_QUERY new i n) db)) = db_records db"
  by (auto simp: db_lease_def db_wf_def split: option.splits if_splits)

locale cassandra_store =
  fixes exec :: storage_session and tie :: ties
  assumes session: "executes (storage_sem tie) exec"
begin

lemma get_range_lease_cases:
  assumes "get_range_lease exec n r db = (res, db')"
  shows "db' = db \<and> (\<forall>l. res = Ok l \<longrightarrow> db_range_leases db (frid_range_id r) = Some l)"
  by (rule executes_cases [OF session, where i = n and s = "GET_RANGE_LEASE_QUERY (frid_range_id r)" and db = db])
    (use assms in \<open>auto simp: get_range_lease_def split: option.splits\<close>)

lemma get_cases:
  assumes "storage_get exec r k db = (res, db')"
  shows "db' = db \<and> (\<forall>v. res = Ok v \<longrightarrow> v = db_content db (frid_range_id r) k)"
  by (rule executes_cases [OF session, where i = 0 and s = "GET_QUERY (frid_range_id r) k" and db = db])
    (use assms in \<open>auto simp: storage_get_def db_content_def row_visible_def take_Cons'
       split: list.splits option.splits bool.splits if_splits\<close>)

lemma upsert_cases:
  assumes "storage_upsert exec r k w ver db = (res, db')"
  shows "let s = snd (storage_sem tie (UPSERT_QUERY (frid_range_id r) k (Some w) (kv_epoch ver) False
           (kv_version_counter ver)) db)
         in db' = s \<or> db' = db \<and> (\<forall>u. res \<noteq> Ok u)"
  by (rule executes_cases [OF session, where i = 0 and db = db and
        s = "UPSERT_QUERY (frid_range_id r) k (Some w) (kv_epoch ver) False (kv_version_counter ver)"])
    (use assms in \<open>auto simp: storage_upsert_def Let_def\<close>)

lemma delete_cases:
  assumes "storage_delete exec r k ver db = (res, db')"
  shows "let s = snd (storage_sem tie (UPSERT_QUERY (frid_range_id r) k None (kv_epoch ver) True
           (kv_version_counter ver)) db)
         in db' = s \<or> db' = db \<and> (\<forall>u. res \<noteq> Ok u)"
  by (rule executes_cases [OF session, where i = 0 and db = db and
        s = "UPSERT_QUERY (frid_range_id r) k None (kv_epoch ver) True (kv_version_counter ver)"])
    (use assms in \<open>auto simp: storage_delete_def Let_def\<close>)

lemma acquire_cases:
  assumes "take_ownership_acquire exec l db = (res, db')" "db_range_leases db i = Some l" "cl_range_id l = i"
  shows "db' = db\<lparr>db_range_leases := (db_range_leases db)
             (i \<mapsto> l\<lparr>cl_leader_sequence_number := cl_leader_sequence_number l + 1\<rparr>)\<rparr> \<or>
         db' = db \<and> (\<forall>u. res \<noteq> Ok u)"
  by (rule executes_cases [OF session, where i = 1 and db = db and
        s = "ACQUIRE_RANGE_LEASE_QUERY (cl_leader_sequence_number l + 1) (cl_range_id l)
               (cl_leader_sequence_number l)"])
    (use assms in \<open>auto simp: take_ownership_acquire_def\<close>)

lemma take_cases:
  assumes "take_ownership_and_load_range exec r db = (res, db')" "db_wf db"
  shows "db_wf db' \<and> db_records db' = db_records db \<and>
    (db_lease db' (frid_range_id r) = db_lease db (frid_range_id r) \<or>
     (\<exists>m el. db_lease db (frid_range_id r) = Some (m, el) \<and> db_lease db' (frid_range_id r) = Some (m + 1, el))) \<and>
    (\<forall>info. res = Ok info \<longrightarrow> (\<exists>n.
     db_lease db (frid_range_id r) = Some (n, ri_epoch_lease info) \<and>
     ri_leader_sequence_number info = n + 1 \<and>
     db_lease db' (frid_range_id r) = Some (n + 1, ri_epoch_lease info)))"
proof -
  obtain r0 db1 where g: "get_range_lease exec 0 r db = (r0, db1)" by (cases "get_range_lease exec 0 r db")
  show ?thesis
  proof (cases r0)
    case (Ok l)
    then have l: "db1 = db" "db_range_leases db (frid_range_id r) = Some l" "cl_range_id l = frid_range_id r"
      using get_range_lease_cases [OF g] assms(2) by (auto simp: db_wf_def)
    obtain r1 db2 where a: "take_ownership_acquire exec l db = (r1, db2)"
      by (cases "take_ownership_acquire exec l db")
    note ac = acquire_cases [OF a l(2,3)]
    have wf2: "db_wf db2" using ac assms(2) l(3) by (auto simp: db_wf_def split: if_splits)
    have le2: "db_records db2 = db_records db \<and> (db_lease db2 (frid_range_id r) = db_lease db (frid_range_id r) \<or>
        (\<exists>m el. db_lease db (frid_range_id r) = Some (m, el) \<and> db_lease db2 (frid_range_id r) = Some (m + 1, el)))"
      using ac l(2) by (auto simp: db_lease_def)
    show ?thesis
    proof (cases r1)
      case (Ok u)
      obtain r2 db3 where c: "get_range_lease exec 2 r db2 = (r2, db3)" by (cases "get_range_lease exec 2 r db2")
      note gc = get_range_lease_cases [OF c]
      show ?thesis
        using assms(1) g a c gc ac wf2 le2 l Ok \<open>r0 = Ok l\<close>
        by (cases r2) (auto simp: take_ownership_and_load_range_def take_ownership_check_def db_lease_def
            split: if_splits)
    qed (use assms(1) g a l wf2 le2 \<open>r0 = Ok l\<close> in \<open>auto simp: take_ownership_and_load_range_def\<close>)
  qed (use assms g get_range_lease_cases [OF g] in \<open>auto simp: take_ownership_and_load_range_def\<close>)
qed

lemma renew_result:
  assumes "renew_epoch_lease exec r new n db = (res, db')"
  shows "(db' = db \<and> (\<forall>u. res \<noteq> Ok u)) \<or>
    (db' = snd (storage_sem tie (RENEW_EPOCH_LEASE_QUERY new (frid_range_id r) n) db) \<and>
     (\<forall>u. res = Ok u \<longrightarrow> (\<exists>el. db_lease db' (frid_range_id r) = Some (n, el))))"
proof -
  let ?s = "RENEW_EPOCH_LEASE_QUERY new (frid_range_id r) n"
  obtain r1 db1 where e: "exec 0 ?s db = (r1, db1)" by (cases "exec 0 ?s db")
  have d1: "db1 = snd (storage_sem tie ?s db) \<or> db1 = db \<and> (\<forall>u. r1 \<noteq> Ok u)"
    by (rule executes_cases [OF session, where i = 0 and s = ?s and db = db])
      (use e in \<open>auto simp del: storage_sem.simps\<close>)
  obtain r2 db2 where c: "get_range_lease exec 1 r db1 = (r2, db2)" by (cases "get_range_lease exec 1 r db1")
  have "db' = db1 \<and> (\<forall>u. res = Ok u \<longrightarrow> (\<exists>w l. r1 = Ok w \<and> r2 = Ok l \<and> cl_leader_sequence_number l = n))"
    using assms e c get_range_lease_cases [OF c]
    by (cases r1; cases r2) (auto simp: renew_epoch_lease_def split: if_splits)
  then show ?thesis
    using d1 get_range_lease_cases [OF c] by (auto simp: db_lease_def simp del: storage_sem.simps)
qed

lemma renew_cases:
  assumes "renew_epoch_lease exec r new n db = (res, db')"
  shows "db_wf db \<Longrightarrow> db_wf db'"
    and "res = Ok u \<Longrightarrow> (\<exists>old. db_lease db (frid_range_id r) = Some (n, old)) \<and>
       db_lease db' (frid_range_id r) = Some (n, new)"
    and "db_lease db (frid_range_id r) = Some (m, old) \<Longrightarrow> m \<noteq> n \<Longrightarrow>
       (\<forall>u. res \<noteq> Ok u) \<and> db_lease db' (frid_range_id r) = Some (m, old)"
    and "db_lease db' (frid_range_id r) = db_lease db (frid_range_id r) \<or>
       (\<exists>old. db_lease db (frid_range_id r) = Some (n, old)) \<and> db_lease db' (frid_range_id r) = Some (n, new)"
    and "db_records db' = db_records db"
  using renew_result [OF assms] renew_sem [of tie new "frid_range_id r" n db]
  by (auto simp del: storage_sem.simps split: if_splits option.splits)

end

context cassandra_store
begin

lemma upsert_laws:
  assumes "storage_upsert exec r k w ver db = (res, db')"
  shows "res = Ok u \<Longrightarrow> db_fresh (kv_epoch ver) (frid_range_id r) k db \<Longrightarrow>
      db_content db' (frid_range_id r) k = Some w"
    and "(i, l) \<noteq> (frid_range_id r, k) \<Longrightarrow>
      db_content db' i l = db_content db i l \<and> db_fresh e i l db' = db_fresh e i l db"
  using upsert_cases [OF assms]
    fresh_write [of "kv_epoch ver" "frid_range_id r" k db tie "Some w" False "kv_version_counter ver"]
    other_write [of i l "frid_range_id r" k tie "Some w" "kv_epoch ver" False "kv_version_counter ver" db e]
  by (auto simp: Let_def simp del: storage_sem.simps)

lemma delete_laws:
  assumes "storage_delete exec r k ver db = (res, db')"
  shows "res = Ok u \<Longrightarrow> db_fresh (kv_epoch ver) (frid_range_id r) k db \<Longrightarrow>
      db_content db' (frid_range_id r) k = None"
    and "(i, l) \<noteq> (frid_range_id r, k) \<Longrightarrow>
      db_content db' i l = db_content db i l \<and> db_fresh e i l db' = db_fresh e i l db"
  using delete_cases [OF assms]
    fresh_write [of "kv_epoch ver" "frid_range_id r" k db tie None True "kv_version_counter ver"]
    other_write [of i l "frid_range_id r" k tie None "kv_epoch ver" True "kv_version_counter ver" db e]
  by (auto simp: Let_def simp del: storage_sem.simps)

lemma same_records:
  "db_records db' = db_records db \<Longrightarrow> db_content db' = db_content db \<and> db_fresh e i k db' = db_fresh e i k db"
  by (simp add: db_content_def db_fresh_def fun_eq_iff)

lemma ops_simps:
  "so_get (cassandra_storage exec) = storage_get exec"
  "so_upsert (cassandra_storage exec) = storage_upsert exec"
  "so_delete (cassandra_storage exec) = storage_delete exec"
  "so_take_ownership_and_load_range (cassandra_storage exec) = take_ownership_and_load_range exec"
  "so_renew_epoch_lease (cassandra_storage exec) = renew_epoch_lease exec"
  by (simp_all add: cassandra_storage_def)

end

sublocale cassandra_store \<subseteq> range_store "cassandra_storage exec" db_content db_fresh db_wf db_lease
proof (unfold_locales, unfold ops_simps, goal_cases)
  case 1 then show ?case using get_cases by blast
next
  case 2 then show ?case using get_cases by blast
next
  case 3 then show ?case using upsert_laws(1) by blast
next
  case 4 then show ?case using upsert_laws(2) by blast
next
  case 5 then show ?case using delete_laws(1) by blast
next
  case 6 then show ?case using delete_laws(2) by blast
next
  case 7 then show ?case using take_cases by blast
next
  case 8 then show ?case using take_cases by blast
next
  case 9 then show ?case using renew_cases(1) by blast
next
  case 10 then show ?case using renew_cases(2) by blast
next
  case 11 then show ?case using renew_cases(3) by blast
next
  case 12 then show ?case using take_cases by blast
next
  case 13 then show ?case using renew_cases(4) by blast
next
  case 14 then show ?case using take_cases same_records by blast
next
  case 15 then show ?case using renew_cases(5) same_records by blast
qed

context cassandra_store
begin

lemmas cassandra_record_store = record_store_axioms
lemmas cassandra_range_store = range_store_axioms

end

lemma executes_record_store:
  "executes (storage_sem tie) exec \<Longrightarrow> record_store (cassandra_storage exec) db_content db_fresh"
  using cassandra_store.cassandra_record_store cassandra_store.intro by blast

lemma executes_range_store:
  "executes (storage_sem tie) exec \<Longrightarrow> range_store (cassandra_storage exec) db_content db_fresh db_wf db_lease"
  using cassandra_store.cassandra_range_store cassandra_store.intro by blast

lemma cassandra_ops_range_store: "cassandra_ops tie ops \<Longrightarrow> range_store ops db_content db_fresh db_wf db_lease"
  unfolding cassandra_ops_def using executes_range_store by blast

lemma cassandra_ops_reliable [simp]: "cassandra_ops tie (cassandra_storage (reliable (storage_sem tie)))"
  unfolding cassandra_ops_def using executes_reliable by blast

interpretation reliable_storage: cassandra_store "reliable (storage_sem tie)" tie for tie
  by unfold_locales simp

section \<open>Properties\<close>

text \<open>
  C32: reads see the newest write. After an upsert (a delete) that succeeded at an epoch larger than
  the epochs of the stored versions of the key, a get of the key that succeeds returns the
  value (nothing), and a get of any other key of any range returns what it did before. Queries may fail
  at any point, and nothing is assumed of how the database orders writes with equal timestamps.
\<close>

theorem storage_read_newest_write:
  assumes "executes (storage_sem tie) exec" "executes (storage_sem tie) exec'"
    and "db_fresh (kv_epoch ver) (frid_range_id r) k db"
    and "storage_get exec' r' l db1 = (Ok v, db2)"
  shows "(storage_upsert exec r k w ver db = (Ok (), db1) \<longrightarrow>
            v = (if frid_range_id r' = frid_range_id r \<and> l = k then Some w else db_content db (frid_range_id r') l)) \<and>
         (storage_delete exec r k ver db = (Ok (), db1) \<longrightarrow>
            v = (if frid_range_id r' = frid_range_id r \<and> l = k then None else db_content db (frid_range_id r') l))"
proof -
  have s: "cassandra_store exec tie" "cassandra_store exec' tie" using assms(1,2) by unfold_locales
  have v: "v = db_content db1 (frid_range_id r') l"
    using cassandra_store.get_cases [OF s(2) assms(4)] by blast
  note up = cassandra_store.upsert_laws [OF s(1)] and del = cassandra_store.delete_laws [OF s(1)]
  show ?thesis
  proof (intro conjI impI)
    assume u: "storage_upsert exec r k w ver db = (Ok (), db1)"
    show "v = (if frid_range_id r' = frid_range_id r \<and> l = k then Some w else db_content db (frid_range_id r') l)"
      using up(1) [OF u refl assms(3)] up(2) [OF u, of "frid_range_id r'" l] v by simp
  next
    assume u: "storage_delete exec r k ver db = (Ok (), db1)"
    show "v = (if frid_range_id r' = frid_range_id r \<and> l = k then None else db_content db (frid_range_id r') l)"
      using del(1) [OF u refl assms(3)] del(2) [OF u, of "frid_range_id r'" l] v by simp
  qed
qed

text \<open>
  C17: leadership is fenced. Once a range server has taken ownership of a range, a renewal of
  the epoch lease with any other leader sequence number does not succeed and leaves the
  stored lease and leader untouched.
\<close>

theorem storage_old_leader_fenced:
  assumes "executes (storage_sem tie) exec" "executes (storage_sem tie) exec'" "db_wf db"
    and "take_ownership_and_load_range exec r db = (Ok info, db1)"
    and "n \<noteq> ri_leader_sequence_number info"
    and "renew_epoch_lease exec' r new n db1 = (res, db2)"
  shows "(\<forall>u. res \<noteq> Ok u) \<and> db_lease db2 (frid_range_id r) = db_lease db1 (frid_range_id r) \<and>
    db_lease db1 (frid_range_id r) = Some (ri_leader_sequence_number info, ri_epoch_lease info)"
proof -
  have s: "cassandra_store exec tie" "cassandra_store exec' tie" using assms(1,2) by unfold_locales
  obtain m where m: "db_lease db1 (frid_range_id r) = Some (m, ri_epoch_lease info)"
      "ri_leader_sequence_number info = m"
    using cassandra_store.take_cases [OF s(1) assms(4,3)] by auto
  then show ?thesis
    using cassandra_store.renew_cases(3) [OF s(2) assms(6) m(1)] assms(5) by auto
qed

section \<open>Observations\<close>

definition ex_range :: full_range_id where
  "ex_range = \<lparr>frid_keyspace_id = \<lparr>ksid_id = 1\<rparr>, frid_range_id = 2\<rparr>"

definition ex_lease :: cql_range_lease where
  "ex_lease = \<lparr>cl_range_id = 2, cl_epoch_lease = (0, 0), cl_key_lower_bound_inclusive = None,
     cl_key_upper_bound_exclusive = None, cl_leader_sequence_number = 5, cl_safe_snapshot_epochs = (0, 0)\<rparr>"

definition ex_db :: storage_db where
  "ex_db = \<lparr>db_range_leases = [2 \<mapsto> ex_lease], db_records = (\<lambda>_. [])\<rparr>"

text \<open>
  Two range servers that read the lease before either acquires it both succeed with the
  same leader sequence number: the second conditional update does nothing, but the
  check only compares the number in the table with the expected one.
\<close>

lemma take_ownership_split_brain:
  "let exec = reliable (storage_sem tie);
       db1 = snd (take_ownership_acquire exec ex_lease ex_db);
       db2 = snd (take_ownership_acquire exec ex_lease db1)
   in fst (get_range_lease exec 0 ex_range ex_db) = Ok ex_lease \<and>
      (\<exists>info. fst (take_ownership_check exec ex_range 6 db2) = Ok info \<and> ri_leader_sequence_number info = 6) \<and>
      fst (renew_epoch_lease exec ex_range (1, 9) 6 db2) = Ok ()"
  by (simp add: Let_def take_ownership_acquire_def take_ownership_check_def get_range_lease_def
      renew_epoch_lease_def reliable_def ex_db_def ex_lease_def ex_range_def)

text \<open>
  Two commits of a key in the same epoch carry the same timestamp, because the version counter is
  always 0. A database that keeps the larger value at equal timestamps keeps the first
  write here, so the second one, though acknowledged, is lost.
\<close>

definition larger_wins :: ties where
  "larger_wins = ((\<lambda>new old. old < new), (\<lambda>new old. \<not> old \<and> new))"

lemma same_epoch_update_lost:
  "let exec = reliable (storage_sem larger_wins); ver = \<lparr>kv_epoch = 7, kv_version_counter = 0\<rparr>;
       db1 = snd (storage_upsert exec ex_range [1] [9] ver ex_db);
       db2 = snd (storage_upsert exec ex_range [1] [3] ver db1)
   in fst (storage_upsert exec ex_range [1] [3] ver db1) = Ok () \<and>
      fst (storage_get exec ex_range [1] db2) = Ok (Some [9])"
  by (simp add: Let_def storage_upsert_def storage_get_def reliable_def ex_db_def ex_range_def larger_wins_def
      write_row_def write_cell_def empty_row_def)

text \<open>A range without a lease row makes the range server panic: the select returns no row
  in a list of rows.\<close>

lemma missing_range_panics:
  "db_range_leases db (frid_range_id r) = None \<Longrightarrow>
     fst (take_ownership_and_load_range (reliable (storage_sem tie)) r db) = Panic"
  by (simp add: take_ownership_and_load_range_def get_range_lease_def reliable_def)

section \<open>Witnesses\<close>

lemma storage_read_newest_write_witness:
  "fst (storage_get (reliable (storage_sem larger_wins)) ex_range [1]
     (snd (storage_upsert (reliable (storage_sem larger_wins)) ex_range [1] [9]
        \<lparr>kv_epoch = 7, kv_version_counter = 0\<rparr> ex_db))) = Ok (Some [9])"
proof -
  let ?x = "reliable (storage_sem larger_wins)" and ?v = "\<lparr>kv_epoch = 7, kv_version_counter = 0\<rparr>"
  let ?d = "snd (storage_upsert ?x ex_range [1] [9] ?v ex_db)"
  have f: "db_fresh (kv_epoch ?v) (frid_range_id ex_range) [1] ex_db" by (simp add: db_fresh_def ex_db_def)
  have u: "storage_upsert ?x ex_range [1] [9] ?v ex_db = (Ok (), ?d)"
    by (simp add: storage_upsert_def reliable_def)
  obtain v where g: "storage_get ?x ex_range [1] ?d = (Ok v, ?d)"
    by (auto simp: storage_get_def storage_upsert_def reliable_def ex_db_def write_row_def empty_row_def ex_range_def)
  show ?thesis
    using storage_read_newest_write [OF executes_reliable executes_reliable f g] u g by simp
qed

lemma storage_old_leader_fenced_witness:
  "\<forall>u. fst (renew_epoch_lease (reliable (storage_sem larger_wins)) ex_range (1, 9) 5
     (snd (take_ownership_and_load_range (reliable (storage_sem larger_wins)) ex_range ex_db))) \<noteq> Ok u"
proof -
  let ?x = "reliable (storage_sem larger_wins)"
  let ?d = "snd (take_ownership_and_load_range ?x ex_range ex_db)"
  have w: "db_wf ex_db" by (simp add: db_wf_def ex_db_def ex_lease_def)
  obtain info where i: "take_ownership_and_load_range ?x ex_range ex_db = (Ok info, ?d)" "ri_leader_sequence_number info = 6"
    by (simp add: take_ownership_and_load_range_def take_ownership_acquire_def take_ownership_check_def
        get_range_lease_def reliable_def ex_db_def ex_lease_def ex_range_def)
  show ?thesis
    using storage_old_leader_fenced [OF executes_reliable executes_reliable w i(1) _ prod.collapse [symmetric], of 5 "(1, 9)"]
      i(2) by simp
qed

end
