(* ===== verification/Wal.thy ===== *)
theory Wal
  imports Cql
begin

text \<open>
  The write-ahead log of a range: the trait (rangeserver/src/wal.rs) as a record of
  operations, the in-memory log that the range server uses
  (rangeserver/src/for\_testing/in\_memory\_wal.rs) and the Cassandra log
  (rangeserver/src/wal/cassandra.rs). Serialisation by the flatbuffers library is a parameter, the
  record \<open>wal_codec\<close>.
\<close>

section \<open>Definitions\<close>

record wal_codec =
  prepare_buf :: "prepare_request \<Rightarrow> bytes"
  commit_buf :: "commit_request \<Rightarrow> bytes"
  abort_buf :: "abort_request \<Rightarrow> bytes"
  log_entry_data :: "log_entry \<Rightarrow> bytes"
  root_as_log_entry :: "bytes \<Rightarrow> log_entry option"

record 'w wal_ops =
  wo_sync :: "'w \<Rightarrow> (wal_error, unit) outcome \<times> 'w"
  wo_first_offset :: "'w \<Rightarrow> (wal_error, u64 option) outcome"
  wo_next_offset :: "'w \<Rightarrow> (wal_error, u64) outcome"
  wo_append_prepare :: "prepare_request \<Rightarrow> 'w \<Rightarrow> (wal_error, unit) outcome \<times> 'w"
  wo_append_commit :: "commit_request \<Rightarrow> 'w \<Rightarrow> (wal_error, unit) outcome \<times> 'w"
  wo_append_abort :: "abort_request \<Rightarrow> 'w \<Rightarrow> (wal_error, unit) outcome \<times> 'w"
  wo_trim_before_offset :: "u64 \<Rightarrow> 'w \<Rightarrow> (wal_error, unit) outcome \<times> 'w"

subsection \<open>The in-memory log\<close>

record in_mem_wal =
  imw_first_offset :: "u64 option"
  imw_entries :: "bytes list"

definition in_mem_wal_new :: in_mem_wal where
  "in_mem_wal_new = \<lparr>imw_first_offset = None, imw_entries = []\<rparr>"

definition first_or_zero :: "in_mem_wal \<Rightarrow> u64" where
  "first_or_zero st = (case imw_first_offset st of None \<Rightarrow> 0 | Some o1 \<Rightarrow> o1)"

definition append_data_currently_in_builder :: "bytes \<Rightarrow> in_mem_wal \<Rightarrow> in_mem_wal" where
  "append_data_currently_in_builder buf st = st\<lparr>imw_entries := imw_entries st @ [buf]\<rparr>"

definition in_mem_sync :: "in_mem_wal \<Rightarrow> (wal_error, unit) outcome \<times> in_mem_wal" where
  "in_mem_sync st = (Ok (), st)"

definition in_mem_first_offset :: "in_mem_wal \<Rightarrow> (wal_error, u64 option) outcome" where
  "in_mem_first_offset st = Ok (imw_first_offset st)"

definition in_mem_next_offset :: "in_mem_wal \<Rightarrow> (wal_error, u64) outcome" where
  "in_mem_next_offset st = Ok (first_or_zero st + of_nat (length (imw_entries st)))"

definition in_mem_append_prepare ::
  "wal_codec \<Rightarrow> prepare_request \<Rightarrow> in_mem_wal \<Rightarrow> (wal_error, unit) outcome \<times> in_mem_wal" where
  "in_mem_append_prepare codec entry st =
     (Ok (), append_data_currently_in_builder
        (log_entry_data codec \<lparr>le_entry = EntryPrepare, le_bytes = Some (prepare_buf codec entry)\<rparr>) st)"

definition in_mem_append_commit ::
  "wal_codec \<Rightarrow> commit_request \<Rightarrow> in_mem_wal \<Rightarrow> (wal_error, unit) outcome \<times> in_mem_wal" where
  "in_mem_append_commit codec entry st =
     (Ok (), append_data_currently_in_builder
        (log_entry_data codec \<lparr>le_entry = EntryCommit, le_bytes = Some (commit_buf codec entry)\<rparr>) st)"

definition in_mem_append_abort ::
  "wal_codec \<Rightarrow> abort_request \<Rightarrow> in_mem_wal \<Rightarrow> (wal_error, unit) outcome \<times> in_mem_wal" where
  "in_mem_append_abort codec entry st =
     (Ok (), append_data_currently_in_builder
        (log_entry_data codec \<lparr>le_entry = EntryCommit, le_bytes = Some (abort_buf codec entry)\<rparr>) st)"

fun trim_loop :: "u64 \<Rightarrow> u64 option \<Rightarrow> bytes list \<Rightarrow> u64 option \<times> bytes list" where
  "trim_loop offset first [] = (first, [])"
| "trim_loop offset first (e # es) =
     (let f = (case first of None \<Rightarrow> 0 | Some o1 \<Rightarrow> o1) in
      if f < offset then trim_loop offset (Some (f + 1)) es else (first, e # es))"

definition in_mem_trim_before_offset :: "u64 \<Rightarrow> in_mem_wal \<Rightarrow> (wal_error, unit) outcome \<times> in_mem_wal" where
  "in_mem_trim_before_offset offset st =
     (let (first, es) = trim_loop offset (imw_first_offset st) (imw_entries st)
      in (Ok (), st\<lparr>imw_first_offset := first, imw_entries := es\<rparr>))"

record in_mem_iterator =
  it_index :: u64
  it_current_entry :: "bytes option"

definition in_mem_wal_iterator :: in_mem_iterator where
  "in_mem_wal_iterator = \<lparr>it_index = 0, it_current_entry = None\<rparr>"

definition in_mem_iterator_next ::
  "wal_codec \<Rightarrow> in_mem_wal \<Rightarrow> in_mem_iterator \<Rightarrow> (wal_error, log_entry option) outcome \<times> in_mem_iterator" where
  "in_mem_iterator_next codec wal it =
     (let ind = unat (first_or_zero wal + it_index it) in
      if ind \<ge> length (imw_entries wal) then (Ok None, it)
      else (let e = imw_entries wal ! ind;
                it' = it\<lparr>it_current_entry := Some e, it_index := it_index it + 1\<rparr>
            in (case root_as_log_entry codec e of None \<Rightarrow> Panic | Some le \<Rightarrow> Ok (Some le), it')))"

definition in_mem_iterator_next_offset :: "in_mem_wal \<Rightarrow> in_mem_iterator \<Rightarrow> (wal_error, u64) outcome" where
  "in_mem_iterator_next_offset wal it =
     (case imw_first_offset wal of None \<Rightarrow> Ok 0 | Some first_offset \<Rightarrow> Ok (first_offset + it_index it))"

definition in_memory_wal :: "wal_codec \<Rightarrow> in_mem_wal wal_ops" where
  "in_memory_wal codec = \<lparr>wo_sync = in_mem_sync, wo_first_offset = in_mem_first_offset,
     wo_next_offset = in_mem_next_offset, wo_append_prepare = in_mem_append_prepare codec,
     wo_append_commit = in_mem_append_commit codec, wo_append_abort = in_mem_append_abort codec,
     wo_trim_before_offset = in_mem_trim_before_offset\<rparr>"

subsection \<open>The Cassandra log\<close>

record wal_row =
  wr_first_offset :: "i64 option"
  wr_next_offset :: "i64 option"
  wr_write_id :: "uuid option"
  wr_content :: "bytes option"

type_synonym wal_table = "uuid \<times> i64 \<rightharpoonup> wal_row"

definition METADATA_OFFSET :: i64 where
  "METADATA_OFFSET = 0x7FFFFFFFFFFFFFFF"

text \<open>A batch with a conditional statement takes effect as a whole or not at all.\<close>

datatype wal_stmt =
    SYNC_WAL_QUERY uuid i64
  | APPEND_BATCH i64 "i64 option" uuid i64 i64 bytes uuid
  | TRIM_BATCH i64 uuid i64 i64
  | RETRIEVE_LOG_ENTRY uuid i64 uuid

datatype wal_rows = MetadataRows "(i64 option \<times> i64 option) list" | EntryRows "wal_row list" | NoWalRows

fun wal_sem :: "wal_stmt \<Rightarrow> wal_table \<Rightarrow> wal_rows \<times> wal_table" where
  "wal_sem (SYNC_WAL_QUERY w off) t =
     (MetadataRows (case t (w, off) of None \<Rightarrow> [] | Some r \<Rightarrow> [(wr_first_offset r, wr_next_offset r)]), t)"
| "wal_sem (APPEND_BATCH next first w meta off content write_id) t =
     (NoWalRows,
      case t (w, meta) of
        None \<Rightarrow> t
      | Some r \<Rightarrow>
          (if wr_next_offset r = Some off
           then (let t1 = t((w, meta) \<mapsto> r\<lparr>wr_next_offset := Some next, wr_first_offset := first\<rparr>)
                 in t1((w, off) \<mapsto> (case t1 (w, off) of None \<Rightarrow>
                        \<lparr>wr_first_offset = None, wr_next_offset = None, wr_write_id = Some write_id, wr_content = Some content\<rparr>
                      | Some r0 \<Rightarrow> r0\<lparr>wr_write_id := Some write_id, wr_content := Some content\<rparr>)))
           else t))"
| "wal_sem (TRIM_BATCH first w meta old) t =
     (NoWalRows,
      case t (w, meta) of
        None \<Rightarrow> t
      | Some r \<Rightarrow>
          (if wr_first_offset r = Some old
           then (\<lambda>(w', off). if w' = w \<and> off <s first then None
                            else (t((w, meta) \<mapsto> r\<lparr>wr_first_offset := Some first\<rparr>)) (w', off))
           else t))"
| "wal_sem (RETRIEVE_LOG_ENTRY w off write_id) t =
     (EntryRows (case t (w, off) of None \<Rightarrow> [] | Some r \<Rightarrow> (if wr_write_id r = Some write_id then [r] else [])), t)"

type_synonym wal_session = "(wal_stmt, wal_table, wal_rows) session"

record wal_log_state =
  ls_first_offset :: "i64 option"
  ls_next_offset :: i64

datatype cassandra_wal_state = NotSynced | Synced wal_log_state

record cassandra_wal =
  cw_wal_id :: uuid
  cw_state :: cassandra_wal_state

definition cassandra_wal_new :: "uuid \<Rightarrow> cassandra_wal" where
  "cassandra_wal_new wal_id = \<lparr>cw_wal_id = wal_id, cw_state = NotSynced\<rparr>"

fun scylla_query_error_to_wal_error :: "query_error \<Rightarrow> wal_error" where
  "scylla_query_error_to_wal_error TimeoutError = WalTimeout"
| "scylla_query_error_to_wal_error DbWriteTimeout = WalTimeout"
| "scylla_query_error_to_wal_error (OtherQueryError e) = WalInternal e"

definition cassandra_append_entry ::
  "wal_codec \<Rightarrow> wal_session \<Rightarrow> uuid \<Rightarrow> log_entry_type \<Rightarrow> bytes \<Rightarrow> cassandra_wal \<Rightarrow> wal_table
     \<Rightarrow> (wal_error, unit) outcome \<times> cassandra_wal \<times> wal_table" where
  "cassandra_append_entry codec exec write_id entry_type entry cw t =
     (case cw_state cw of
        NotSynced \<Rightarrow> (Err WalNotSynced, cw, t)
      | Synced ls \<Rightarrow>
          (let content = log_entry_data codec \<lparr>le_entry = entry_type, le_bytes = Some entry\<rparr>;
               offset = ls_next_offset ls;
               ls' = \<lparr>ls_first_offset = Some (case ls_first_offset ls of None \<Rightarrow> offset | Some f \<Rightarrow> f),
                      ls_next_offset = offset + 1\<rparr>;
               cw' = cw\<lparr>cw_state := Synced ls'\<rparr>
           in case exec 0 (APPEND_BATCH (ls_next_offset ls') (ls_first_offset ls') (cw_wal_id cw)
                             METADATA_OFFSET offset content write_id) t of
                (Ok _, t1) \<Rightarrow>
                  (case exec 1 (RETRIEVE_LOG_ENTRY (cw_wal_id cw) offset write_id) t1 of
                     (Ok (EntryRows [r]), t2) \<Rightarrow> (Ok (), cw', t2)
                   | (Ok _, t2) \<Rightarrow> (Err WalNotSynced, cw\<lparr>cw_state := NotSynced\<rparr>, t2)
                   | (Err qe, t2) \<Rightarrow> (Err (scylla_query_error_to_wal_error qe), cw', t2)
                   | (Panic, t2) \<Rightarrow> (Panic, cw', t2))
              | (Err qe, t1) \<Rightarrow> (Err (scylla_query_error_to_wal_error qe), cw', t1)
              | (Panic, t1) \<Rightarrow> (Panic, cw', t1)))"

definition cassandra_sync ::
  "wal_session \<Rightarrow> cassandra_wal \<Rightarrow> wal_table \<Rightarrow> (wal_error, unit) outcome \<times> cassandra_wal \<times> wal_table" where
  "cassandra_sync exec cw t =
     (let cw0 = cw\<lparr>cw_state := NotSynced\<rparr>
      in case exec 2 (SYNC_WAL_QUERY (cw_wal_id cw) METADATA_OFFSET) t of
           (Ok NoWalRows, t') \<Rightarrow> (Err WalNotSynced, cw0, t')
         | (Ok (MetadataRows [(first, Some next)]), t') \<Rightarrow>
             (Ok (), cw0\<lparr>cw_state := Synced \<lparr>ls_first_offset = first, ls_next_offset = next\<rparr>\<rparr>, t')
         | (Ok _, t') \<Rightarrow> (Panic, cw0, t')
         | (Err qe, t') \<Rightarrow> (Err (scylla_query_error_to_wal_error qe), cw0, t')
         | (Panic, t') \<Rightarrow> (Panic, cw0, t'))"

definition cassandra_first_offset :: "cassandra_wal \<Rightarrow> (wal_error, u64 option) outcome" where
  "cassandra_first_offset cw =
     (case cw_state cw of NotSynced \<Rightarrow> Err WalNotSynced | Synced ls \<Rightarrow> Ok (ls_first_offset ls))"

definition cassandra_next_offset :: "cassandra_wal \<Rightarrow> (wal_error, u64) outcome" where
  "cassandra_next_offset cw =
     (case cw_state cw of NotSynced \<Rightarrow> Err WalNotSynced | Synced ls \<Rightarrow> Ok (ls_next_offset ls))"

definition cassandra_trim_before_offset ::
  "wal_session \<Rightarrow> u64 \<Rightarrow> cassandra_wal \<Rightarrow> wal_table \<Rightarrow> (wal_error, unit) outcome \<times> cassandra_wal \<times> wal_table" where
  "cassandra_trim_before_offset exec offset cw t =
     (case cassandra_first_offset cw of
        Err e \<Rightarrow> (Err e, cw, t)
      | Panic \<Rightarrow> (Panic, cw, t)
      | Ok None \<Rightarrow> (Ok (), cw, t)
      | Ok (Some first_offset) \<Rightarrow>
          (if offset < first_offset then (Ok (), cw, t)
           else case exec 0 (TRIM_BATCH offset (cw_wal_id cw) METADATA_OFFSET first_offset) t of
                  (Ok _, t1) \<Rightarrow> cassandra_sync exec cw t1
                | (Err qe, t1) \<Rightarrow> (Err (scylla_query_error_to_wal_error qe), cw, t1)
                | (Panic, t1) \<Rightarrow> (Panic, cw, t1)))"

definition cassandra_append_prepare where
  "cassandra_append_prepare codec exec write_id entry =
     cassandra_append_entry codec exec write_id EntryPrepare (prepare_buf codec entry)"

definition cassandra_append_abort where
  "cassandra_append_abort codec exec write_id entry =
     cassandra_append_entry codec exec write_id EntryAbort (abort_buf codec entry)"

definition cassandra_append_commit where
  "cassandra_append_commit codec exec write_id entry =
     cassandra_append_entry codec exec write_id EntryCommit (commit_buf codec entry)"

subsection \<open>Abstract view\<close>

text \<open>The entry at an offset of the in-memory log.\<close>

definition entry_at :: "in_mem_wal \<Rightarrow> u64 \<Rightarrow> bytes option" where
  "entry_at st off =
     (let f = unat (first_or_zero st) in
      if f \<le> unat off \<and> unat off < f + length (imw_entries st) then Some (imw_entries st ! (unat off - f)) else None)"

definition wal_in_range :: "nat \<Rightarrow> in_mem_wal \<Rightarrow> bool" where
  "wal_in_range n st \<longleftrightarrow> unat (first_or_zero st) + length (imw_entries st) + n < 2 ^ 64"

section \<open>The interface\<close>

text \<open>What the range manager relies on: an append that succeeds adds its entry at the end of
  the log, one that fails adds it or nothing, and a sync leaves the log alone.\<close>

locale log_store =
  fixes ops :: "'w wal_ops" and log :: "'w \<Rightarrow> bytes list"
    and enc_prepare :: "prepare_request \<Rightarrow> bytes" and enc_commit :: "commit_request \<Rightarrow> bytes"
    and enc_abort :: "abort_request \<Rightarrow> bytes"
  assumes sync_log: "wo_sync ops w = (r, w') \<Longrightarrow> log w' = log w"
    and prepare_log: "wo_append_prepare ops p w = (r, w') \<Longrightarrow>
      log w' = log w @ [enc_prepare p] \<or> (\<forall>u. r \<noteq> Ok u) \<and> log w' = log w"
    and commit_log: "wo_append_commit ops c w = (r, w') \<Longrightarrow>
      log w' = log w @ [enc_commit c] \<or> (\<forall>u. r \<noteq> Ok u) \<and> log w' = log w"
    and abort_log: "wo_append_abort ops a w = (r, w') \<Longrightarrow>
      log w' = log w @ [enc_abort a] \<or> (\<forall>u. r \<noteq> Ok u) \<and> log w' = log w"

interpretation in_mem: log_store "in_memory_wal codec" imw_entries
  "\<lambda>p. log_entry_data codec \<lparr>le_entry = EntryPrepare, le_bytes = Some (prepare_buf codec p)\<rparr>"
  "\<lambda>c. log_entry_data codec \<lparr>le_entry = EntryCommit, le_bytes = Some (commit_buf codec c)\<rparr>"
  "\<lambda>a. log_entry_data codec \<lparr>le_entry = EntryCommit, le_bytes = Some (abort_buf codec a)\<rparr>" for codec
  by unfold_locales
    (auto simp: in_memory_wal_def in_mem_sync_def in_mem_append_prepare_def in_mem_append_commit_def
      in_mem_append_abort_def append_data_currently_in_builder_def)

section \<open>The in-memory log\<close>

lemma trim_loop_drop:
  assumes "unat (case first of None \<Rightarrow> 0 | Some o1 \<Rightarrow> o1) + length es < 2 ^ 64"
  shows "let f = (case first of None \<Rightarrow> 0 | Some o1 \<Rightarrow> o1); n = min (unat off - unat f) (length es)
         in snd (trim_loop off first es) = drop n es \<and>
            unat (case fst (trim_loop off first es) of None \<Rightarrow> 0 | Some o1 \<Rightarrow> o1) = unat f + n"
  using assms
proof (induction off first es rule: trim_loop.induct)
  case (2 off first e es)
  let ?f = "case first of None \<Rightarrow> 0 | Some o1 \<Rightarrow> o1"
  show ?case
  proof (cases "?f < off")
    case True
    have f: "unat (?f + 1) = unat ?f + 1"
      using 2(2) by (subst unat_add_no_overflow) auto
    have lt: "unat ?f < unat off" using True by (simp add: word_less_nat_alt)
    have "min (unat off - unat ?f) (Suc (length es)) = Suc (min (unat off - (unat ?f + 1)) (length es))"
      using lt by (auto simp: min_def)
    then show ?thesis
      using 2(1) [OF refl True] 2(2) True f by (simp add: Let_def)
  next
    case False
    then have "unat off \<le> unat ?f" by (simp add: word_less_nat_alt)
    then show ?thesis using False by (simp add: Let_def)
  qed
qed simp

lemma trim_entries:
  assumes "wal_in_range 0 st" "in_mem_trim_before_offset off st = (r, st')"
  shows "imw_entries st' = drop (unat off - unat (first_or_zero st)) (imw_entries st) \<and>
    unat (first_or_zero st') = unat (first_or_zero st) + min (unat off - unat (first_or_zero st)) (length (imw_entries st))"
proof -
  have "drop (min n (length xs)) xs = drop n xs" for n and xs :: "bytes list"
    by (simp add: min_def)
  then show ?thesis
    using trim_loop_drop [of "imw_first_offset st" "imw_entries st" off] assms
    by (auto simp: wal_in_range_def first_or_zero_def in_mem_trim_before_offset_def Let_def split: prod.splits)
qed

lemma append_entry_at:
  assumes "wal_in_range 1 st" "in_mem_next_offset st = Ok off"
  shows "entry_at (append_data_currently_in_builder buf st) off = Some buf"
    and "off' \<noteq> off \<Longrightarrow> entry_at (append_data_currently_in_builder buf st) off' = entry_at st off'"
    and "in_mem_next_offset (append_data_currently_in_builder buf st) = Ok (off + 1)"
proof -
  let ?f = "unat (first_or_zero st)" and ?n = "length (imw_entries st)"
  have off: "unat off = ?f + ?n"
    using assms by (auto simp: in_mem_next_offset_def wal_in_range_def unat_word_ariths unat_of_nat
        mod_less)
  have f: "first_or_zero (append_data_currently_in_builder buf st) = first_or_zero st"
    by (simp add: first_or_zero_def append_data_currently_in_builder_def)
  show "entry_at (append_data_currently_in_builder buf st) off = Some buf"
    unfolding entry_at_def f by (simp add: Let_def off append_data_currently_in_builder_def)
  show "in_mem_next_offset (append_data_currently_in_builder buf st) = Ok (off + 1)"
    using assms(2) unfolding in_mem_next_offset_def f
    by (auto simp: append_data_currently_in_builder_def)
  show "entry_at (append_data_currently_in_builder buf st) off' = entry_at st off'" if "off' \<noteq> off"
  proof -
    have "unat off' \<noteq> ?f + ?n" using that off by (auto simp: word_unat_eq_iff)
    then show ?thesis
      unfolding entry_at_def f by (auto simp: Let_def append_data_currently_in_builder_def nth_append)
  qed
qed

section \<open>The Cassandra log\<close>

lemma append_batch_sem:
  assumes "off \<noteq> METADATA_OFFSET"
  shows "snd (wal_sem (APPEND_BATCH next first w METADATA_OFFSET off content wid) t) =
    (case t (w, METADATA_OFFSET) of
       Some r \<Rightarrow> (if wr_next_offset r = Some off
         then t((w, METADATA_OFFSET) \<mapsto> r\<lparr>wr_next_offset := Some next, wr_first_offset := first\<rparr>,
                (w, off) \<mapsto> (case t (w, off) of None \<Rightarrow>
                    \<lparr>wr_first_offset = None, wr_next_offset = None, wr_write_id = Some wid, wr_content = Some content\<rparr>
                  | Some r0 \<Rightarrow> r0\<lparr>wr_write_id := Some wid, wr_content := Some content\<rparr>))
         else t)
     | None \<Rightarrow> t)"
  using assms by (auto simp: Let_def split: option.splits)

definition wal_next :: "uuid \<Rightarrow> wal_table \<Rightarrow> i64 option" where
  "wal_next w t = (case t (w, METADATA_OFFSET) of None \<Rightarrow> None | Some r \<Rightarrow> wr_next_offset r)"

definition wal_content :: "uuid \<Rightarrow> i64 \<Rightarrow> wal_table \<Rightarrow> bytes option" where
  "wal_content w off t = (case t (w, off) of None \<Rightarrow> None | Some r \<Rightarrow> wr_content r)"

lemma append_batch_effect:
  assumes "off \<noteq> METADATA_OFFSET"
    and "t' = snd (wal_sem (APPEND_BATCH nxt first w METADATA_OFFSET off content wid) t)"
  shows "if wal_next w t = Some off
    then wal_next w t' = Some nxt \<and> wal_content w off t' = Some content \<and>
         (\<forall>r. t' (w, off) = Some r \<longrightarrow> wr_write_id r = Some wid) \<and>
         (\<forall>w' o'. (w', o') \<noteq> (w, off) \<longrightarrow> wal_content w' o' t' = wal_content w' o' t)
    else t' = t"
  unfolding assms(2) append_batch_sem [OF assms(1)]
  using assms(1) by (auto simp: wal_next_def wal_content_def split: option.splits if_splits)

section \<open>Properties\<close>

text \<open>
  The in-memory log stores what is appended, at the offset announced by next\_offset, keeps
  the entries at all other offsets, and advances next\_offset by one; trimming
  removes exactly the entries below the given offset and leaves next\_offset alone. The
  offsets are 64 bit words; the log is not about to run out of them.
\<close>

theorem in_mem_wal_correct:
  assumes "wal_in_range 1 st" "in_mem_next_offset st = Ok off"
    and "st1 = snd (in_mem_append_commit codec c st)" "st2 = snd (in_mem_trim_before_offset bound st)"
  shows "entry_at st1 off = Some (log_entry_data codec \<lparr>le_entry = EntryCommit, le_bytes = Some (commit_buf codec c)\<rparr>) \<and>
    in_mem_next_offset st1 = Ok (off + 1) \<and>
    (\<forall>off'. off' \<noteq> off \<longrightarrow> entry_at st1 off' = entry_at st off') \<and>
    (bound \<le> off \<longrightarrow> in_mem_next_offset st2 = Ok off \<and>
      (\<forall>off'. entry_at st2 off' = (if off' < bound then None else entry_at st off')))"
proof -
  let ?f = "unat (first_or_zero st)" and ?n = "length (imw_entries st)"
  have r0: "wal_in_range 0 st" using assms(1) by (simp add: wal_in_range_def)
  obtain r where t: "in_mem_trim_before_offset bound st = (r, st2)" using assms(4) by (metis prod.collapse)
  note te = trim_entries [OF r0 t]
  have off: "unat off = ?f + ?n"
    using assms(1,2) by (auto simp: in_mem_next_offset_def wal_in_range_def unat_word_ariths unat_of_nat mod_less)
  have "in_mem_next_offset st2 = Ok off \<and>
      (\<forall>off'. entry_at st2 off' = (if off' < bound then None else entry_at st off'))" if bound: "bound \<le> off"
  proof
    have le: "unat bound \<le> ?f + ?n" using bound off by (simp add: word_le_nat_alt)
    then have "unat (first_or_zero st2) + length (imw_entries st2) = unat off"
      using te off by (auto simp: min_def)
    moreover have "unat off < 2 ^ 64" using unsigned_less [of off] by simp
    ultimately show "in_mem_next_offset st2 = Ok off"
      unfolding in_mem_next_offset_def
      by (simp add: word_unat_eq_iff unat_word_ariths unat_of_nat mod_simps)
    show "\<forall>off'. entry_at st2 off' = (if off' < bound then None else entry_at st off')"
      using te le by (auto simp: entry_at_def Let_def word_less_nat_alt min_def split: if_splits)
  qed
  then show ?thesis
    using append_entry_at [OF assms(1,2)] assms(3) by (simp add: in_mem_append_commit_def)
qed

text \<open>
  C33: the Cassandra log has a single writer. An append that succeeds was made at the next offset of the
  stored log, stored its entry there, changed the content at no other offset, and advanced
  the stored and the cached next offset. When the stored next offset is not the cached
  one (another server appended), the append does not succeed and changes nothing in the table.
\<close>

theorem cassandra_append_exclusive:
  assumes "executes wal_sem exec" "cw_state cw = Synced ls" "ls_next_offset ls \<noteq> METADATA_OFFSET"
    and "\<And>r. t (cw_wal_id cw, ls_next_offset ls) = Some r \<Longrightarrow> wr_write_id r \<noteq> Some wid"
    and "cassandra_append_entry codec exec wid ty entry cw t = (res, cw', t')"
  shows "if wal_next (cw_wal_id cw) t = Some (ls_next_offset ls)
    then res = Ok () \<longrightarrow> wal_next (cw_wal_id cw) t' = Some (ls_next_offset ls + 1) \<and>
         cassandra_next_offset cw' = Ok (ls_next_offset ls + 1) \<and>
         wal_content (cw_wal_id cw) (ls_next_offset ls) t' =
           Some (log_entry_data codec \<lparr>le_entry = ty, le_bytes = Some entry\<rparr>) \<and>
         (\<forall>w o'. (w, o') \<noteq> (cw_wal_id cw, ls_next_offset ls) \<longrightarrow> wal_content w o' t' = wal_content w o' t)
    else res \<noteq> Ok () \<and> t' = t"
proof -
  let ?w = "cw_wal_id cw" and ?off = "ls_next_offset ls"
  let ?content = "log_entry_data codec \<lparr>le_entry = ty, le_bytes = Some entry\<rparr>"
  let ?B = "APPEND_BATCH (?off + 1) (Some (case ls_first_offset ls of None \<Rightarrow> ?off | Some f \<Rightarrow> f)) ?w
              METADATA_OFFSET ?off ?content wid"
  let ?R = "RETRIEVE_LOG_ENTRY ?w ?off wid"
  obtain r1 t1 where e1: "exec 0 ?B t = (r1, t1)" by (cases "exec 0 ?B t")
  obtain r2 t2 where e2: "exec 1 ?R t1 = (r2, t2)" by (cases "exec 1 ?R t1")
  have d1: "t1 = snd (wal_sem ?B t) \<or> t1 = t \<and> (\<forall>x. r1 \<noteq> Ok x)"
    by (rule executes_cases [OF assms(1), where i = 0 and s = ?B and db = t])
      (use e1 in \<open>auto simp del: wal_sem.simps\<close>)
  have d2: "t2 = t1 \<and> (\<forall>x. r2 = Ok x \<longrightarrow> x = fst (wal_sem ?R t1))"
    by (rule executes_cases [OF assms(1), where i = 1 and s = ?R and db = t1]) (use e2 in auto)
  have res: "t' = t1 \<and> (res = Ok () \<longrightarrow> (\<exists>x r. r1 = Ok x \<and> r2 = Ok (EntryRows [r]) \<and>
      cassandra_next_offset cw' = Ok (?off + 1)))"
    using assms(2,5) e1 e2 d2
    by (auto simp: cassandra_append_entry_def Let_def cassandra_next_offset_def
        split: outcome.splits wal_rows.splits list.splits)
  note eff = append_batch_effect [OF assms(3) refl, where nxt = "?off + 1" and w = ?w and t = t and
      first = "Some (case ls_first_offset ls of None \<Rightarrow> ?off | Some f \<Rightarrow> f)" and content = ?content and wid = wid]
  show ?thesis
  proof (cases "wal_next ?w t = Some ?off")
    case True
    then show ?thesis using eff d1 res by (auto simp del: wal_sem.simps)
  next
    case False
    then have "t1 = t" using eff d1 by (auto simp del: wal_sem.simps)
    moreover from this have "r2 \<noteq> Ok (EntryRows [r])" for r
      using d2 assms(4) by (auto split: option.splits if_splits)
    ultimately show ?thesis using False res by auto
  qed
qed

section \<open>Observations\<close>

text \<open>An abort is logged as a commit.\<close>

lemma in_mem_abort_logged_as_commit:
  "imw_entries (snd (in_mem_append_abort codec a st)) =
     imw_entries st @ [log_entry_data codec \<lparr>le_entry = EntryCommit, le_bytes = Some (abort_buf codec a)\<rparr>]"
  by (simp add: in_mem_append_abort_def append_data_currently_in_builder_def)

text \<open>The iterator adds the first offset to its index although trimmed entries are gone: after trimming one of two
  entries it finds nothing, although an entry is left.\<close>

lemma in_mem_iterator_skips_after_trim:
  "let st = snd (in_mem_trim_before_offset 1 \<lparr>imw_first_offset = None, imw_entries = [[1], [2]]\<rparr>)
   in imw_entries st = [[2]] \<and> fst (in_mem_iterator_next codec st in_mem_wal_iterator) = Ok None"
  by (simp add: in_mem_trim_before_offset_def in_mem_iterator_next_def in_mem_wal_iterator_def first_or_zero_def)

text \<open>The first offset of a log that was never trimmed is not reported, although it has entries.\<close>

lemma in_mem_first_offset_unknown:
  "in_mem_first_offset (snd (in_mem_append_commit codec c in_mem_wal_new)) = Ok None"
  by (simp add: in_mem_first_offset_def in_mem_append_commit_def append_data_currently_in_builder_def in_mem_wal_new_def)

section \<open>Witnesses\<close>

definition ex_codec :: wal_codec where
  "ex_codec = \<lparr>prepare_buf = (\<lambda>_. [1]), commit_buf = (\<lambda>_. [2]), abort_buf = (\<lambda>_. [3]),
     log_entry_data = (\<lambda>le. (case le_entry le of EntryPrepare \<Rightarrow> 0 | EntryCommit \<Rightarrow> 1 | EntryAbort \<Rightarrow> 2)
                       # (case le_bytes le of None \<Rightarrow> [] | Some b \<Rightarrow> b)),
     root_as_log_entry = (\<lambda>b. None)\<rparr>"

definition ex_commit :: commit_request where
  "ex_commit = \<lparr>cq_request_id = None, cq_transaction_id = None, cq_range_id = None, cq_epoch = 4, cq_vid = 0\<rparr>"

lemma in_mem_wal_correct_witness:
  "entry_at (snd (in_mem_append_commit ex_codec ex_commit \<lparr>imw_first_offset = Some 4, imw_entries = [[7]]\<rparr>)) 5 = Some [1, 2]"
  using in_mem_wal_correct [of "\<lparr>imw_first_offset = Some 4, imw_entries = [[7]]\<rparr>" 5 _ ex_codec ex_commit _ 0]
  by (simp add: wal_in_range_def first_or_zero_def in_mem_next_offset_def ex_codec_def)

definition ex_wal_table :: wal_table where
  "ex_wal_table = [(1, METADATA_OFFSET) \<mapsto>
     \<lparr>wr_first_offset = None, wr_next_offset = Some 3, wr_write_id = None, wr_content = None\<rparr>]"

definition ex_cassandra_wal :: "i64 \<Rightarrow> cassandra_wal" where
  "ex_cassandra_wal next = \<lparr>cw_wal_id = 1, cw_state = Synced \<lparr>ls_first_offset = None, ls_next_offset = next\<rparr>\<rparr>"

lemma cassandra_append_exclusive_witness:
  "fst (cassandra_append_entry ex_codec (reliable wal_sem) 8 EntryCommit [2] (ex_cassandra_wal 3) ex_wal_table) = Ok () \<and>
   fst (cassandra_append_entry ex_codec (reliable wal_sem) 8 EntryCommit [2] (ex_cassandra_wal 2) ex_wal_table) \<noteq> Ok ()"
proof
  show "fst (cassandra_append_entry ex_codec (reliable wal_sem) 8 EntryCommit [2] (ex_cassandra_wal 3) ex_wal_table) = Ok ()"
    by (simp add: cassandra_append_entry_def ex_cassandra_wal_def ex_wal_table_def reliable_def METADATA_OFFSET_def)
  have "wal_next 1 ex_wal_table \<noteq> Some 2" by (simp add: wal_next_def ex_wal_table_def)
  then show "fst (cassandra_append_entry ex_codec (reliable wal_sem) 8 EntryCommit [2] (ex_cassandra_wal 2) ex_wal_table) \<noteq> Ok ()"
    using cassandra_append_exclusive [OF executes_reliable, of "ex_cassandra_wal 2"
        "\<lparr>ls_first_offset = None, ls_next_offset = 2\<rparr>" ex_wal_table 8 ex_codec EntryCommit "[2]"]
    by (cases "cassandra_append_entry ex_codec (reliable wal_sem) 8 EntryCommit [2] (ex_cassandra_wal 2) ex_wal_table")
      (simp add: ex_cassandra_wal_def ex_wal_table_def METADATA_OFFSET_def)
qed

end
