(* ===== verification/Range_Manager.thy ===== *)
theory Range_Manager
  imports Lock_Table Prefetching_Buffer RS_Storage Wal
begin

text \<open>
  The manager of a range (rangeserver/src/range\_manager/impl.rs) over a storage, a log and an
  epoch supplier given by their operations. A call that waits for the range lock stops
  with \<open>Blocked\<close> and is finished by its \<open>_locked\<close> part when its channel is signalled;
  it holds the read guard of the state meanwhile, so the range stays loaded. Loading and
  lease renewal, which do not hold the guard, are split where they give it up. A flatbuffer
  table is identified with the buffer it is a view of.
\<close>

section \<open>Definitions\<close>

subsection \<open>State\<close>

record loaded_state =
  ld_range_info :: range_info
  ld_highest_known_epoch :: u64
  ld_lock_table :: lock_state
  ld_pending_prepare_records :: "uuid \<rightharpoonup> prepare_request"

datatype range_state = RangeNotLoaded | RangeLoading | RangeLoaded loaded_state | RangeUnloaded

text \<open>The storage and the buffer are shared with the other ranges of the server. The last field counts
  the receivers of the broadcast channel that the loading state carries.\<close>

record ('s, 'w) range_manager =
  rm_range_id :: full_range_id
  rm_storage :: 's
  rm_wal :: 'w
  rm_state :: range_state
  rm_buffer :: pb_state
  rm_load_receivers :: nat

record get_result =
  gr_val :: "bytes option"
  gr_leader_sequence_number :: i64

record prepare_result =
  pr_highest_known_epoch :: u64
  pr_epoch_lease :: "u64 \<times> u64"

datatype 'a progress = Done 'a | Blocked chan

text \<open>The results of the epoch supplier during a call.\<close>

record epoch_supplier =
  es_read_epoch :: "(epoch_supplier_error, u64) outcome"
  es_wait_until_epoch :: "u64 \<Rightarrow> (epoch_supplier_error, unit) outcome"

definition range_manager_new :: "full_range_id \<Rightarrow> 's \<Rightarrow> 'w \<Rightarrow> pb_state \<Rightarrow> ('s, 'w) range_manager" where
  "range_manager_new range_id storage wal buffer =
     \<lparr>rm_range_id = range_id, rm_storage = storage, rm_wal = wal, rm_state = RangeNotLoaded,
      rm_buffer = buffer, rm_load_receivers = 0\<rparr>"

subsection \<open>The epoch supplier\<close>

text \<open>The loop over the epochs read from the publishers, each with the time since the start of the call;
  \<^term>\<open>None\<close> while it has not returned.\<close>

fun wait_until_epoch ::
  "u64 \<Rightarrow> int \<Rightarrow> ((epoch_supplier_error, u64) outcome \<times> int) list \<Rightarrow> (epoch_supplier_error, unit) outcome option" where
  "wait_until_epoch target_epoch timeout [] = None"
| "wait_until_epoch target_epoch timeout ((current, elapsed) # reads) =
     (case current of
        Ok current_epoch \<Rightarrow>
          (if current_epoch \<ge> target_epoch then Some (Ok ())
           else if elapsed > timeout then Some (Err EsTimeout)
           else wait_until_epoch target_epoch timeout reads)
      | Err e \<Rightarrow> Some (Err e)
      | Panic \<Rightarrow> Some Panic)"

definition maybe_update_epoch :: "u64 \<Rightarrow> u64 \<Rightarrow> u64" where
  "maybe_update_epoch new_epoch v = max v new_epoch"

subsection \<open>Loading\<close>

datatype load_progress = LoadReturn "(rs_error, unit) outcome" | LoadSubscribed | LoadStarted

definition load_begin :: "('s, 'w) range_manager \<Rightarrow> load_progress \<times> ('s, 'w) range_manager" where
  "load_begin rm =
     (case rm_state rm of
        RangeLoaded _ \<Rightarrow> (LoadReturn (Ok ()), rm)
      | RangeLoading \<Rightarrow> (LoadSubscribed, rm\<lparr>rm_load_receivers := rm_load_receivers rm + 1\<rparr>)
      | RangeNotLoaded \<Rightarrow> (LoadStarted, rm\<lparr>rm_state := RangeLoading, rm_load_receivers := 0\<rparr>)
      | RangeUnloaded \<Rightarrow> (LoadReturn (Err RangeIsNotLoaded), rm))"

text \<open>Durations are in nanoseconds; a division by zero is an unwrapped \<^term>\<open>None\<close>.\<close>

definition num_epochs_per_lease :: "nat \<Rightarrow> u64 option" where
  "num_epochs_per_lease epoch_duration =
     (if epoch_duration = 0 then None
      else Some (max 1 (of_nat (2000000000 div epoch_duration))))"

definition initial_lease :: "u64 \<Rightarrow> u64 \<Rightarrow> u64 \<times> u64 \<Rightarrow> u64 \<times> u64" where
  "initial_lease n highest_known_epoch stored =
     (let lower = max highest_known_epoch (snd stored + 1) in (lower, lower + n))"

definition loaded_state_new :: "range_info \<Rightarrow> u64 \<Rightarrow> loaded_state" where
  "loaded_state_new range_info highest_known_epoch =
     \<lparr>ld_range_info = range_info, ld_highest_known_epoch = highest_known_epoch,
      ld_lock_table = lock_table_new, ld_pending_prepare_records = Map.empty\<rparr>"

definition load_inner ::
  "'s storage_ops \<Rightarrow> 'w wal_ops \<Rightarrow> epoch_supplier \<Rightarrow> nat \<Rightarrow> ('s, 'w) range_manager
     \<Rightarrow> (rs_error, loaded_state) outcome \<times> ('s, 'w) range_manager" where
  "load_inner ops wops es epoch_duration rm =
     (case num_epochs_per_lease epoch_duration of
        None \<Rightarrow> (Panic, rm)
      | Some n \<Rightarrow>
     (case es_read_epoch es of
        Err e \<Rightarrow> (Err (from_epoch_supplier_error e), rm)
      | Panic \<Rightarrow> (Panic, rm)
      | Ok epoch \<Rightarrow>
     (case so_take_ownership_and_load_range ops (rm_range_id rm) (rm_storage rm) of
        (Err e, s1) \<Rightarrow> (Err (from_storage_error e), rm\<lparr>rm_storage := s1\<rparr>)
      | (Panic, s1) \<Rightarrow> (Panic, rm\<lparr>rm_storage := s1\<rparr>)
      | (Ok range_info, s1) \<Rightarrow>
     (case es_wait_until_epoch es (epoch + 1) of
        Err e \<Rightarrow> (Err (from_epoch_supplier_error e), rm\<lparr>rm_storage := s1\<rparr>)
      | Panic \<Rightarrow> (Panic, rm\<lparr>rm_storage := s1\<rparr>)
      | Ok _ \<Rightarrow>
     (let new_lease = initial_lease n (epoch + 1) (ri_epoch_lease range_info)
      in case so_renew_epoch_lease ops (rm_range_id rm) new_lease (ri_leader_sequence_number range_info) s1 of
        (Err e, s2) \<Rightarrow> (Err (from_storage_error e), rm\<lparr>rm_storage := s2\<rparr>)
      | (Panic, s2) \<Rightarrow> (Panic, rm\<lparr>rm_storage := s2\<rparr>)
      | (Ok _, s2) \<Rightarrow>
     (case wo_sync wops (rm_wal rm) of
        (Err e, w) \<Rightarrow> (Err (from_wal_error e), rm\<lparr>rm_storage := s2, rm_wal := w\<rparr>)
      | (Panic, w) \<Rightarrow> (Panic, rm\<lparr>rm_storage := s2, rm_wal := w\<rparr>)
      | (Ok _, w) \<Rightarrow>
          (Ok (loaded_state_new (range_info\<lparr>ri_epoch_lease := new_lease\<rparr>) (epoch + 1)),
           rm\<lparr>rm_storage := s2, rm_wal := w\<rparr>)))))))"

text \<open>The end of \<^verbatim>\<open>load\<close>: a failure is broadcast with \<^verbatim>\<open>unwrap\<close>, which panics without receivers.\<close>

definition load_finish ::
  "(rs_error, loaded_state) outcome \<Rightarrow> ('s, 'w) range_manager
     \<Rightarrow> (rs_error, unit) outcome \<times> ('s, 'w) range_manager" where
  "load_finish load_result rm =
     (case load_result of
        Err e \<Rightarrow> (if rm_load_receivers rm = 0 then Panic else Err e, rm\<lparr>rm_state := RangeUnloaded\<rparr>)
      | Ok ld \<Rightarrow> (Ok (), rm\<lparr>rm_state := RangeLoaded ld\<rparr>)
      | Panic \<Rightarrow> (Panic, rm))"

definition unload :: "('s, 'w) range_manager \<Rightarrow> ('s, 'w) range_manager" where
  "unload rm = rm\<lparr>rm_state := RangeUnloaded\<rparr>"

definition is_unloaded :: "('s, 'w) range_manager \<Rightarrow> bool" where
  "is_unloaded rm = (case rm_state rm of RangeUnloaded \<Rightarrow> True | _ \<Rightarrow> False)"

subsection \<open>Lease renewal\<close>

text \<open>An iteration of the renewal task reads the state, decides on the new lease, renews it in the storage and
  then updates the state.\<close>

definition renewed_lease :: "u64 \<Rightarrow> u64 \<Rightarrow> u64 \<times> u64 \<Rightarrow> (u64 \<times> u64) option" where
  "renewed_lease n epoch old_lease =
     (let num_epochs_left = (if epoch \<le> snd old_lease then snd old_lease - epoch else 0)
      in if num_epochs_left > 2 * n then None
         else (let lower = max (epoch + 1) (snd old_lease + 1);
                   upper = lower + n
               in Some (if lower - snd old_lease = 1 then (fst old_lease, upper) else (lower, upper))))"

datatype renew_plan = RenewSleep | RenewLease "u64 \<times> u64" "u64 \<times> u64" u64

definition renew_task_plan :: "u64 \<Rightarrow> u64 \<Rightarrow> ('s, 'w) range_manager \<Rightarrow> renew_plan" where
  "renew_task_plan n epoch rm =
     (case rm_state rm of
        RangeLoaded ld \<Rightarrow>
          (case renewed_lease n epoch (ri_epoch_lease (ld_range_info ld)) of
             None \<Rightarrow> RenewSleep
           | Some new_lease \<Rightarrow>
               RenewLease (ri_epoch_lease (ld_range_info ld)) new_lease (ri_leader_sequence_number (ld_range_info ld)))
      | _ \<Rightarrow> RenewSleep)"

definition renew_task_finish ::
  "u64 \<times> u64 \<Rightarrow> u64 \<times> u64 \<Rightarrow> u64 \<Rightarrow> ('s, 'w) range_manager \<Rightarrow> (rs_error, unit) outcome \<times> ('s, 'w) range_manager" where
  "renew_task_finish old_lease new_lease highest_known_epoch rm =
     (case rm_state rm of
        RangeLoaded ld \<Rightarrow>
          (if ri_epoch_lease (ld_range_info ld) \<noteq> old_lease then (Panic, rm)
           else (Ok (), rm\<lparr>rm_state := RangeLoaded (ld\<lparr>
                   ld_range_info := (ld_range_info ld)\<lparr>ri_epoch_lease := new_lease\<rparr>,
                   ld_highest_known_epoch := maybe_update_epoch highest_known_epoch (ld_highest_known_epoch ld)\<rparr>)\<rparr>))
      | _ \<Rightarrow> (Err RangeIsNotLoaded, rm))"

definition renew_epoch_lease_iteration ::
  "'s storage_ops \<Rightarrow> u64 \<Rightarrow> (epoch_supplier_error, u64) outcome \<Rightarrow> ('s, 'w) range_manager
     \<Rightarrow> (rs_error, unit) outcome \<times> ('s, 'w) range_manager" where
  "renew_epoch_lease_iteration ops n read rm =
     (case read of
        Err e \<Rightarrow> (Err (from_epoch_supplier_error e), rm)
      | Panic \<Rightarrow> (Panic, rm)
      | Ok epoch \<Rightarrow>
          (case renew_task_plan n epoch rm of
             RenewSleep \<Rightarrow> (Ok (), rm)
           | RenewLease old_lease new_lease leader_sequence_number \<Rightarrow>
               (case so_renew_epoch_lease ops (rm_range_id rm) new_lease leader_sequence_number (rm_storage rm) of
                  (Err e, s) \<Rightarrow> (Err (from_storage_error e), rm\<lparr>rm_storage := s\<rparr>)
                | (Panic, s) \<Rightarrow> (Panic, rm\<lparr>rm_storage := s\<rparr>)
                | (Ok _, s) \<Rightarrow> renew_task_finish old_lease new_lease (epoch + 1) (rm\<lparr>rm_storage := s\<rparr>))))"

subsection \<open>Prefetching\<close>

datatype prefetch_step = PrefetchReturn "(rs_error, unit) outcome" | PrefetchWait u64 | PrefetchFetch u64

fun prefetch_keystate :: "key_state \<Rightarrow> prefetch_step" where
  "prefetch_keystate Fetched = PrefetchReturn (Ok ())"
| "prefetch_keystate (Loading _) = PrefetchReturn (Err PrefetchError)"
| "prefetch_keystate (Requested n) = PrefetchFetch n"

definition prefetch_begin :: "uuid \<Rightarrow> bytes \<Rightarrow> ('s, 'w) range_manager \<Rightarrow> prefetch_step \<times> ('s, 'w) range_manager" where
  "prefetch_begin t key rm =
     (let (r, buf) = process_prefetch_request_start t key (rm_buffer rm)
      in (case r of
            Ok (Ready ks) \<Rightarrow> prefetch_keystate ks
          | Ok (AwaitWatcher n) \<Rightarrow> PrefetchWait n
          | _ \<Rightarrow> PrefetchReturn Panic, rm\<lparr>rm_buffer := buf\<rparr>))"

definition prefetch_retry :: "bytes \<Rightarrow> u64 \<Rightarrow> ('s, 'w) range_manager \<Rightarrow> prefetch_step \<times> ('s, 'w) range_manager" where
  "prefetch_retry key n rm =
     (let (r, buf) = process_prefetch_request_retry key n (rm_buffer rm)
      in (case r of Ok ks \<Rightarrow> prefetch_keystate ks | _ \<Rightarrow> PrefetchReturn Panic, rm\<lparr>rm_buffer := buf\<rparr>))"

definition prefetch_get ::
  "'s storage_ops \<Rightarrow> bytes \<Rightarrow> ('s, 'w) range_manager \<Rightarrow> (rs_error, bytes option) outcome \<times> ('s, 'w) range_manager" where
  "prefetch_get ops key rm =
     (let (r, s) = so_get ops (rm_range_id rm) key (rm_storage rm)
      in (map_err from_storage_error r, rm\<lparr>rm_storage := s\<rparr>))"

definition prefetch_finish ::
  "bytes \<Rightarrow> u64 \<Rightarrow> (rs_error, bytes option) outcome \<Rightarrow> ('s, 'w) range_manager
     \<Rightarrow> (rs_error, unit) outcome \<times> ('s, 'w) range_manager" where
  "prefetch_finish key n fetched rm =
     (case fetched of
        Ok val \<Rightarrow> (Ok (), rm\<lparr>rm_buffer := fetch_complete key val n (rm_buffer rm)\<rparr>)
      | Err _ \<Rightarrow> (Err PrefetchError, rm\<lparr>rm_buffer := fetch_failed key n (rm_buffer rm)\<rparr>)
      | Panic \<Rightarrow> (Panic, rm))"

subsection \<open>Reads\<close>

definition acquire_range_lock ::
  "utc \<Rightarrow> utc \<Rightarrow> chan \<Rightarrow> transaction_info \<Rightarrow> loaded_state
     \<Rightarrow> (rs_error, unit progress) outcome \<times> loaded_state" where
  "acquire_range_lock t0 t1 ch tx ld =
     (case acquire t0 t1 ch tx (ld_lock_table ld) of
        (Ok receiver, lt, sent) \<Rightarrow>
          (Ok (if receiver \<in> set sent then Done () else Blocked receiver), ld\<lparr>ld_lock_table := lt\<rparr>)
      | (Err e, lt, sent) \<Rightarrow> (Err e, ld\<lparr>ld_lock_table := lt\<rparr>)
      | (Panic, lt, sent) \<Rightarrow> (Panic, ld\<lparr>ld_lock_table := lt\<rparr>))"

definition get_locked ::
  "'s storage_ops \<Rightarrow> bytes \<Rightarrow> loaded_state \<Rightarrow> ('s, 'w) range_manager
     \<Rightarrow> (rs_error, get_result) outcome \<times> ('s, 'w) range_manager" where
  "get_locked ops key ld rm =
     (let result = (\<lambda>v. \<lparr>gr_val = v, gr_leader_sequence_number = ri_leader_sequence_number (ld_range_info ld)\<rparr>)
      in case get_from_buffer key (rm_buffer rm) of
           Err _ \<Rightarrow> (Err PrefetchError, rm)
         | Panic \<Rightarrow> (Panic, rm)
         | Ok (Some val) \<Rightarrow> (Ok (result (Some val)), rm)
         | Ok None \<Rightarrow>
             (case so_get ops (rm_range_id rm) key (rm_storage rm) of
                (Ok val, s) \<Rightarrow> (Ok (result val), rm\<lparr>rm_storage := s\<rparr>)
              | (Err e, s) \<Rightarrow> (Err (from_storage_error e), rm\<lparr>rm_storage := s\<rparr>)
              | (Panic, s) \<Rightarrow> (Panic, rm\<lparr>rm_storage := s\<rparr>)))"

text \<open>\<open>progress_of f r\<close>: go on with \<open>f\<close> when the lock is held, stop when it has to be waited for.\<close>

definition progress_of ::
  "((rs_error, 'a) outcome \<times> 'm) \<Rightarrow> 'm \<Rightarrow> (rs_error, unit progress) outcome \<Rightarrow> (rs_error, 'a progress) outcome \<times> 'm" where
  "progress_of rest m r =
     (case r of
        Ok (Done _) \<Rightarrow> (case rest of (Ok a, m') \<Rightarrow> (Ok (Done a), m') | (Err e, m') \<Rightarrow> (Err e, m') | (Panic, m') \<Rightarrow> (Panic, m'))
      | Ok (Blocked ch) \<Rightarrow> (Ok (Blocked ch), m)
      | Err e \<Rightarrow> (Err e, m)
      | Panic \<Rightarrow> (Panic, m))"

definition range_get ::
  "'s storage_ops \<Rightarrow> utc \<Rightarrow> utc \<Rightarrow> chan \<Rightarrow> transaction_info \<Rightarrow> bytes \<Rightarrow> ('s, 'w) range_manager
     \<Rightarrow> (rs_error, get_result progress) outcome \<times> ('s, 'w) range_manager" where
  "range_get ops t0 t1 ch tx key rm =
     (case rm_state rm of
        RangeLoaded ld \<Rightarrow>
          (if \<not> key_range_includes (ri_key_range (ld_range_info ld)) key then (Err KeyIsOutOfRange, rm)
           else (let (r, ld') = acquire_range_lock t0 t1 ch tx ld;
                     rm' = rm\<lparr>rm_state := RangeLoaded ld'\<rparr>
                 in progress_of (get_locked ops key ld' rm') rm' r))
      | _ \<Rightarrow> (Err RangeIsNotLoaded, rm))"

subsection \<open>Two-phase commit\<close>

text \<open>\<^verbatim>\<open>unwrap\<close> on absent fields of a record or key panics.\<close>

definition put_key :: "fb_record \<Rightarrow> bytes option" where
  "put_key put = (case fbr_key put of None \<Rightarrow> None | Some k \<Rightarrow> k)"

definition table_list :: "'a list option \<Rightarrow> 'a list" where
  "table_list xs = (case xs of None \<Rightarrow> [] | Some ys \<Rightarrow> ys)"

fun check_keys :: "key_range \<Rightarrow> bytes option list \<Rightarrow> (rs_error, unit) outcome" where
  "check_keys kr [] = Ok ()"
| "check_keys kr (None # ks) = Panic"
| "check_keys kr (Some k # ks) = (if key_range_includes kr k then check_keys kr ks else Err KeyIsOutOfRange)"

definition prepare_locked ::
  "'w wal_ops \<Rightarrow> uuid \<Rightarrow> prepare_request \<Rightarrow> loaded_state \<Rightarrow> ('s, 'w) range_manager
     \<Rightarrow> (rs_error, prepare_result) outcome \<times> ('s, 'w) range_manager" where
  "prepare_locked wops t prepare ld rm =
     (case wo_append_prepare wops prepare (rm_wal rm) of
        (Err e, w) \<Rightarrow> (Err (from_wal_error e), rm\<lparr>rm_wal := w\<rparr>)
      | (Panic, w) \<Rightarrow> (Panic, rm\<lparr>rm_wal := w\<rparr>)
      | (Ok _, w) \<Rightarrow>
          (Ok \<lparr>pr_highest_known_epoch = ld_highest_known_epoch ld, pr_epoch_lease = ri_epoch_lease (ld_range_info ld)\<rparr>,
           rm\<lparr>rm_wal := w,
              rm_state := RangeLoaded (ld\<lparr>ld_pending_prepare_records :=
                (ld_pending_prepare_records ld)(t \<mapsto> prepare)\<rparr>)\<rparr>))"

definition range_prepare ::
  "'w wal_ops \<Rightarrow> utc \<Rightarrow> utc \<Rightarrow> chan \<Rightarrow> transaction_info \<Rightarrow> prepare_request \<Rightarrow> ('s, 'w) range_manager
     \<Rightarrow> (rs_error, prepare_result progress) outcome \<times> ('s, 'w) range_manager" where
  "range_prepare wops t0 t1 ch tx prepare rm =
     (case rm_state rm of
        RangeLoaded ld \<Rightarrow>
          (case and_then (check_keys (ri_key_range (ld_range_info ld)) (map put_key (table_list (pq_puts prepare))))
                  (\<lambda>_. check_keys (ri_key_range (ld_range_info ld)) (table_list (pq_deletes prepare))) of
             Err e \<Rightarrow> (Err e, rm)
           | Panic \<Rightarrow> (Panic, rm)
           | Ok _ \<Rightarrow>
               (if pq_has_reads prepare \<and> \<not> is_currently_holding (tx_id tx) (ld_lock_table ld)
                then (Err (TransactionAborted TransactionLockLost), rm)
                else (let (r, ld') = acquire_range_lock t0 t1 ch tx ld;
                          rm' = rm\<lparr>rm_state := RangeLoaded ld'\<rparr>
                      in progress_of (prepare_locked wops (tx_id tx) prepare ld' rm') rm' r)))
      | _ \<Rightarrow> (Err RangeIsNotLoaded, rm))"

text \<open>The end of a transaction: release the lock, then clear its prefetch requests. The result lists
  the channels that are signalled.\<close>

definition finish_transaction ::
  "(chan \<Rightarrow> bool) \<Rightarrow> utc \<Rightarrow> uuid \<Rightarrow> loaded_state \<Rightarrow> ('s, 'w) range_manager
     \<Rightarrow> (rs_error, unit) outcome \<times> ('s, 'w) range_manager \<times> chan list" where
  "finish_transaction alive now t ld rm =
     (let (r, lt, sent) = release alive now (ld_lock_table ld);
          rm' = rm\<lparr>rm_state := RangeLoaded (ld\<lparr>ld_lock_table := lt\<rparr>)\<rparr>
      in case r of
           Ok _ \<Rightarrow> (Ok (), rm'\<lparr>rm_buffer := process_transaction_complete t (rm_buffer rm')\<rparr>, sent)
         | Err e \<Rightarrow> (Err e, rm', sent)
         | Panic \<Rightarrow> (Panic, rm', sent))"

definition range_abort ::
  "'w wal_ops \<Rightarrow> (chan \<Rightarrow> bool) \<Rightarrow> utc \<Rightarrow> uuid \<Rightarrow> abort_request \<Rightarrow> ('s, 'w) range_manager
     \<Rightarrow> (rs_error, unit) outcome \<times> ('s, 'w) range_manager \<times> chan list" where
  "range_abort wops alive now t abort rm =
     (case rm_state rm of
        RangeLoaded ld \<Rightarrow>
          (if \<not> is_currently_holding t (ld_lock_table ld) then (Ok (), rm, [])
           else case wo_append_abort wops abort (rm_wal rm) of
                  (Err e, w) \<Rightarrow> (Err (from_wal_error e), rm\<lparr>rm_wal := w\<rparr>, [])
                | (Panic, w) \<Rightarrow> (Panic, rm\<lparr>rm_wal := w\<rparr>, [])
                | (Ok _, w) \<Rightarrow> finish_transaction alive now t ld (rm\<lparr>rm_wal := w\<rparr>))
      | _ \<Rightarrow> (Err RangeIsNotLoaded, rm, []))"

text \<open>The two loops of \<^verbatim>\<open>commit\<close>, over the storage and the buffer.\<close>

fun apply_puts ::
  "'s storage_ops \<Rightarrow> full_range_id \<Rightarrow> key_version \<Rightarrow> fb_record list \<Rightarrow> 's \<times> pb_state
     \<Rightarrow> (rs_error, unit) outcome \<times> 's \<times> pb_state" where
  "apply_puts ops r ver [] sb = (Ok (), sb)"
| "apply_puts ops r ver (put # puts) (s, buf) =
     (case (put_key put, fbr_value put) of
        (Some key, Some val) \<Rightarrow>
          (case so_upsert ops r key val ver s of
             (Ok _, s') \<Rightarrow> apply_puts ops r ver puts (s', pb_upsert key val buf)
           | (Err e, s') \<Rightarrow> (Err (from_storage_error e), s', buf)
           | (Panic, s') \<Rightarrow> (Panic, s', buf))
      | _ \<Rightarrow> (Panic, s, buf))"

fun apply_deletes ::
  "'s storage_ops \<Rightarrow> full_range_id \<Rightarrow> key_version \<Rightarrow> fb_key list \<Rightarrow> 's \<times> pb_state
     \<Rightarrow> (rs_error, unit) outcome \<times> 's \<times> pb_state" where
  "apply_deletes ops r ver [] sb = (Ok (), sb)"
| "apply_deletes ops r ver (None # dels) (s, buf) = (Panic, s, buf)"
| "apply_deletes ops r ver (Some key # dels) (s, buf) =
     (case so_delete ops r key ver s of
        (Ok _, s') \<Rightarrow> apply_deletes ops r ver dels (s', pb_delete key buf)
      | (Err e, s') \<Rightarrow> (Err (from_storage_error e), s', buf)
      | (Panic, s') \<Rightarrow> (Panic, s', buf))"

definition apply_writes ::
  "'s storage_ops \<Rightarrow> full_range_id \<Rightarrow> key_version \<Rightarrow> prepare_request \<Rightarrow> 's \<times> pb_state
     \<Rightarrow> (rs_error, unit) outcome \<times> 's \<times> pb_state" where
  "apply_writes ops r ver p sb =
     (case apply_puts ops r ver (table_list (pq_puts p)) sb of
        (Ok _, sb') \<Rightarrow> apply_deletes ops r ver (table_list (pq_deletes p)) sb'
      | (Err e, sb') \<Rightarrow> (Err e, sb')
      | (Panic, sb') \<Rightarrow> (Panic, sb'))"

definition range_commit ::
  "'s storage_ops \<Rightarrow> 'w wal_ops \<Rightarrow> (chan \<Rightarrow> bool) \<Rightarrow> utc \<Rightarrow> uuid \<Rightarrow> commit_request \<Rightarrow> ('s, 'w) range_manager
     \<Rightarrow> (rs_error, unit) outcome \<times> ('s, 'w) range_manager \<times> chan list" where
  "range_commit ops wops alive now t commit rm =
     (case rm_state rm of
        RangeLoaded ld \<Rightarrow>
          (if \<not> is_currently_holding t (ld_lock_table ld) then (Ok (), rm, [])
           else
             (let ld1 = ld\<lparr>ld_highest_known_epoch := maybe_update_epoch (cq_epoch commit) (ld_highest_known_epoch ld)\<rparr>;
                  rm1 = rm\<lparr>rm_state := RangeLoaded ld1\<rparr>
              in case wo_append_commit wops commit (rm_wal rm1) of
                   (Err e, w) \<Rightarrow> (Err (from_wal_error e), rm1\<lparr>rm_wal := w\<rparr>, [])
                 | (Panic, w) \<Rightarrow> (Panic, rm1\<lparr>rm_wal := w\<rparr>, [])
                 | (Ok _, w) \<Rightarrow>
                     (let ld2 = ld1\<lparr>ld_pending_prepare_records := (ld_pending_prepare_records ld1)(t := None)\<rparr>;
                          rm2 = rm1\<lparr>rm_wal := w, rm_state := RangeLoaded ld2\<rparr>
                      in case ld_pending_prepare_records ld1 t of
                           None \<Rightarrow> (Panic, rm2, [])
                         | Some prepare_record \<Rightarrow>
                             (let version = \<lparr>kv_epoch = cq_epoch commit, kv_version_counter = cq_vid commit\<rparr>;
                                  (r, s, buf) = apply_writes ops (rm_range_id rm2) version prepare_record
                                                  (rm_storage rm2, rm_buffer rm2);
                                  rm3 = rm2\<lparr>rm_storage := s, rm_buffer := buf\<rparr>
                              in case r of
                                   Ok _ \<Rightarrow> finish_transaction alive now t ld2 rm3
                                 | Err e \<Rightarrow> (Err e, rm3, [])
                                 | Panic \<Rightarrow> (Panic, rm3, [])))))
      | _ \<Rightarrow> (Err RangeIsNotLoaded, rm, []))"

subsection \<open>Abstract view\<close>

text \<open>The writes of a prepared transaction as one partial map, for a request whose records are complete.\<close>

definition put_pairs :: "fb_record list \<Rightarrow> (bytes \<times> bytes) list" where
  "put_pairs puts = map (\<lambda>p. (the (put_key p), the (fbr_value p))) puts"

definition write_set :: "prepare_request \<Rightarrow> bytes \<rightharpoonup> bytes option" where
  "write_set p k =
     (if Some k \<in> set (table_list (pq_deletes p)) then Some None
      else map_option Some (map_of (put_pairs (table_list (pq_puts p))) k))"

definition written_keys :: "prepare_request \<Rightarrow> bytes option list" where
  "written_keys p = map put_key (table_list (pq_puts p)) @ table_list (pq_deletes p)"

definition complete_request :: "prepare_request \<Rightarrow> bool" where
  "complete_request p \<longleftrightarrow> None \<notin> set (written_keys p) \<and> (\<forall>r \<in> set (table_list (pq_puts p)). fbr_value r \<noteq> None)"

definition same_but_lock :: "loaded_state \<Rightarrow> loaded_state \<Rightarrow> bool" where
  "same_but_lock ld ld' \<longleftrightarrow> ld_range_info ld' = ld_range_info ld \<and>
     ld_highest_known_epoch ld' = ld_highest_known_epoch ld \<and>
     ld_pending_prepare_records ld' = ld_pending_prepare_records ld"

definition override_content ::
  "prepare_request \<Rightarrow> uuid \<Rightarrow> (uuid \<Rightarrow> bytes \<Rightarrow> bytes option) \<Rightarrow> uuid \<Rightarrow> bytes \<Rightarrow> bytes option" where
  "override_content p r c i k =
     (if i = r then (case write_set p k of Some w \<Rightarrow> w | None \<Rightarrow> c i k) else c i k)"

section \<open>Lemmas\<close>

subsection \<open>The loops of a commit\<close>

lemma map_of_put_pairs: "Some k \<in> set (map put_key puts) \<Longrightarrow> \<exists>v. map_of (put_pairs puts) k = Some v"
  by (induction puts) (auto simp: put_pairs_def eq_commute [of "Some k"])

context record_store
begin

lemma apply_puts_frame:
  assumes "apply_puts ops r ver puts (s, buf) = (res, s', buf')"
    and "i \<noteq> frid_range_id r \<or> Some l \<notin> set (map put_key puts)"
  shows "content s' i l = content s i l \<and> fresh e i l s' = fresh e i l s"
  using assms
proof (induction puts arbitrary: s buf)
  case (Cons p puts)
  show ?case
  proof (cases "put_key p = None \<or> fbr_value p = None")
    case True
    then show ?thesis using Cons.prems(1) by (auto split: option.splits)
  next
    case False
    then obtain k v where kv: "put_key p = Some k" "fbr_value p = Some v" by auto
    obtain ru s1 where u: "so_upsert ops r k v ver s = (ru, s1)" by fastforce
    have f: "content s1 i l = content s i l \<and> fresh e i l s1 = fresh e i l s"
      using upsert_frame [OF u, of i l e] Cons.prems(2) kv(1) by auto
    show ?thesis
      using Cons.prems Cons.IH [of s1 "pb_upsert k v buf"] f by (auto simp: kv u split: outcome.splits)
  qed
qed simp

lemma apply_deletes_frame:
  assumes "apply_deletes ops r ver dels (s, buf) = (res, s', buf')"
    and "i \<noteq> frid_range_id r \<or> Some l \<notin> set dels"
  shows "content s' i l = content s i l \<and> fresh e i l s' = fresh e i l s"
  using assms
proof (induction dels arbitrary: s buf)
  case (Cons d dels)
  show ?case
  proof (cases d)
    case None
    then show ?thesis using Cons.prems(1) by auto
  next
    case (Some k)
    obtain ru s1 where u: "so_delete ops r k ver s = (ru, s1)" by fastforce
    have f: "content s1 i l = content s i l \<and> fresh e i l s1 = fresh e i l s"
      using delete_frame [OF u, of i l e] Cons.prems(2) Some by auto
    show ?thesis
      using Cons.prems Cons.IH [of s1 "pb_delete k buf"] f by (auto simp: Some u split: outcome.splits)
  qed
qed simp

lemma apply_puts_content:
  assumes "apply_puts ops r ver puts (s, buf) = (Ok u, s', buf')" "distinct (map put_key puts)"
    and "\<And>k. Some k \<in> set (map put_key puts) \<Longrightarrow> fresh (kv_epoch ver) (frid_range_id r) k s"
  shows "None \<notin> set (map put_key puts) \<and> (\<forall>p \<in> set puts. fbr_value p \<noteq> None) \<and>
    (\<forall>k v. map_of (put_pairs puts) k = Some v \<longrightarrow> content s' (frid_range_id r) k = Some v)"
  using assms
proof (induction puts arbitrary: s buf)
  case (Cons p puts)
  obtain k v s1 where kv: "put_key p = Some k" "fbr_value p = Some v" "so_upsert ops r k v ver s = (Ok (), s1)"
      and rest: "apply_puts ops r ver puts (s1, pb_upsert k v buf) = (Ok u, s', buf')"
    using Cons.prems(1) by (auto split: option.splits outcome.splits prod.splits)
  have notin: "Some k \<notin> set (map put_key puts)" using Cons.prems(2) kv(1) by (metis distinct.simps(2) list.simps(9))
  have "fresh (kv_epoch ver) (frid_range_id r) l s1" if "Some l \<in> set (map put_key puts)" for l
    using that notin upsert_frame [OF kv(3), of "frid_range_id r" l "kv_epoch ver"] Cons.prems(3) [of l] by force
  note IH = Cons.IH [OF rest _ this]
  have "content s' (frid_range_id r) k = Some v"
    using apply_puts_frame [OF rest, of "frid_range_id r" k] notin
      upsert_value [OF kv(3)] Cons.prems(3) [of k] kv(1) by auto
  then show ?case
    using IH Cons.prems(2) kv(1,2) by (auto simp: put_pairs_def)
qed (simp add: put_pairs_def)

lemma apply_deletes_content:
  assumes "apply_deletes ops r ver dels (s, buf) = (Ok u, s', buf')" "distinct dels"
    and "\<And>k. Some k \<in> set dels \<Longrightarrow> fresh (kv_epoch ver) (frid_range_id r) k s"
  shows "None \<notin> set dels \<and> (\<forall>k. Some k \<in> set dels \<longrightarrow> content s' (frid_range_id r) k = None)"
  using assms
proof (induction dels arbitrary: s buf)
  case (Cons d dels)
  obtain k s1 where k: "d = Some k" "so_delete ops r k ver s = (Ok (), s1)"
      and rest: "apply_deletes ops r ver dels (s1, pb_delete k buf) = (Ok u, s', buf')"
    using Cons.prems(1) by (cases d) (auto split: outcome.splits prod.splits)
  have "fresh (kv_epoch ver) (frid_range_id r) l s1" if "Some l \<in> set dels" for l
    using that delete_frame [OF k(2), of "frid_range_id r" l "kv_epoch ver"] Cons.prems(2,3) k(1) by auto
  note IH = Cons.IH [OF rest _ this]
  have "content s' (frid_range_id r) k = None"
    using apply_deletes_frame [OF rest, of "frid_range_id r" k] Cons.prems(2) k(1)
      delete_value [OF k(2)] Cons.prems(3) [of k] by auto
  then show ?case using IH Cons.prems(2) k(1) by auto
qed simp

lemma apply_writes_frame:
  assumes "apply_writes ops r ver p (s, buf) = (res, s', buf')"
    and "i \<noteq> frid_range_id r \<or> Some l \<notin> set (written_keys p)"
  shows "content s' i l = content s i l \<and> fresh e i l s' = fresh e i l s"
proof -
  obtain r1 s1 b1 where p: "apply_puts ops r ver (table_list (pq_puts p)) (s, buf) = (r1, s1, b1)"
    by (metis prod.exhaust)
  have 1: "content s1 i l = content s i l \<and> fresh e i l s1 = fresh e i l s"
    using apply_puts_frame [OF p, of i l e] assms(2) by (auto simp: written_keys_def)
  show ?thesis
  proof (cases "is_ok r1")
    case True
    then have d: "apply_deletes ops r ver (table_list (pq_deletes p)) (s1, b1) = (res, s', buf')"
      using assms(1) p by (auto simp: apply_writes_def is_ok_iff)
    show ?thesis using apply_deletes_frame [OF d, of i l e] assms(2) 1 by (auto simp: written_keys_def)
  next
    case False
    then show ?thesis using assms(1) p 1 by (auto simp: apply_writes_def is_ok_iff split: outcome.splits)
  qed
qed

lemma apply_writes_content:
  assumes "apply_writes ops r ver p (s, buf) = (Ok u, s', buf')" "distinct (written_keys p)"
    and "\<And>k. Some k \<in> set (written_keys p) \<Longrightarrow> fresh (kv_epoch ver) (frid_range_id r) k s"
  shows "complete_request p \<and> content s' = override_content p (frid_range_id r) (content s)"
proof -
  let ?puts = "table_list (pq_puts p)" and ?dels = "table_list (pq_deletes p)" and ?i = "frid_range_id r"
  obtain s1 b1 where p: "apply_puts ops r ver ?puts (s, buf) = (Ok (), s1, b1)"
      and d: "apply_deletes ops r ver ?dels (s1, b1) = (Ok u, s', buf')"
    using assms(1) by (auto simp: apply_writes_def split: outcome.splits prod.splits)
  have dist: "distinct (map put_key ?puts)" "distinct ?dels" "set (map put_key ?puts) \<inter> set ?dels = {}"
    using assms(2) by (auto simp: written_keys_def)
  have fr: "fresh (kv_epoch ver) ?i k s1" if "Some k \<in> set ?dels" for k
    using that apply_puts_frame [OF p, of ?i k] assms(3) [of k] dist(3) by (auto simp: written_keys_def)
  have c1: "None \<notin> set (map put_key ?puts) \<and> (\<forall>p \<in> set ?puts. fbr_value p \<noteq> None) \<and>
      (\<forall>k v. map_of (put_pairs ?puts) k = Some v \<longrightarrow> content s1 ?i k = Some v)"
    using assms(3) by (intro apply_puts_content [OF p dist(1)]) (auto simp: written_keys_def)
  have c2: "None \<notin> set ?dels \<and> (\<forall>k. Some k \<in> set ?dels \<longrightarrow> content s' ?i k = None)"
    by (rule apply_deletes_content [OF d dist(2) fr])
  have dom: "Some k \<in> set (map put_key ?puts)" if "map_of (put_pairs ?puts) k = Some v" for k v
    using that c1 by (force simp: put_pairs_def dest: map_of_SomeD)
  have "content s' i k = override_content p ?i (content s) i k" for i k
  proof (cases "i = ?i \<and> Some k \<in> set (written_keys p)")
    case False
    then have "write_set p k = None" if "i = ?i"
      using that dom by (cases "map_of (put_pairs ?puts) k") (auto simp: write_set_def written_keys_def)
    then show ?thesis
      using apply_writes_frame [OF assms(1), of i k] False by (auto simp: override_content_def)
  next
    case True
    show ?thesis
    proof (cases "Some k \<in> set ?dels")
      case True
      then show ?thesis using \<open>i = ?i \<and> _\<close> c2 by (simp add: override_content_def write_set_def)
    next
      case nd: False
      then have "Some k \<in> set (map put_key ?puts)" using True by (auto simp: written_keys_def)
      then obtain v where v: "map_of (put_pairs ?puts) k = Some v" using map_of_put_pairs by blast
      then show ?thesis
        using True nd c1 apply_deletes_frame [OF d, of i k] by (auto simp: override_content_def write_set_def)
    qed
  qed
  then show ?thesis using c1 c2 by (auto simp: complete_request_def written_keys_def fun_eq_iff)
qed

end

subsection \<open>Case analysis of the operations\<close>

lemma finish_transaction_OkE:
  assumes "finish_transaction alive now t ld rm = (Ok u, rm', sent)"
  obtains lt where "release alive now (ld_lock_table ld) = (Ok (), lt, sent)"
    "rm' = rm\<lparr>rm_state := RangeLoaded (ld\<lparr>ld_lock_table := lt\<rparr>),
              rm_buffer := process_transaction_complete t (rm_buffer rm)\<rparr>"
  using assms by (auto simp: finish_transaction_def Let_def split: prod.splits outcome.splits)

lemma finish_transaction_no_Err: "finish_transaction alive now t ld rm \<noteq> (Err e, rm', sent)"
  by (auto simp: finish_transaction_def release_def Let_def split: prod.splits outcome.splits list.splits if_splits)

lemma range_commit_OkE:
  assumes "range_commit ops wops alive now t c rm = (Ok u, rm', sent)"
    and "rm_state rm = RangeLoaded ld" "is_currently_holding t (ld_lock_table ld)"
  obtains w p s buf lt where
    "wo_append_commit wops c (rm_wal rm) = (Ok (), w)" "ld_pending_prepare_records ld t = Some p"
    "apply_writes ops (rm_range_id rm) \<lparr>kv_epoch = cq_epoch c, kv_version_counter = cq_vid c\<rparr> p
       (rm_storage rm, rm_buffer rm) = (Ok (), s, buf)"
    "release alive now (ld_lock_table ld) = (Ok (), lt, sent)"
    "rm' = rm\<lparr>rm_storage := s, rm_wal := w, rm_buffer := process_transaction_complete t buf,
       rm_state := RangeLoaded (ld\<lparr>ld_highest_known_epoch := max (ld_highest_known_epoch ld) (cq_epoch c),
         ld_lock_table := lt, ld_pending_prepare_records := (ld_pending_prepare_records ld)(t := None)\<rparr>)\<rparr>"
  using assms
  by (auto simp: range_commit_def Let_def maybe_update_epoch_def split: outcome.splits prod.splits option.splits
      elim!: finish_transaction_OkE)

lemma range_commit_ErrE:
  assumes "range_commit ops wops alive now t c rm = (Err e, rm', sent)"
    and "rm_state rm = RangeLoaded ld" "is_currently_holding t (ld_lock_table ld)"
  obtains (log) ew w where "wo_append_commit wops c (rm_wal rm) = (Err ew, w)" "sent = []"
    "rm' = rm\<lparr>rm_wal := w,
       rm_state := RangeLoaded (ld\<lparr>ld_highest_known_epoch := max (ld_highest_known_epoch ld) (cq_epoch c)\<rparr>)\<rparr>"
  | (writes) w p s buf where
    "wo_append_commit wops c (rm_wal rm) = (Ok (), w)" "ld_pending_prepare_records ld t = Some p"
    "apply_writes ops (rm_range_id rm) \<lparr>kv_epoch = cq_epoch c, kv_version_counter = cq_vid c\<rparr> p
       (rm_storage rm, rm_buffer rm) = (Err e, s, buf)" "sent = []"
    "rm' = rm\<lparr>rm_storage := s, rm_wal := w, rm_buffer := buf,
       rm_state := RangeLoaded (ld\<lparr>ld_highest_known_epoch := max (ld_highest_known_epoch ld) (cq_epoch c),
         ld_pending_prepare_records := (ld_pending_prepare_records ld)(t := None)\<rparr>)\<rparr>"
  using assms
  by (auto simp: range_commit_def Let_def maybe_update_epoch_def finish_transaction_no_Err
      split: outcome.splits prod.splits option.splits)

lemma check_keys_iff: "check_keys kr ks = Ok () \<longleftrightarrow> (\<forall>k \<in> set ks. k \<noteq> None \<and> key_range_includes kr (the k))"
  by (induction kr ks rule: check_keys.induct) auto

lemma check_keys_append: "check_keys kr (ks @ ls) = and_then (check_keys kr ks) (\<lambda>_. check_keys kr ls)"
  by (induction kr ks rule: check_keys.induct) auto

lemma check_keys_first_bad:
  assumes "bad = filter (\<lambda>k. case k of None \<Rightarrow> True | Some b \<Rightarrow> \<not> key_range_includes kr b) ks"
  shows "check_keys kr ks = (if bad = [] then Ok () else if hd bad = None then Panic else Err KeyIsOutOfRange)"
  unfolding assms by (induction kr ks rule: check_keys.induct) auto

lemma check_keys_Err: "check_keys kr ks = Err e \<Longrightarrow> e = KeyIsOutOfRange"
  by (induction kr ks rule: check_keys.induct) (auto split: if_splits)

lemma and_then_eq_Err: "and_then r f = Err e \<longleftrightarrow> r = Err e \<or> (\<exists>a. r = Ok a \<and> f a = Err e)"
  by (cases r) auto

lemma from_wal_error_not_lost [simp]: "from_wal_error e \<noteq> TransactionAborted x"
  by (cases e) auto

lemma acquire_range_lock_cases:
  assumes "acquire_range_lock t0 t1 ch tx ld = (r, ld')" "lock_inv (ld_lock_table ld)"
  obtains (granted) "r = Ok (Done ())" "is_currently_holding (tx_id tx) (ld_lock_table ld')"
      "lock_inv (ld_lock_table ld')" "ld' = ld\<lparr>ld_lock_table := ld_lock_table ld'\<rparr>" "same_but_lock ld ld'"
      "lock_queue (ld_lock_table ld) = [] \<or> lock_queue (ld_lock_table ld') = lock_queue (ld_lock_table ld)"
    | (queued) "r = Ok (Blocked ch)" "lock_queue (ld_lock_table ld') = lock_queue (ld_lock_table ld) @ [tx_id tx]"
      "lock_inv (ld_lock_table ld')" "ld' = ld\<lparr>ld_lock_table := ld_lock_table ld'\<rparr>" "same_but_lock ld ld'"
      "lock_queue (ld_lock_table ld) \<noteq> []" "\<not> is_currently_holding (tx_id tx) (ld_lock_table ld)"
    | (died) "r = Err (TransactionAborted WaitDie)" "ld' = ld"
proof -
  obtain ra lt sent where a: "acquire t0 t1 ch tx (ld_lock_table ld) = (ra, lt, sent)" by (metis prod.exhaust)
  note q = acquire_queue [OF a assms(2)] and res = acquire_result(1,2) [OF a] and i = acquire_inv [OF a assms(2)]
  let ?q = "lock_queue (ld_lock_table ld)"
  consider "?q = [] \<or> hd ?q = tx_id tx" | "?q \<noteq> []" "hd ?q \<noteq> tx_id tx" "last ?q > tx_id tx"
    | "?q \<noteq> []" "hd ?q \<noteq> tx_id tx" "\<not> last ?q > tx_id tx" by blast
  then show thesis
  proof cases
    case 1
    then have "r = Ok (Done ())" "ld' = ld\<lparr>ld_lock_table := lt\<rparr>"
      using a assms(1) res by (auto simp: acquire_range_lock_def simp del: lock_queue_Nil_iff split: if_splits)
    moreover have "?q = [] \<or> lock_queue lt = ?q" "is_currently_holding (tx_id tx) lt"
      using 1 q by (auto simp: holding_iff_head simp del: lock_queue_Nil_iff split: if_splits)
    ultimately show thesis using i by (intro granted) (simp_all add: same_but_lock_def del: lock_queue_Nil_iff)
  next
    case 2
    have e: "ra = Err (TransactionAborted WaitDie)" using 2 res(1) by (simp del: lock_queue_Nil_iff)
    have "lt = ld_lock_table ld" using acquire_die_unchanged a e by blast
    then have "r = Err (TransactionAborted WaitDie)" "ld' = ld" using a e assms(1) by (auto simp: acquire_range_lock_def)
    then show thesis by (rule died)
  next
    case 3
    then have "r = Ok (Blocked ch)" "ld' = ld\<lparr>ld_lock_table := lt\<rparr>"
      using a assms(1) res by (auto simp: acquire_range_lock_def simp del: lock_queue_Nil_iff split: if_splits)
    then show thesis using 3 q i by (intro queued) (simp_all add: holding_iff_head same_but_lock_def del: lock_queue_Nil_iff)
  qed
qed

lemma acquire_range_lock_exact:
  assumes "acquire_range_lock t0 t1 ch tx ld = (r, ld')" "lock_inv (ld_lock_table ld)"
  shows "\<exists>lt. ld' = ld\<lparr>ld_lock_table := lt\<rparr> \<and>
    (if lock_queue (ld_lock_table ld) = [] \<or> hd (lock_queue (ld_lock_table ld)) = tx_id tx
     then r = Ok (Done ()) \<and> lock_queue lt =
       (if lock_queue (ld_lock_table ld) = [] then [tx_id tx] else lock_queue (ld_lock_table ld))
     else if last (lock_queue (ld_lock_table ld)) > tx_id tx then r = Err (TransactionAborted WaitDie) \<and> ld' = ld
     else r = Ok (Blocked ch) \<and> lock_queue lt = lock_queue (ld_lock_table ld) @ [tx_id tx])"
proof -
  obtain ra lt sent where a: "acquire t0 t1 ch tx (ld_lock_table ld) = (ra, lt, sent)" by (metis prod.exhaust)
  note q = acquire_queue [OF a assms(2)] and res = acquire_result(1,2) [OF a]
  have die: "lt = ld_lock_table ld" if "ra = Err e" for e
    using acquire_die_unchanged a that by blast
  show ?thesis
    using assms(1) a q res die
    by (intro exI [where x = lt]) (auto simp: acquire_range_lock_def simp del: lock_queue_Nil_iff split: if_splits)
qed

lemma renewed_lease_shape:
  assumes "renewed_lease n epoch old = Some new"
    and "unat (snd old) + unat n + 1 < 2 ^ 64" "unat epoch + unat n + 1 < 2 ^ 64"
  shows "unat (snd new) = max (unat epoch) (unat (snd old)) + 1 + unat n \<and>
    (fst new = fst old \<or> fst new = epoch + 1 \<and> unat (fst new) = unat epoch + 1 \<and> snd old < fst new)"
proof -
  obtain a b where ab: "old = (a, b)" by fastforce
  let ?l = "max (epoch + 1) (b + 1)"
  have e: "unat (epoch + 1) = unat epoch + 1" "unat (b + 1) = unat b + 1"
    using assms(2,3) ab by (simp_all add: unat_add_no_overflow)
  have l: "unat ?l = max (unat epoch) (unat b) + 1" using e by (auto simp: max_def word_le_nat_alt)
  have u: "unat (?l + n) = max (unat epoch) (unat b) + 1 + unat n"
    using assms(2,3) ab l by (subst unat_add_no_overflow) (auto simp: max_def split: if_splits)
  have new: "new = (if ?l - b = 1 then (a, ?l + n) else (?l, ?l + n))"
    using assms(1) ab by (auto simp: renewed_lease_def Let_def split: if_splits)
  have gap: "?l - b = 1 \<longleftrightarrow> unat epoch \<le> unat b"
  proof -
    have "?l - b = 1 \<longleftrightarrow> ?l = b + 1" by (simp add: diff_eq_eq add.commute)
    also have "\<dots> \<longleftrightarrow> unat ?l = unat b + 1" using e(2) by (metis word_unat_eq_iff)
    finally show ?thesis using l by auto
  qed
  have ge: "epoch + 1 = ?l" if "\<not> unat epoch \<le> unat b" using that e by (auto simp: max_def word_le_nat_alt)
  show ?thesis
    using new gap ge l u ab by (auto simp: word_less_nat_alt split: if_splits)
qed

lemma initial_lease_shape:
  assumes "unat (snd stored) + unat n + 1 < 2 ^ 64" "unat epoch + unat n + 1 < 2 ^ 64"
  shows "snd stored < fst (initial_lease n (epoch + 1) stored) \<and>
    unat (fst (initial_lease n (epoch + 1) stored)) = max (unat epoch) (unat (snd stored)) + 1 \<and>
    unat (snd (initial_lease n (epoch + 1) stored)) = max (unat epoch) (unat (snd stored)) + 1 + unat n"
proof -
  let ?l = "max (epoch + 1) (snd stored + 1)"
  have e: "unat (epoch + 1) = unat epoch + 1" "unat (snd stored + 1) = unat (snd stored) + 1"
    using assms by (simp_all add: unat_add_no_overflow)
  have l: "unat ?l = max (unat epoch) (unat (snd stored)) + 1" using e by (auto simp: max_def word_le_nat_alt)
  have "unat (?l + n) = max (unat epoch) (unat (snd stored)) + 1 + unat n"
    using assms l by (subst unat_add_no_overflow) (auto simp: max_def split: if_splits)
  then show ?thesis using l by (simp add: initial_lease_def Let_def word_less_nat_alt)
qed

section \<open>Properties\<close>

text \<open>
  C9: a commit that succeeds applies exactly the prepared writes, for a request that writes every key once and an epoch
  above the epochs of the stored versions of its keys (at an equal epoch the database may keep the older
  value). If the transaction holds the range lock, the visible content of the database changes at the written
  keys of this range, to the prepared values or to nothing for deletes, and nowhere else; a commit record
  is logged; the prepare record is consumed; the highest known epoch covers the commit; the lock passes to
  the transaction that waits longest and the signalled channels include its. A commit by a transaction that does not
  hold the lock changes nothing. The commit runs without another request between its parts.
\<close>

theorem range_commit_correct:
  assumes "executes (storage_sem tie) exec"
    and "range_commit (cassandra_storage exec) wops alive now t c rm = (Ok (), rm', sent)"
    and "rm_state rm = RangeLoaded ld" "lock_inv (ld_lock_table ld)"
    and "\<And>p. ld_pending_prepare_records ld t = Some p \<Longrightarrow> distinct (written_keys p) \<and>
      (\<forall>k. Some k \<in> set (written_keys p) \<longrightarrow>
        db_fresh (cq_epoch c) (frid_range_id (rm_range_id rm)) k (rm_storage rm))"
  shows "if is_currently_holding t (ld_lock_table ld)
    then \<exists>p ld'. ld_pending_prepare_records ld t = Some p \<and> rm_state rm' = RangeLoaded ld' \<and>
      db_content (rm_storage rm') = override_content p (frid_range_id (rm_range_id rm)) (db_content (rm_storage rm)) \<and>
      wo_append_commit wops c (rm_wal rm) = (Ok (), rm_wal rm') \<and>
      ld_pending_prepare_records ld' = (ld_pending_prepare_records ld)(t := None) \<and>
      ld_highest_known_epoch ld' = max (ld_highest_known_epoch ld) (cq_epoch c) \<and>
      lock_queue (ld_lock_table ld') = tl (lock_queue (ld_lock_table ld)) \<and>
      set (map req_sender (take 1 (waiting_to_acquire (ld_lock_table ld)))) \<subseteq> set sent
    else rm' = rm \<and> sent = []"
proof (cases "is_currently_holding t (ld_lock_table ld)")
  case False
  then show ?thesis using assms(2,3) by (simp add: range_commit_def)
next
  case True
  note rs = executes_record_store [OF assms(1)]
  obtain w p s buf lt where
    c: "wo_append_commit wops c (rm_wal rm) = (Ok (), w)" "ld_pending_prepare_records ld t = Some p"
      "apply_writes (cassandra_storage exec) (rm_range_id rm) \<lparr>kv_epoch = cq_epoch c, kv_version_counter = cq_vid c\<rparr> p
       (rm_storage rm, rm_buffer rm) = (Ok (), s, buf)"
      "release alive now (ld_lock_table ld) = (Ok (), lt, sent)"
      "rm' = rm\<lparr>rm_storage := s, rm_wal := w, rm_buffer := process_transaction_complete t buf,
       rm_state := RangeLoaded (ld\<lparr>ld_highest_known_epoch := max (ld_highest_known_epoch ld) (cq_epoch c),
         ld_lock_table := lt, ld_pending_prepare_records := (ld_pending_prepare_records ld)(t := None)\<rparr>)\<rparr>"
    using range_commit_OkE [OF assms(2,3) True] by blast
  show ?thesis
    using record_store.apply_writes_content [OF rs c(3)] assms(5) [OF c(2)] c(1,2,5) True
      release_queue [OF c(4) assms(4)] release_Ok(4) [OF c(4)] by auto
qed

text \<open>
  C34: a commit that fails is isolated. When the commit of the holder returns an error, because the log or
  one of the writes failed, the lock is still held by the transaction with the same queue behind it, nobody is
  signalled, and the database can differ only at the keys of this range that the transaction
  prepared to write.
\<close>

theorem range_commit_failure_isolated:
  assumes "executes (storage_sem tie) exec"
    and "range_commit (cassandra_storage exec) wops alive now t c rm = (Err e, rm', sent)"
    and "rm_state rm = RangeLoaded ld" "is_currently_holding t (ld_lock_table ld)"
  shows "sent = [] \<and> (\<exists>ld'. rm_state rm' = RangeLoaded ld' \<and> ld_lock_table ld' = ld_lock_table ld) \<and>
    (db_content (rm_storage rm') i k = db_content (rm_storage rm) i k \<or>
     i = frid_range_id (rm_range_id rm) \<and>
     (\<exists>p. ld_pending_prepare_records ld t = Some p \<and> Some k \<in> set (written_keys p)))"
  using assms(2-4)
proof (cases rule: range_commit_ErrE)
  case (writes w p s buf)
  then show ?thesis
    using record_store.apply_writes_frame [OF executes_record_store [OF assms(1)] writes(3), of i k] by auto
qed simp

text \<open>
  C35: a prepare on a loaded range, exactly, branch by branch. The written keys are checked in order, puts before
  deletes: the first one that is missing makes the call panic, the first one outside the range makes it
  fail with KeyIsOutOfRange. Then a request with reads whose transaction does not hold the lock fails with
  TransactionLockLost. Then, if the lock is free or already held by the transaction, the transaction holds it
  afterwards and the result is that of the log: logged, the request is recorded and the reply carries the highest known
  epoch and the lease; not logged, the error is that of the log, nothing is recorded and the lock stays held.
  If another transaction holds the lock, the call dies with WaitDie when the last one in the queue has the larger
  id, and else waits, queued last. Nothing else changes on any branch.
\<close>

theorem range_prepare_correct:
  assumes "range_prepare wops t0 t1 ch tx p rm = (res, rm')"
    and "rm_state rm = RangeLoaded ld" "lock_inv (ld_lock_table ld)"
    and "q = lock_queue (ld_lock_table ld)"
    and "bad = filter (\<lambda>k. case k of None \<Rightarrow> True | Some b \<Rightarrow> \<not> key_range_includes (ri_key_range (ld_range_info ld)) b)
      (written_keys p)"
  shows "if bad \<noteq> [] then rm' = rm \<and> res = (if hd bad = None then Panic else Err KeyIsOutOfRange)
    else if pq_has_reads p \<and> \<not> (q \<noteq> [] \<and> hd q = tx_id tx)
      then rm' = rm \<and> res = Err (TransactionAborted TransactionLockLost)
    else if q = [] \<or> hd q = tx_id tx then
      (\<exists>lt. lock_queue lt = (if q = [] then [tx_id tx] else q) \<and>
        (case wo_append_prepare wops p (rm_wal rm) of
           (Ok _, w) \<Rightarrow>
             res = Ok (Done \<lparr>pr_highest_known_epoch = ld_highest_known_epoch ld,
                             pr_epoch_lease = ri_epoch_lease (ld_range_info ld)\<rparr>) \<and>
             rm' = rm\<lparr>rm_wal := w, rm_state := RangeLoaded (ld\<lparr>ld_lock_table := lt,
               ld_pending_prepare_records := (ld_pending_prepare_records ld)(tx_id tx \<mapsto> p)\<rparr>)\<rparr>
         | (Err e, w) \<Rightarrow>
             res = Err (from_wal_error e) \<and> rm' = rm\<lparr>rm_wal := w, rm_state := RangeLoaded (ld\<lparr>ld_lock_table := lt\<rparr>)\<rparr>
         | (Panic, w) \<Rightarrow>
             res = Panic \<and> rm' = rm\<lparr>rm_wal := w, rm_state := RangeLoaded (ld\<lparr>ld_lock_table := lt\<rparr>)\<rparr>))
    else if last q > tx_id tx then rm' = rm \<and> res = Err (TransactionAborted WaitDie)
    else res = Ok (Blocked ch) \<and>
      (\<exists>lt. lock_queue lt = q @ [tx_id tx] \<and> rm' = rm\<lparr>rm_state := RangeLoaded (ld\<lparr>ld_lock_table := lt\<rparr>)\<rparr>)"
proof -
  let ?kr = "ri_key_range (ld_range_info ld)"
  let ?c = "and_then (check_keys ?kr (map put_key (table_list (pq_puts p)))) (\<lambda>_. check_keys ?kr (table_list (pq_deletes p)))"
  have c: "?c = (if bad = [] then Ok () else if hd bad = None then Panic else Err KeyIsOutOfRange)"
    unfolding check_keys_append [symmetric] by (rule check_keys_first_bad) (simp only: assms(5) written_keys_def)
  have h: "is_currently_holding (tx_id tx) (ld_lock_table ld) \<longleftrightarrow> q \<noteq> [] \<and> hd q = tx_id tx"
    by (simp add: holding_iff_head assms(4) del: lock_queue_Nil_iff)
  obtain r ld1 where a: "acquire_range_lock t0 t1 ch tx ld = (r, ld1)" by fastforce
  let ?rm1 = "rm\<lparr>rm_state := RangeLoaded ld1\<rparr>"
  have run: "(res, rm') = (if bad \<noteq> [] then (if hd bad = None then Panic else Err KeyIsOutOfRange, rm)
      else if pq_has_reads p \<and> \<not> (q \<noteq> [] \<and> hd q = tx_id tx) then (Err (TransactionAborted TransactionLockLost), rm)
      else progress_of (prepare_locked wops (tx_id tx) p ld1 ?rm1) ?rm1 r)"
    using assms(1,2) c h a by (auto simp: range_prepare_def Let_def split: if_splits)
  note q = acquire_range_lock_exact [OF a assms(3), folded assms(4)]
  have same: "rm\<lparr>rm_state := RangeLoaded ld\<rparr> = rm" using assms(2) by (cases rm) simp
  consider "bad \<noteq> [] \<or> pq_has_reads p \<and> \<not> (q \<noteq> [] \<and> hd q = tx_id tx)"
    | (granted) "bad = []" "q = [] \<or> hd q = tx_id tx" "\<not> (pq_has_reads p \<and> \<not> (q \<noteq> [] \<and> hd q = tx_id tx))"
    | (other) "bad = []" "\<not> (q = [] \<or> hd q = tx_id tx)" "\<not> pq_has_reads p" by blast
  then show ?thesis
  proof cases
    case 1
    then show ?thesis using run by (auto split: if_splits)
  next
    case granted
    obtain lt where lt: "ld1 = ld\<lparr>ld_lock_table := lt\<rparr>" "r = Ok (Done ())" "lock_queue lt = (if q = [] then [tx_id tx] else q)"
      using q granted(2) by auto
    obtain w1 w2 where w: "wo_append_prepare wops p (rm_wal rm) = (w1, w2)" by fastforce
    have "(res, rm') = progress_of (prepare_locked wops (tx_id tx) p ld1 ?rm1) ?rm1 r"
      using run granted(1,3) by (simp only: if_False simp_thms)
    then have "case w1 of
           Ok _ \<Rightarrow> res = Ok (Done \<lparr>pr_highest_known_epoch = ld_highest_known_epoch ld,
                             pr_epoch_lease = ri_epoch_lease (ld_range_info ld)\<rparr>) \<and>
             rm' = rm\<lparr>rm_wal := w2, rm_state := RangeLoaded (ld\<lparr>ld_lock_table := lt,
               ld_pending_prepare_records := (ld_pending_prepare_records ld)(tx_id tx \<mapsto> p)\<rparr>)\<rparr>
         | Err e \<Rightarrow> res = Err (from_wal_error e) \<and> rm' = rm\<lparr>rm_wal := w2, rm_state := RangeLoaded (ld\<lparr>ld_lock_table := lt\<rparr>)\<rparr>
         | Panic \<Rightarrow> res = Panic \<and> rm' = rm\<lparr>rm_wal := w2, rm_state := RangeLoaded (ld\<lparr>ld_lock_table := lt\<rparr>)\<rparr>"
      by (cases w1) (simp_all add: lt(1,2) w progress_of_def prepare_locked_def)
    then show ?thesis using granted lt(3) by (simp only: w if_False if_True simp_thms prod.case) blast
  next
    case other
    then have "(res, rm') = progress_of (prepare_locked wops (tx_id tx) p ld1 ?rm1) ?rm1 r" using run by simp
    then show ?thesis using other q same by (auto simp: progress_of_def)
  qed
qed

text \<open>
  Bounds of a renewed lease. If the renewal task renews the lease in the current epoch, and no sum
  overflows, then the new lease is a proper interval that reaches beyond the old one and beyond the
  current epoch, but at most three lease lengths and one beyond it; it either extends
  the old lease without a gap or starts right after the current epoch and behind the old lease.
\<close>

theorem renewed_lease_bounds:
  assumes "renewed_lease n epoch old = Some new"
    and "unat (snd old) + unat n + 1 < 2 ^ 64" "unat epoch + unat n + 1 < 2 ^ 64" "2 * unat n < 2 ^ 64"
    and "fst old \<le> snd old"
  shows "fst new \<le> snd new \<and> snd old < snd new \<and> epoch < snd new \<and>
    unat (snd new) \<le> unat epoch + 3 * unat n + 1 \<and>
    (fst new = fst old \<or> fst new = epoch + 1 \<and> snd old < fst new)"
proof -
  note sh = renewed_lease_shape [OF assms(1-3)]
  have n2: "unat (2 * n) = 2 * unat n"
    using assms(4) by (simp add: unat_word_ariths)
  have "\<not> (if epoch \<le> snd old then snd old - epoch else 0) > 2 * n"
    using assms(1) by (auto simp: renewed_lease_def Let_def split: if_splits)
  then have "unat (snd old) \<le> unat epoch + 2 * unat n"
    using n2 by (cases "epoch \<le> snd old") (auto simp: word_less_nat_alt word_le_nat_alt unat_sub)
  then show ?thesis
    using sh assms(5) by (auto simp: word_less_nat_alt word_le_nat_alt)
qed

section \<open>Observations\<close>

text \<open>A load that fails panics, unless another caller waits for it.\<close>

lemma failed_load_panics:
  "rm_load_receivers rm = 0 \<Longrightarrow> fst (load_finish (Err e) rm) = Panic"
  by (simp add: load_finish_def)

text \<open>An unload that happens while the range is loading is overwritten by the end of the load.\<close>

lemma unload_during_load_lost:
  "rm_state (snd (load_finish (Ok ld) (unload rm))) = RangeLoaded ld"
  by (simp add: load_finish_def)

text \<open>A commit that failed in a write cannot be retried: the prepare record is gone and the second attempt panics.\<close>

lemma commit_retry_panics:
  assumes "range_commit ops wops alive now t c rm = (Err e, rm', sent)" "rm_state rm = RangeLoaded ld"
    and "is_currently_holding t (ld_lock_table ld)" "wo_append_commit wops c (rm_wal rm) = (Ok (), w)"
    and "wo_append_commit wops c (rm_wal rm') = (Ok (), w')"
  shows "fst (range_commit ops wops alive now t c rm') = Panic"
  using assms(1-3)
proof (cases rule: range_commit_ErrE)
  case (writes w1 p s buf)
  then show ?thesis using assms(3,5) by (simp add: range_commit_def Let_def)
qed (use assms(4) in simp)

text \<open>An abort leaves the prepare record of the transaction behind.\<close>

lemma abort_keeps_prepare_record:
  assumes "range_abort wops alive now t a rm = (Ok u, rm', sent)" "rm_state rm = RangeLoaded ld"
  shows "\<exists>ld'. rm_state rm' = RangeLoaded ld' \<and> ld_pending_prepare_records ld' = ld_pending_prepare_records ld"
  using assms
  by (auto simp: range_abort_def split: if_splits outcome.splits prod.splits elim!: finish_transaction_OkE)

text \<open>The buffer is consulted by key alone: a value buffered for another range is returned.\<close>

lemma buffer_ignores_range:
  assumes "key_state_map (rm_buffer rm) k = Some Fetched" "prefetch_store (rm_buffer rm) k = Some v"
  shows "\<exists>g. fst (get_locked ops k ld rm) = Ok g \<and> gr_val g = Some v"
  using assms by (simp add: get_locked_def get_from_buffer_def)

section \<open>Witnesses\<close>

definition ex_prepare :: prepare_request where
  "ex_prepare = \<lparr>pq_request_id = None, pq_transaction_id = None, pq_range_id = None, pq_has_reads = False,
     pq_puts = Some [\<lparr>fbr_key = Some (Some [1]), fbr_value = Some [9]\<rparr>], pq_deletes = Some [Some [2]]\<rparr>"

definition ex_loaded :: loaded_state where
  "ex_loaded = (loaded_state_new \<lparr>ri_id = 2, ri_key_range = key_range_all, ri_leader_sequence_number = 6,
       ri_epoch_lease = (1, 9)\<rparr> 3)
     \<lparr>ld_lock_table := ex_lock_waiting, ld_pending_prepare_records := [5 \<mapsto> ex_prepare]\<rparr>"

definition ex_rm :: "(storage_db, in_mem_wal) range_manager" where
  "ex_rm = \<lparr>rm_range_id = ex_range, rm_storage = ex_db, rm_wal = in_mem_wal_new,
     rm_state = RangeLoaded ex_loaded, rm_buffer = pb_new, rm_load_receivers = 0\<rparr>"

abbreviation ex_exec :: storage_session where
  "ex_exec \<equiv> reliable (storage_sem larger_wins)"

lemma ex_rm_simps:
  "rm_state ex_rm = RangeLoaded ex_loaded" "ld_lock_table ex_loaded = ex_lock_waiting"
  "ld_pending_prepare_records ex_loaded = [5 \<mapsto> ex_prepare]" "written_keys ex_prepare = [Some [1], Some [2]]"
  "rm_range_id ex_rm = ex_range" "rm_storage ex_rm = ex_db" "rm_wal ex_rm = in_mem_wal_new"
  "db_fresh e i k ex_db" "is_currently_holding 5 ex_lock_waiting" "lock_inv ex_lock_waiting"
  by (simp_all add: ex_rm_def ex_loaded_def ex_prepare_def written_keys_def table_list_def put_key_def db_fresh_def
      ex_db_def holding_iff_head ex_lock_waiting_queue lock.reachable_inv [OF ex_lock_waiting_reachable]
      del: lock_queue_Nil_iff)

lemma range_commit_correct_witness:
  "db_content (rm_storage (fst (snd (range_commit (cassandra_storage ex_exec) (in_memory_wal ex_codec) (\<lambda>_. True) 0 5
     ex_commit ex_rm)))) 2 [1] = Some [9]"
proof -
  let ?c = "range_commit (cassandra_storage ex_exec) (in_memory_wal ex_codec) (\<lambda>_. True) 0 5 ex_commit ex_rm"
  obtain lt sent where rel: "release (\<lambda>_. True) 0 ex_lock_waiting = (Ok (), lt, sent)"
    using release_alive [of "\<lambda>_. True" ex_lock_waiting 0] by (auto simp: all_alive_def list_all_iff)
  have ok: "fst ?c = Ok ()"
    by (simp add: range_commit_def ex_rm_simps in_memory_wal_def in_mem_append_commit_def apply_writes_def
        ex_prepare_def table_list_def put_key_def cassandra_storage_def storage_upsert_def storage_delete_def
        reliable_def finish_transaction_def rel Let_def split: prod.splits)
  then obtain rm' sent' where c: "?c = (Ok (), rm', sent')" by (metis prod.collapse)
  have "ld_pending_prepare_records ex_loaded 5 = Some p \<Longrightarrow> distinct (written_keys p) \<and>
      (\<forall>k. Some k \<in> set (written_keys p) \<longrightarrow> db_fresh (cq_epoch ex_commit) (frid_range_id (rm_range_id ex_rm)) k (rm_storage ex_rm))" for p
    by (auto simp: ex_rm_simps)
  note range_commit_correct [OF executes_reliable c ex_rm_simps(1) _ this]
  then show ?thesis using c
    by (auto simp: ex_rm_simps override_content_def write_set_def ex_prepare_def table_list_def put_pairs_def
        put_key_def ex_range_def)
qed

text \<open>A session whose statements all fail without effect.\<close>

definition failing :: storage_session where
  "failing n stmt db = (Err TimeoutError, db)"

lemma executes_failing [simp]: "executes sem failing"
  by (auto simp: executes_def failing_def)

lemma range_commit_failure_isolated_witness:
  "\<exists>rm' ld'. range_commit (cassandra_storage failing) (in_memory_wal ex_codec) (\<lambda>_. True) 0 5 ex_commit ex_rm =
       (Err Timeout, rm', []) \<and>
     rm_state rm' = RangeLoaded ld' \<and> ld_lock_table ld' = ex_lock_waiting \<and> db_content (rm_storage rm') 2 [3] = None"
proof -
  let ?c = "range_commit (cassandra_storage failing) (in_memory_wal ex_codec) (\<lambda>_. True) 0 5 ex_commit ex_rm"
  obtain rm' sent where c: "?c = (Err Timeout, rm', sent)"
    by (simp add: range_commit_def ex_rm_simps in_memory_wal_def in_mem_append_commit_def apply_writes_def
        ex_prepare_def table_list_def put_key_def cassandra_storage_def storage_upsert_def failing_def Let_def)
  show ?thesis
    using c range_commit_failure_isolated [OF executes_failing c ex_rm_simps(1), of 2 "[3]"]
    by (auto simp: ex_rm_simps db_content_def ex_db_def)
qed

lemma range_prepare_correct_witness:
  "\<exists>rm' ld' pr. range_prepare (in_memory_wal ex_codec) 0 0 3 (ex_tx 5) ex_prepare ex_rm = (Ok (Done pr), rm') \<and>
     rm_state rm' = RangeLoaded ld' \<and> ld_pending_prepare_records ld' 5 = Some ex_prepare \<and> pr_epoch_lease pr = (1, 9)"
proof -
  let ?p = "range_prepare (in_memory_wal ex_codec) 0 0 3 (ex_tx 5) ex_prepare ex_rm"
  have "fst ?p = Ok (Done \<lparr>pr_highest_known_epoch = 3, pr_epoch_lease = (1, 9)\<rparr>)"
    by (simp add: range_prepare_def ex_rm_def ex_loaded_def loaded_state_new_def ex_prepare_def table_list_def put_key_def
        acquire_range_lock_def ex_lock_waiting_def ex_lock_held_def acquire_def lock_table_new_def ex_tx_def
        progress_of_def prepare_locked_def in_memory_wal_def in_mem_append_prepare_def)
  then obtain rm' where p: "?p = (Ok (Done \<lparr>pr_highest_known_epoch = 3, pr_epoch_lease = (1, 9)\<rparr>), rm')"
    by (metis prod.collapse)
  have q: "[5, 7] = lock_queue (ld_lock_table ex_loaded)" by (simp add: ex_rm_simps ex_lock_waiting_queue)
  have bad: "[] = filter (\<lambda>k. case k of None \<Rightarrow> True | Some b \<Rightarrow>
      \<not> key_range_includes (ri_key_range (ld_range_info ex_loaded)) b) (written_keys ex_prepare)"
    by (simp add: ex_rm_simps) (simp add: ex_loaded_def loaded_state_new_def)
  have wal: "wo_append_prepare (in_memory_wal ex_codec) p in_mem_wal_new = (Ok (), snd (in_mem_append_prepare ex_codec p in_mem_wal_new))" for p
    by (simp add: in_memory_wal_def in_mem_append_prepare_def)
  show ?thesis
    using p range_prepare_correct [OF p ex_rm_simps(1) _ q bad]
    by (auto simp: ex_rm_simps ex_tx_def wal ex_prepare_def)
qed

lemma renewed_lease_bounds_witness:
  "renewed_lease 5 20 (3, 22) = Some (3, 28) \<and> (22 :: u64) < 28 \<and> unat (28 :: u64) \<le> unat (20 :: u64) + 3 * unat (5 :: u64) + 1"
proof -
  have "renewed_lease 5 20 (3, 22) = Some (3, 28)" by (simp add: renewed_lease_def max_def)
  from renewed_lease_bounds [OF this] this show ?thesis by simp
qed

end
