(* ===== verification/Range_Isolation.thy ===== *)
theory Range_Isolation
  imports Range_Manager
begin

text \<open>
  Sequences of operations on a loaded range: what a transaction that holds the range lock can
  rely on while other transactions, prefetches and lease renewals run, and the agreement of the
  prefetching buffer with the storage. The events are the operations of \<open>Range_Manager\<close>, cut where
  they wait; a fetch for the buffer is the storage read and the later completion, with any other
  events between them.
\<close>

section \<open>Definitions\<close>

text \<open>The reads of fetches that are not completed yet: key, fetch sequence number and value read.\<close>

record ('s, 'w) range_sys =
  sys_rm :: "('s, 'w) range_manager"
  sys_fetches :: "(bytes \<times> u64 \<times> bytes option) list"

datatype range_event =
    EvGet uuid
  | EvPrepare uuid
  | EvCommit uuid commit_request "(rs_error, unit) outcome"
  | EvAbort uuid
  | EvPrefetch uuid
  | EvFetchRead bytes u64
  | EvFetchComplete bytes u64
  | EvFetchFailed bytes u64
  | EvRetry bytes u64
  | EvRenew

inductive range_step ::
  "'s storage_ops \<Rightarrow> 'w wal_ops \<Rightarrow> range_event \<Rightarrow> ('s, 'w) range_sys \<Rightarrow> ('s, 'w) range_sys \<Rightarrow> bool"
  for ops wops where
  rs_get: "range_get ops t0 t1 ch tx key (sys_rm s) = (r, rm') \<Longrightarrow>
    range_step ops wops (EvGet (tx_id tx)) s (s\<lparr>sys_rm := rm'\<rparr>)"
| rs_get_locked: "rm_state (sys_rm s) = RangeLoaded ld \<Longrightarrow> is_currently_holding t (ld_lock_table ld) \<Longrightarrow>
    get_locked ops key ld (sys_rm s) = (r', rm') \<Longrightarrow> range_step ops wops (EvGet t) s (s\<lparr>sys_rm := rm'\<rparr>)"
| rs_prepare: "range_prepare wops t0 t1 ch tx p (sys_rm s) = (rp, rm') \<Longrightarrow>
    range_step ops wops (EvPrepare (tx_id tx)) s (s\<lparr>sys_rm := rm'\<rparr>)"
| rs_prepare_locked: "rm_state (sys_rm s) = RangeLoaded ld \<Longrightarrow> is_currently_holding t (ld_lock_table ld) \<Longrightarrow>
    prepare_locked wops t p ld (sys_rm s) = (rp', rm') \<Longrightarrow> range_step ops wops (EvPrepare t) s (s\<lparr>sys_rm := rm'\<rparr>)"
| rs_commit: "range_commit ops wops alive now t c (sys_rm s) = (rc, rm', sent) \<Longrightarrow>
    range_step ops wops (EvCommit t c rc) s (s\<lparr>sys_rm := rm'\<rparr>)"
| rs_abort: "range_abort wops alive now t a (sys_rm s) = (rc, rm', sent) \<Longrightarrow>
    range_step ops wops (EvAbort t) s (s\<lparr>sys_rm := rm'\<rparr>)"
| rs_prefetch: "prefetch_begin t key (sys_rm s) = (pr, rm') \<Longrightarrow> fetch_sequence_number (rm_buffer (sys_rm s)) \<noteq> - 1 \<Longrightarrow>
    range_step ops wops (EvPrefetch t) s (s\<lparr>sys_rm := rm'\<rparr>)"
| rs_fetch_read: "prefetch_get ops key (sys_rm s) = (Ok v, rm') \<Longrightarrow> n \<le> fetch_sequence_number (rm_buffer (sys_rm s)) \<Longrightarrow>
    range_step ops wops (EvFetchRead key n) s (s\<lparr>sys_rm := rm', sys_fetches := (key, n, v) # sys_fetches s\<rparr>)"
| rs_fetch_complete: "(key, n, v) \<in> set (sys_fetches s) \<Longrightarrow> prefetch_finish key n (Ok v) (sys_rm s) = (rf, rm') \<Longrightarrow>
    range_step ops wops (EvFetchComplete key n) s (s\<lparr>sys_rm := rm', sys_fetches := remove1 (key, n, v) (sys_fetches s)\<rparr>)"
| rs_fetch_failed: "prefetch_finish key n (Err e) (sys_rm s) = (rf, rm') \<Longrightarrow>
    range_step ops wops (EvFetchFailed key n) s (s\<lparr>sys_rm := rm'\<rparr>)"
| rs_retry: "prefetch_retry key n (sys_rm s) = (pr, rm') \<Longrightarrow>
    range_step ops wops (EvRetry key n) s (s\<lparr>sys_rm := rm'\<rparr>)"
| rs_renew: "renew_epoch_lease_iteration ops n epoch (sys_rm s) = (rr, rm') \<Longrightarrow>
    range_step ops wops EvRenew s (s\<lparr>sys_rm := rm'\<rparr>)"

inductive_cases range_step_commitE: "range_step ops wops (EvCommit t c rc) s s'"
inductive_cases range_step_abortE: "range_step ops wops (EvAbort t) s s'"

text \<open>The events that end transaction \<open>t\<close>.\<close>

fun ends :: "uuid \<Rightarrow> range_event \<Rightarrow> bool" where
  "ends t (EvCommit u c r) = (u = t)"
| "ends t (EvAbort u) = (u = t)"
| "ends t _ = False"

definition holds_lock :: "uuid \<Rightarrow> ('s, 'w) range_sys \<Rightarrow> bool" where
  "holds_lock t s \<longleftrightarrow> (\<exists>ld. rm_state (sys_rm s) = RangeLoaded ld \<and> lock_inv (ld_lock_table ld) \<and>
     is_currently_holding t (ld_lock_table ld))"

text \<open>A step that does not end \<open>t\<close>, with any log and any storage operations that satisfy \<open>P\<close>.\<close>

definition others_step :: "('s storage_ops \<Rightarrow> bool) \<Rightarrow> uuid \<Rightarrow> ('s, 'w) range_sys \<Rightarrow> ('s, 'w) range_sys \<Rightarrow> bool" where
  "others_step P t s s' \<longleftrightarrow> (\<exists>ops wops ev. P ops \<and> range_step ops wops ev s s' \<and> \<not> ends t ev)"

text \<open>
  A clean event: commits succeed, write distinct keys at an epoch newer than their versions, and no
  fetch for the buffer fails.
\<close>

definition clean_commit :: "(u64 \<Rightarrow> uuid \<Rightarrow> bytes \<Rightarrow> 's \<Rightarrow> bool) \<Rightarrow> uuid \<Rightarrow> commit_request \<Rightarrow> ('s, 'w) range_manager \<Rightarrow> bool" where
  "clean_commit fresh t c rm \<longleftrightarrow> (\<forall>ld p. rm_state rm = RangeLoaded ld \<longrightarrow> ld_pending_prepare_records ld t = Some p \<longrightarrow>
     distinct (written_keys p) \<and>
     (\<forall>k. Some k \<in> set (written_keys p) \<longrightarrow> fresh (cq_epoch c) (frid_range_id (rm_range_id rm)) k (rm_storage rm)))"

fun clean_event :: "(u64 \<Rightarrow> uuid \<Rightarrow> bytes \<Rightarrow> 's \<Rightarrow> bool) \<Rightarrow> ('s, 'w) range_sys \<Rightarrow> range_event \<Rightarrow> bool" where
  "clean_event fresh s (EvCommit t c r) = (r = Ok () \<and> clean_commit fresh t c (sys_rm s))"
| "clean_event fresh s (EvFetchFailed key n) = False"
| "clean_event fresh s (EvRetry key n) = False"
| "clean_event fresh s _ = True"

definition clean_step ::
  "(u64 \<Rightarrow> uuid \<Rightarrow> bytes \<Rightarrow> 's \<Rightarrow> bool) \<Rightarrow> ('s storage_ops \<Rightarrow> bool) \<Rightarrow> ('s, 'w) range_sys \<Rightarrow> ('s, 'w) range_sys \<Rightarrow> bool" where
  "clean_step fresh P s s' \<longleftrightarrow> (\<exists>ops wops ev. P ops \<and> range_step ops wops ev s s' \<and> clean_event fresh s ev)"

text \<open>Right after loading, with an empty buffer.\<close>

definition range_sys_init :: "('s, 'w) range_sys \<Rightarrow> bool" where
  "range_sys_init s \<longleftrightarrow> (\<exists>info e. rm_state (sys_rm s) = RangeLoaded (loaded_state_new info e)) \<and>
     rm_buffer (sys_rm s) = pb_new \<and> sys_fetches s = []"

text \<open>The buffer agrees with the content \<open>c\<close> of the range; \<open>fl\<close> are the fetches under way.\<close>

definition coherent :: "(bytes \<Rightarrow> bytes option) \<Rightarrow> (bytes \<times> u64 \<times> bytes option) list \<Rightarrow> pb_state \<Rightarrow> bool" where
  "coherent c fl buf \<longleftrightarrow>
     (\<forall>k. case key_state_map buf k of
        None \<Rightarrow> prefetch_store buf k = None
      | Some Fetched \<Rightarrow> prefetch_store buf k = c k
      | Some (Loading n) \<Rightarrow> prefetch_store buf k = None \<and> (\<forall>v. (k, n, v) \<in> set fl \<longrightarrow> v = c k)
      | Some (Requested n) \<Rightarrow> False) \<and>
     (\<forall>k n v. (k, n, v) \<in> set fl \<longrightarrow> n \<le> fetch_sequence_number buf)"

text \<open>Equal up to the storage, the log and the state.\<close>

definition same_shared :: "('s, 'w) range_manager \<Rightarrow> ('s, 'w) range_manager \<Rightarrow> bool" where
  "same_shared rm rm' \<longleftrightarrow> rm_range_id rm' = rm_range_id rm \<and> rm_buffer rm' = rm_buffer rm"

section \<open>The buffer\<close>

lemma coherentI:
  assumes "\<And>k. key_state_map buf k = None \<Longrightarrow> prefetch_store buf k = None"
    and "\<And>k. key_state_map buf k = Some Fetched \<Longrightarrow> prefetch_store buf k = c k"
    and "\<And>k n. key_state_map buf k = Some (Loading n) \<Longrightarrow> prefetch_store buf k = None"
    and "\<And>k n v. key_state_map buf k = Some (Loading n) \<Longrightarrow> (k, n, v) \<in> set fl \<Longrightarrow> v = c k"
    and "\<And>k n. key_state_map buf k \<noteq> Some (Requested n)"
    and "\<And>k n v. (k, n, v) \<in> set fl \<Longrightarrow> n \<le> fetch_sequence_number buf"
  shows "coherent c fl buf"
  using assms by (auto simp: coherent_def split: option.splits key_state.splits)

lemma coherentD:
  assumes "coherent c fl buf"
  shows "key_state_map buf k = None \<Longrightarrow> prefetch_store buf k = None"
    and "key_state_map buf k = Some Fetched \<Longrightarrow> prefetch_store buf k = c k"
    and "key_state_map buf k = Some (Loading n) \<Longrightarrow> prefetch_store buf k = None"
    and "key_state_map buf k = Some (Loading n) \<Longrightarrow> (k, n, v) \<in> set fl \<Longrightarrow> v = c k"
    and "key_state_map buf k \<noteq> Some (Requested n)"
    and "(k, n, v) \<in> set fl \<Longrightarrow> n \<le> fetch_sequence_number buf"
proof -
  have "case key_state_map buf k of
        None \<Rightarrow> prefetch_store buf k = None
      | Some Fetched \<Rightarrow> prefetch_store buf k = c k
      | Some (Loading n) \<Rightarrow> prefetch_store buf k = None \<and> (\<forall>v. (k, n, v) \<in> set fl \<longrightarrow> v = c k)
      | Some (Requested n) \<Rightarrow> False"
    and "(k, n, v) \<in> set fl \<longrightarrow> n \<le> fetch_sequence_number buf"
    using assms unfolding coherent_def by blast+
  then show "key_state_map buf k = None \<Longrightarrow> prefetch_store buf k = None"
    "key_state_map buf k = Some Fetched \<Longrightarrow> prefetch_store buf k = c k"
    "key_state_map buf k = Some (Loading n) \<Longrightarrow> prefetch_store buf k = None"
    "key_state_map buf k = Some (Loading n) \<Longrightarrow> (k, n, v) \<in> set fl \<Longrightarrow> v = c k"
    "key_state_map buf k \<noteq> Some (Requested n)"
    "(k, n, v) \<in> set fl \<Longrightarrow> n \<le> fetch_sequence_number buf"
    by auto
qed

lemma coherent_new: "coherent c [] pb_new"
  by (simp add: coherent_def pb_new_def)

lemma coherent_register:
  assumes "coherent c fl st" "key_state_map st k \<noteq> None"
  shows "coherent c fl (register_prefetch_request t k st)"
proof -
  have "key_state_map (register_prefetch_request t k st) = key_state_map st"
    "fetch_sequence_number (register_prefetch_request t k st) = fetch_sequence_number st"
    using assms(2) by (auto simp: register_key_state)
  then show ?thesis using assms(1) unfolding coherent_def by (simp only: register_simps(1)) simp
qed

lemma coherent_start:
  assumes "process_prefetch_request_start t k st = (r, st')" "coherent c fl st" "fetch_sequence_number st \<noteq> - 1"
  shows "coherent c fl st'"
  using assms(1)
proof (cases rule: start_cases)
  case 1
  then show ?thesis using coherent_register [OF assms(2)] by simp
next
  case (2 n)
  then show ?thesis using coherent_register [OF assms(2)] by simp
next
  case (3 n)
  have none: "key_state_map st k = None" and n: "n = fetch_sequence_number st + 1"
    using 3(2) coherentD(5) [OF assms(2)] by (auto simp: register_key_state split: if_splits)
  have up: "fetch_sequence_number st < fetch_sequence_number st + 1"
    using assms(3) by (simp add: word_less_nat_alt unat_add_one)
  note d = coherentD [OF assms(2)]
  show ?thesis unfolding 3(3)
  proof (rule coherentI, goal_cases)
    case (4 l m v)
    then show ?case using d(4,6) n up none by (fastforce simp: register_key_state split: if_splits)
  next
    case (6 l m v)
    then show ?case using d(6) none up by (fastforce simp: register_key_state)
  qed (use d none in \<open>auto simp: register_key_state split: if_splits\<close>)
qed

lemma coherent_read:
  assumes "coherent c fl st" "n \<le> fetch_sequence_number st" shows "coherent c ((k, n, c k) # fl) st"
  by (rule coherentI) (use coherentD [OF assms(1)] assms(2) in auto)

lemma coherent_fewer:
  assumes "coherent c fl st" "set fl' \<subseteq> set fl" shows "coherent c fl' st"
  by (rule coherentI) (use coherentD [OF assms(1)] assms(2) in blast)+

lemma coherent_complete:
  assumes "coherent c fl st" "(k, n, v) \<in> set fl"
  shows "coherent c fl (fetch_complete k v n st)"
proof (cases "key_state_map st k = Some (Loading n)")
  case True
  note d = coherentD [OF assms(1)]
  have "v = c k" "prefetch_store st k = None" using d(3,4) True assms(2) by blast+
  then show ?thesis
    using d by (intro coherentI) (auto simp: fetch_complete_def True Let_def split: option.splits if_splits)
qed (simp add: assms(1) fetch_complete_def)

lemma coherent_upsert:
  assumes "coherent c fl st" shows "coherent (c(k := Some v)) fl (pb_upsert k v st)"
  using coherentD [OF assms]
  by (intro coherentI) (auto simp: pb_upsert_def Let_def split: if_splits)

lemma coherent_delete:
  assumes "coherent c fl st" shows "coherent (c(k := None)) fl (pb_delete k st)"
  using coherentD [OF assms]
  by (intro coherentI) (auto simp: pb_delete_def Let_def split: if_splits)

lemma complete_keys_evicts:
  "(key_state_map (complete_keys t ks st) k = key_state_map st k \<and>
    prefetch_store (complete_keys t ks st) k = prefetch_store st k) \<or>
   (key_state_map (complete_keys t ks st) k = None \<and> prefetch_store (complete_keys t ks st) k = None)"
proof (induction ks arbitrary: st)
  case (Cons key ks)
  let ?st1 = "st\<lparr>key_transactions := remove_from_key_transactions t key (key_transactions st)\<rparr>"
  let ?st2 = "if key_transactions ?st1 key = None then evict_key key ?st1 else ?st1"
  have "complete_keys t (key # ks) st = complete_keys t ks ?st2" by (simp add: Let_def)
  moreover have "(key_state_map ?st2 k = key_state_map st k \<and> prefetch_store ?st2 k = prefetch_store st k) \<or>
      (key_state_map ?st2 k = None \<and> prefetch_store ?st2 k = None)" by (simp add: evict_key_def)
  ultimately show ?case using Cons.IH [of ?st2] by presburger
qed simp

lemma coherent_transaction_complete:
  assumes "coherent c fl st" shows "coherent c fl (process_transaction_complete t st)"
proof -
  let ?st = "process_transaction_complete t st"
  have "(key_state_map ?st k = key_state_map st k \<and> prefetch_store ?st k = prefetch_store st k) \<or>
      (key_state_map ?st k = None \<and> prefetch_store ?st k = None)" for k
    using complete_keys_evicts [of t _ st k]
    by (auto simp: process_transaction_complete_def Let_def split: option.splits)
  then show ?thesis
    using coherentD [OF assms] by (intro coherentI) (metis option.distinct(1) transaction_complete_frame(5))+
qed

section \<open>The operations on a loaded range\<close>

lemma keeps_holder:
  assumes "acquire_range_lock t0 t1 ch tx ld = (r, ld')" "lock_inv (ld_lock_table ld)" "is_currently_holding t (ld_lock_table ld)"
  shows "lock_inv (ld_lock_table ld') \<and> is_currently_holding t (ld_lock_table ld')"
  using assms(1,2)
proof (cases rule: acquire_range_lock_cases)
  case granted
  then show ?thesis using assms(3) by (auto simp: holding_iff_head simp del: lock_queue_Nil_iff)
next
  case queued
  then show ?thesis using assms(3) by (auto simp: holding_iff_head simp del: lock_queue_Nil_iff)
qed (use assms in simp)

lemma holding_unique: "is_currently_holding t lt \<Longrightarrow> is_currently_holding u lt \<longleftrightarrow> u = t"
  by (auto simp: is_currently_holding_def split: option.splits)

lemma progress_of_snd: "progress_of rest m r = (res, m') \<Longrightarrow> m' = m \<or> m' = snd rest"
  by (auto simp: progress_of_def split: outcome.splits progress.splits prod.splits)

lemma prepare_locked_frame:
  assumes "prepare_locked wops t p ld rm = (r, rm')" "rm_state rm = RangeLoaded ld"
  shows "same_shared rm rm' \<and> rm_storage rm' = rm_storage rm \<and>
    (\<exists>ld'. rm_state rm' = RangeLoaded ld' \<and> ld_lock_table ld' = ld_lock_table ld)"
  using assms by (auto simp: prepare_locked_def same_shared_def split: outcome.splits prod.splits)

lemma range_prepare_frame:
  assumes "range_prepare wops t0 t1 ch tx p rm = (r, rm')"
  shows "rm' = rm \<or> (\<exists>ld r1 ld1 ld'. rm_state rm = RangeLoaded ld \<and> acquire_range_lock t0 t1 ch tx ld = (r1, ld1) \<and>
    rm_state rm' = RangeLoaded ld' \<and> ld_lock_table ld' = ld_lock_table ld1 \<and> same_shared rm rm' \<and>
    rm_storage rm' = rm_storage rm)"
proof (cases "\<exists>ld. rm_state rm = RangeLoaded ld \<and> rm' \<noteq> rm")
  case False
  then show ?thesis using assms by (auto simp: range_prepare_def split: range_state.splits)
next
  case True
  then obtain ld where ld: "rm_state rm = RangeLoaded ld" "rm' \<noteq> rm" by blast
  obtain r1 ld1 where a: "acquire_range_lock t0 t1 ch tx ld = (r1, ld1)" by fastforce
  let ?rm1 = "rm\<lparr>rm_state := RangeLoaded ld1\<rparr>"
  have "progress_of (prepare_locked wops (tx_id tx) p ld1 ?rm1) ?rm1 r1 = (r, rm')"
    using assms ld a by (auto simp: range_prepare_def Let_def split: outcome.splits if_splits)
  then have c: "rm' = ?rm1 \<or> rm' = snd (prepare_locked wops (tx_id tx) p ld1 ?rm1)" by (rule progress_of_snd)
  obtain r2 rm2 where f: "prepare_locked wops (tx_id tx) p ld1 ?rm1 = (r2, rm2)" by fastforce
  show ?thesis using prepare_locked_frame [OF f] c f ld(1) a by (auto simp: same_shared_def)
qed

context range_store
begin

lemma get_locked_frame:
  assumes "get_locked ops key ld rm = (r, rm')"
  shows "\<exists>s. rm' = rm\<lparr>rm_storage := s\<rparr> \<and> content s = content (rm_storage rm)"
proof (cases "get_from_buffer key (rm_buffer rm) = Ok None")
  case True
  obtain rg s where g: "so_get ops (rm_range_id rm) key (rm_storage rm) = (rg, s)" by fastforce
  have "rm' = rm\<lparr>rm_storage := s\<rparr>" using assms True g by (auto simp: get_locked_def Let_def split: outcome.splits)
  then show ?thesis using get_frame [OF g] by blast
next
  case False
  then have "rm' = rm" using assms by (auto simp: get_locked_def Let_def split: outcome.splits option.splits)
  then show ?thesis by (intro exI [where x = "rm_storage rm"]) simp
qed

lemma range_get_frame:
  assumes "range_get ops t0 t1 ch tx key rm = (r, rm')"
  shows "rm' = rm \<or> (\<exists>ld r1 ld1 s. rm_state rm = RangeLoaded ld \<and> acquire_range_lock t0 t1 ch tx ld = (r1, ld1) \<and>
    rm' = rm\<lparr>rm_storage := s, rm_state := RangeLoaded ld1\<rparr> \<and> content s = content (rm_storage rm))"
proof (cases "\<exists>ld. rm_state rm = RangeLoaded ld \<and> rm' \<noteq> rm")
  case False
  then show ?thesis using assms by (auto simp: range_get_def split: range_state.splits)
next
  case True
  then obtain ld where ld: "rm_state rm = RangeLoaded ld" "rm' \<noteq> rm" by blast
  obtain r1 ld1 where a: "acquire_range_lock t0 t1 ch tx ld = (r1, ld1)" by fastforce
  let ?rm1 = "rm\<lparr>rm_state := RangeLoaded ld1\<rparr>"
  have "progress_of (get_locked ops key ld1 ?rm1) ?rm1 r1 = (r, rm')"
    using assms ld a by (auto simp: range_get_def Let_def split: if_splits)
  then have c: "rm' = ?rm1 \<or> rm' = snd (get_locked ops key ld1 ?rm1)" by (rule progress_of_snd)
  obtain s where "snd (get_locked ops key ld1 ?rm1) = ?rm1\<lparr>rm_storage := s\<rparr> \<and> content s = content (rm_storage rm)"
    using get_locked_frame [of key ld1 ?rm1] by (cases "get_locked ops key ld1 ?rm1") auto
  then have "rm' = rm\<lparr>rm_storage := rm_storage rm, rm_state := RangeLoaded ld1\<rparr> \<or>
      rm' = rm\<lparr>rm_storage := s, rm_state := RangeLoaded ld1\<rparr> \<and> content s = content (rm_storage rm)"
    using c by auto
  then show ?thesis using ld(1) a by blast
qed

lemma prefetch_get_frame:
  assumes "prefetch_get ops key rm = (r, rm')"
  shows "\<exists>s. rm' = rm\<lparr>rm_storage := s\<rparr> \<and> content s = content (rm_storage rm) \<and>
    (\<forall>v. r = Ok v \<longrightarrow> v = content (rm_storage rm) (frid_range_id (rm_range_id rm)) key)"
proof -
  obtain rg s where g: "so_get ops (rm_range_id rm) key (rm_storage rm) = (rg, s)" by fastforce
  show ?thesis using assms g get_frame [OF g] get_value [of "rm_range_id rm" key "rm_storage rm" _ s]
    by (auto simp: prefetch_get_def)
qed

lemma renew_iteration_frame:
  assumes "renew_epoch_lease_iteration ops n epoch rm = (r, rm')"
  shows "\<exists>s st. rm' = rm\<lparr>rm_storage := s, rm_state := st\<rparr> \<and> content s = content (rm_storage rm) \<and>
    (st = rm_state rm \<or>
     (\<exists>ld ld'. rm_state rm = RangeLoaded ld \<and> st = RangeLoaded ld' \<and> ld_lock_table ld' = ld_lock_table ld))"
proof (cases "\<exists>e old new l. epoch = Ok e \<and> renew_task_plan n e rm = RenewLease old new l")
  case False
  then have "rm' = rm"
    using assms by (auto simp: renew_epoch_lease_iteration_def split: outcome.splits renew_plan.splits)
  then show ?thesis by (intro exI [where x = "rm_storage rm"] exI [where x = "rm_state rm"]) simp
next
  case True
  then obtain e old new l where p: "epoch = Ok e" "renew_task_plan n e rm = RenewLease old new l" by blast
  obtain rr s where w: "so_renew_epoch_lease ops (rm_range_id rm) new l (rm_storage rm) = (rr, s)" by fastforce
  have c: "content s = content (rm_storage rm)" using renew_frame [OF w] by blast
  have "rm' = rm\<lparr>rm_storage := s\<rparr> \<or> rm' = snd (renew_task_finish old new (e + 1) (rm\<lparr>rm_storage := s\<rparr>))"
    using assms p w by (auto simp: renew_epoch_lease_iteration_def split: outcome.splits)
  then show ?thesis
  proof
    assume "rm' = rm\<lparr>rm_storage := s\<rparr>"
    then show ?thesis using c by (intro exI [where x = s] exI [where x = "rm_state rm"]) simp
  next
    assume f: "rm' = snd (renew_task_finish old new (e + 1) (rm\<lparr>rm_storage := s\<rparr>))"
    show ?thesis
      using f c by (intro exI [where x = s] exI [where x = "rm_state rm'"])
        (auto simp: renew_task_finish_def split: range_state.splits)
  qed
qed

end

lemma range_abort_other:
  "range_abort wops alive now u a rm = (r, rm', sent) \<Longrightarrow> rm_state rm = RangeLoaded ld \<Longrightarrow>
     \<not> is_currently_holding u (ld_lock_table ld) \<Longrightarrow> rm' = rm"
  by (simp add: range_abort_def)

lemma range_commit_other:
  "range_commit ops wops alive now u c rm = (r, rm', sent) \<Longrightarrow> rm_state rm = RangeLoaded ld \<Longrightarrow>
     \<not> is_currently_holding u (ld_lock_table ld) \<Longrightarrow> rm' = rm"
  by (simp add: range_commit_def)

lemma finish_transaction_frame:
  assumes "finish_transaction alive now t ld rm = (r, rm', sent)"
  shows "rm_storage rm' = rm_storage rm \<and> rm_range_id rm' = rm_range_id rm \<and>
    (rm_buffer rm' = rm_buffer rm \<or> rm_buffer rm' = process_transaction_complete t (rm_buffer rm))"
  using assms by (auto simp: finish_transaction_def Let_def split: prod.splits outcome.splits)

lemma range_abort_frame:
  assumes "range_abort wops alive now t a rm = (r, rm', sent)"
  shows "rm_storage rm' = rm_storage rm \<and> rm_range_id rm' = rm_range_id rm \<and>
    (rm_buffer rm' = rm_buffer rm \<or> rm_buffer rm' = process_transaction_complete t (rm_buffer rm))"
  using assms finish_transaction_frame [of alive now t _ _ r rm' sent]
  by (fastforce simp: range_abort_def split: range_state.splits if_splits outcome.splits prod.splits)

lemma buffer_step_frame:
  "prefetch_begin t key rm = (pr, rm') \<Longrightarrow>
     \<exists>q buf. process_prefetch_request_start t key (rm_buffer rm) = (q, buf) \<and> rm' = rm\<lparr>rm_buffer := buf\<rparr>"
  "prefetch_retry key n rm = (pr, rm') \<Longrightarrow> \<exists>buf. rm' = rm\<lparr>rm_buffer := buf\<rparr>"
  "prefetch_finish key n res rm = (rf, rm') \<Longrightarrow> \<exists>buf. rm' = rm\<lparr>rm_buffer := buf\<rparr>"
  by (auto simp: prefetch_begin_def prefetch_retry_def prefetch_finish_def Let_def split: prod.splits outcome.splits
      intro: exI [where x = "rm_buffer rm"])

context range_store
begin

text \<open>An event that does not end \<open>t\<close> leaves the lock of \<open>t\<close> and the content of the store alone.\<close>

lemma step_isolated:
  assumes "range_step ops wops ev s s'" "\<not> ends t ev" "holds_lock t s"
  shows "holds_lock t s' \<and> content (rm_storage (sys_rm s')) = content (rm_storage (sys_rm s))"
proof -
  obtain ld where ld: "rm_state (sys_rm s) = RangeLoaded ld" "lock_inv (ld_lock_table ld)"
      "is_currently_holding t (ld_lock_table ld)"
    using assms(3) by (auto simp: holds_lock_def)
  show ?thesis using assms(1)
  proof cases
    case (rs_get t0 t1 ch tx key r rm')
    then show ?thesis
      using range_get_frame [OF rs_get(3)] assms(3) ld keeps_holder [OF _ ld(2,3)] by (fastforce simp: holds_lock_def)
  next
    case (rs_get_locked ld2 u key r rm')
    then show ?thesis using get_locked_frame [OF rs_get_locked(5)] ld by (fastforce simp: holds_lock_def)
  next
    case (rs_prepare t0 t1 ch tx p r rm')
    then show ?thesis
      using range_prepare_frame [OF rs_prepare(3)] assms(3) ld keeps_holder [OF _ ld(2,3)] by (fastforce simp: holds_lock_def)
  next
    case (rs_prepare_locked ld2 u p r rm')
    then show ?thesis using prepare_locked_frame [OF rs_prepare_locked(5,3)] ld by (fastforce simp: holds_lock_def)
  next
    case (rs_commit alive now u c r rm' sent)
    then have "rm' = sys_rm s"
      using range_commit_other [OF rs_commit(3) ld(1)] holding_unique [OF ld(3)] assms(2) by auto
    then show ?thesis using rs_commit assms(3) by simp
  next
    case (rs_abort alive now u a r rm' sent)
    then have "rm' = sys_rm s"
      using range_abort_other [OF rs_abort(3) ld(1)] holding_unique [OF ld(3)] assms(2) by auto
    then show ?thesis using rs_abort assms(3) by simp
  next
    case (rs_prefetch u key pr rm')
    then show ?thesis using buffer_step_frame(1) [OF rs_prefetch(3)] ld by (auto simp: holds_lock_def)
  next
    case (rs_fetch_read key v rm' n)
    then show ?thesis using prefetch_get_frame [OF rs_fetch_read(3)] ld by (auto simp: holds_lock_def)
  next
    case (rs_fetch_complete key n v rf rm')
    then show ?thesis using buffer_step_frame(3) [OF rs_fetch_complete(4)] ld by (auto simp: holds_lock_def)
  next
    case (rs_fetch_failed key n e rf rm')
    then show ?thesis using buffer_step_frame(3) [OF rs_fetch_failed(3)] ld by (auto simp: holds_lock_def)
  next
    case (rs_retry key n pr rm')
    then show ?thesis using buffer_step_frame(2) [OF rs_retry(3)] ld by (auto simp: holds_lock_def)
  next
    case (rs_renew n epoch rr rm')
    then show ?thesis using renew_iteration_frame [OF rs_renew(3)] ld by (fastforce simp: holds_lock_def)
  qed
qed

lemma upsert_content:
  assumes "so_upsert ops r k v ver s = (Ok u, s')" "fresh (kv_epoch ver) (frid_range_id r) k s"
  shows "content s' (frid_range_id r) = (content s (frid_range_id r))(k := Some v)"
  using upsert_value [OF assms] upsert_frame [OF assms(1), of "frid_range_id r"] by (fastforce simp: fun_eq_iff)

lemma delete_content:
  assumes "so_delete ops r k ver s = (Ok u, s')" "fresh (kv_epoch ver) (frid_range_id r) k s"
  shows "content s' (frid_range_id r) = (content s (frid_range_id r))(k := None)"
  using delete_value [OF assms] delete_frame [OF assms(1), of "frid_range_id r"] by (fastforce simp: fun_eq_iff)

lemma apply_puts_coherent:
  assumes "apply_puts ops r ver puts (s, buf) = (Ok u, s', buf')" "distinct (map put_key puts)"
    and "\<And>k. Some k \<in> set (map put_key puts) \<Longrightarrow> fresh (kv_epoch ver) (frid_range_id r) k s"
    and "coherent (content s (frid_range_id r)) fl buf"
  shows "coherent (content s' (frid_range_id r)) fl buf'"
  using assms
proof (induction puts arbitrary: s buf)
  case (Cons p puts)
  obtain k v s1 where kv: "put_key p = Some k" "so_upsert ops r k v ver s = (Ok (), s1)"
      and rest: "apply_puts ops r ver puts (s1, pb_upsert k v buf) = (Ok u, s', buf')"
    using Cons.prems(1) by (auto split: option.splits outcome.splits prod.splits)
  have k: "fresh (kv_epoch ver) (frid_range_id r) k s" using Cons.prems(3) [of k] kv(1) by simp
  have notin: "Some k \<notin> set (map put_key puts)" using Cons.prems(2) kv(1) by (metis distinct.simps(2) list.simps(9))
  have fr: "fresh (kv_epoch ver) (frid_range_id r) l s1" if "Some l \<in> set (map put_key puts)" for l
    using that notin upsert_frame [OF kv(2), of "frid_range_id r" l "kv_epoch ver"] Cons.prems(3) [of l] by force
  have "coherent (content s1 (frid_range_id r)) fl (pb_upsert k v buf)"
    unfolding upsert_content [OF kv(2) k] by (rule coherent_upsert [OF Cons.prems(4)])
  then show ?case using Cons.IH [OF rest _ fr] Cons.prems(2) by simp
qed simp

lemma apply_deletes_coherent:
  assumes "apply_deletes ops r ver dels (s, buf) = (Ok u, s', buf')" "distinct dels"
    and "\<And>k. Some k \<in> set dels \<Longrightarrow> fresh (kv_epoch ver) (frid_range_id r) k s"
    and "coherent (content s (frid_range_id r)) fl buf"
  shows "coherent (content s' (frid_range_id r)) fl buf'"
  using assms
proof (induction dels arbitrary: s buf)
  case (Cons d dels)
  obtain k s1 where k: "d = Some k" "so_delete ops r k ver s = (Ok (), s1)"
      and rest: "apply_deletes ops r ver dels (s1, pb_delete k buf) = (Ok u, s', buf')"
    using Cons.prems(1) by (cases d) (auto split: outcome.splits prod.splits)
  have f: "fresh (kv_epoch ver) (frid_range_id r) k s" using Cons.prems(3) [of k] k(1) by simp
  have fr: "fresh (kv_epoch ver) (frid_range_id r) l s1" if "Some l \<in> set dels" for l
    using that delete_frame [OF k(2), of "frid_range_id r" l "kv_epoch ver"] Cons.prems(2,3) k(1) by auto
  have "coherent (content s1 (frid_range_id r)) fl (pb_delete k buf)"
    unfolding delete_content [OF k(2) f] by (rule coherent_delete [OF Cons.prems(4)])
  then show ?case using Cons.IH [OF rest _ fr] Cons.prems(2) by simp
qed simp

lemma apply_writes_coherent:
  assumes "apply_writes ops r ver p (s, buf) = (Ok u, s', buf')" "distinct (written_keys p)"
    and "\<And>k. Some k \<in> set (written_keys p) \<Longrightarrow> fresh (kv_epoch ver) (frid_range_id r) k s"
    and "coherent (content s (frid_range_id r)) fl buf"
  shows "coherent (content s' (frid_range_id r)) fl buf'"
proof -
  let ?puts = "table_list (pq_puts p)" and ?dels = "table_list (pq_deletes p)"
  obtain s1 b1 where p: "apply_puts ops r ver ?puts (s, buf) = (Ok (), s1, b1)"
      and d: "apply_deletes ops r ver ?dels (s1, b1) = (Ok u, s', buf')"
    using assms(1) by (auto simp: apply_writes_def split: outcome.splits prod.splits)
  have dist: "distinct (map put_key ?puts)" "distinct ?dels" "set (map put_key ?puts) \<inter> set ?dels = {}"
    using assms(2) by (auto simp: written_keys_def)
  have fr: "fresh (kv_epoch ver) (frid_range_id r) k s1" if "Some k \<in> set ?dels" for k
    using that apply_puts_frame [OF p, of "frid_range_id r" k] assms(3) [of k] dist(3) by (auto simp: written_keys_def)
  have "coherent (content s1 (frid_range_id r)) fl b1"
    using assms(3) by (intro apply_puts_coherent [OF p dist(1) _ assms(4)]) (auto simp: written_keys_def)
  then show ?thesis using apply_deletes_coherent [OF d dist(2) fr] by blast
qed

end

section \<open>Agreement of buffer and storage\<close>

definition sys_coherent :: "('s \<Rightarrow> uuid \<Rightarrow> bytes \<Rightarrow> bytes option) \<Rightarrow> ('s, 'w) range_sys \<Rightarrow> bool" where
  "sys_coherent content s \<longleftrightarrow>
     coherent (content (rm_storage (sys_rm s)) (frid_range_id (rm_range_id (sys_rm s)))) (sys_fetches s) (rm_buffer (sys_rm s))"

context range_store
begin

lemma step_coherent:
  assumes "range_step ops wops ev s s'" "clean_event fresh s ev" "sys_coherent content s"
  shows "sys_coherent content s'"
  using assms(1)
proof cases
  case (rs_get t0 t1 ch tx key r rm')
  then show ?thesis using range_get_frame [OF rs_get(3)] assms(3) by (auto simp: sys_coherent_def)
next
  case (rs_get_locked ld u key r rm')
  then show ?thesis using get_locked_frame [OF rs_get_locked(5)] assms(3) by (auto simp: sys_coherent_def)
next
  case (rs_prepare t0 t1 ch tx p r rm')
  then show ?thesis using range_prepare_frame [OF rs_prepare(3)] assms(3) by (auto simp: sys_coherent_def same_shared_def)
next
  case (rs_prepare_locked ld u p r rm')
  then show ?thesis
    using prepare_locked_frame [OF rs_prepare_locked(5,3)] assms(3) by (auto simp: sys_coherent_def same_shared_def)
next
  case (rs_commit alive now u c r rm' sent)
  have ok: "r = Ok ()" "clean_commit fresh u c (sys_rm s)" using assms(2) rs_commit(1) by auto
  obtain ld where ld: "rm_state (sys_rm s) = RangeLoaded ld"
    using rs_commit(3) ok(1) by (auto simp: range_commit_def split: range_state.splits)
  show ?thesis
  proof (cases "is_currently_holding u (ld_lock_table ld)")
    case False
    then show ?thesis using range_commit_other [OF rs_commit(3) ld] rs_commit assms(3) by simp
  next
    case True
    show ?thesis
    proof (rule range_commit_OkE [OF rs_commit(3) [unfolded ok(1)] ld True])
      fix w p st buf lt
      assume p: "ld_pending_prepare_records ld u = Some p"
        and a: "apply_writes ops (rm_range_id (sys_rm s)) \<lparr>kv_epoch = cq_epoch c, kv_version_counter = cq_vid c\<rparr> p
          (rm_storage (sys_rm s), rm_buffer (sys_rm s)) = (Ok (), st, buf)"
        and rm': "rm' = (sys_rm s)\<lparr>rm_storage := st, rm_wal := w, rm_buffer := process_transaction_complete u buf,
          rm_state := RangeLoaded (ld\<lparr>ld_highest_known_epoch := max (ld_highest_known_epoch ld) (cq_epoch c),
            ld_lock_table := lt, ld_pending_prepare_records := (ld_pending_prepare_records ld)(u := None)\<rparr>)\<rparr>"
      have "coherent (content st (frid_range_id (rm_range_id (sys_rm s)))) (sys_fetches s) buf"
        using ok(2) ld p assms(3)
        by (intro apply_writes_coherent [OF a]) (auto simp: clean_commit_def sys_coherent_def)
      then show ?thesis
        using coherent_transaction_complete rm' rs_commit(2) by (simp add: sys_coherent_def)
    qed
  qed
next
  case (rs_abort alive now u a r rm' sent)
  then show ?thesis
    using range_abort_frame [OF rs_abort(3)] assms(3) coherent_transaction_complete by (auto simp: sys_coherent_def)
next
  case (rs_prefetch u key pr rm')
  then show ?thesis
    using buffer_step_frame(1) [OF rs_prefetch(3)] assms(3) coherent_start by (auto simp: sys_coherent_def)
next
  case (rs_fetch_read key v rm' n)
  then show ?thesis
    using prefetch_get_frame [OF rs_fetch_read(3)] assms(3) coherent_read by (fastforce simp: sys_coherent_def)
next
  case (rs_fetch_complete key n v rf rm')
  have "coherent (content (rm_storage (sys_rm s)) (frid_range_id (rm_range_id (sys_rm s)))) (remove1 (key, n, v) (sys_fetches s))
      (fetch_complete key v n (rm_buffer (sys_rm s)))"
    using coherent_fewer [OF coherent_complete] set_remove1_subset rs_fetch_complete(3) assms(3)
    unfolding sys_coherent_def by metis
  then show ?thesis using rs_fetch_complete by (auto simp: sys_coherent_def prefetch_finish_def)
next
  case (rs_renew n epoch rr rm')
  then show ?thesis using renew_iteration_frame [OF rs_renew(3)] assms(3) by (auto simp: sys_coherent_def)
qed (use assms(2) in simp_all)

lemma coherent_get:
  assumes "sys_coherent content s" "get_locked ops key ld (sys_rm s) = (Ok g, rm')"
  shows "gr_val g = content (rm_storage (sys_rm s)) (frid_range_id (rm_range_id (sys_rm s))) key"
proof -
  let ?rm = "sys_rm s"
  note d = coherentD [OF assms(1) [unfolded sys_coherent_def], where k = key]
  show ?thesis
  proof (cases "key_state_map (rm_buffer ?rm) key = Some Fetched")
    case True
    then show ?thesis using d(2) assms(2) by (auto simp: get_locked_def get_from_buffer_def split: option.splits)
  next
    case False
    obtain rg st where g: "so_get ops (rm_range_id ?rm) key (rm_storage ?rm) = (rg, st)" by fastforce
    show ?thesis
      using assms(2) False g get_value [of "rm_range_id ?rm" key "rm_storage ?rm" _ st]
      by (auto simp: get_locked_def get_from_buffer_def split: outcome.splits)
  qed
qed

end

interpretation coh: invariant_system range_sys_init "clean_step db_fresh (cassandra_ops tie)" "sys_coherent db_content"
  for tie
proof
  fix s :: "(storage_db, 'w) range_sys" assume "range_sys_init s"
  then show "sys_coherent db_content s" by (simp add: range_sys_init_def sys_coherent_def coherent_new)
next
  fix s t :: "(storage_db, 'w) range_sys" assume c: "sys_coherent db_content s" "clean_step db_fresh (cassandra_ops tie) s t"
  then obtain ops wops ev where "cassandra_ops tie ops" "range_step ops wops ev s t" "clean_event db_fresh s ev"
    by (auto simp: clean_step_def)
  then show "sys_coherent db_content t"
    using range_store.step_coherent [OF cassandra_ops_range_store] c(1) by metis
qed

section \<open>Properties\<close>



section \<open>Observations\<close>

text \<open>
  With failing fetches the buffer can serve an old value. Two requests that wait for a fetch both retry with its
  number, so two fetches with one number run at the same time.
\<close>

lemma retry_shares_number:
  "key_state_map st k = Some (Loading n) \<or> key_state_map st k = Some (Requested n) \<Longrightarrow>
     fst (process_prefetch_request_retry k n st) = Ok (Requested n) \<and>
     key_state_map (snd (process_prefetch_request_retry k n st)) k = Some (Loading n)"
  by (auto simp: process_prefetch_request_retry_def change_to_loading_case)

text \<open>
  One of them reads the old value; the other one fails, so that the key is marked as requested; a commit that
  writes the key now stores its value but leaves the mark; the next request turns it into
  loading, still with the same number, and the first fetch overwrites the committed value.
\<close>

lemma stale_value_after_failed_fetch:
  assumes "key_state_map st k = Some (Loading n)"
  shows "get_from_buffer k (fetch_complete k (Some old) n
    (snd (process_prefetch_request_start t k (pb_upsert k new (fetch_failed k n st))))) = Ok (Some old)"
proof -
  let ?st = "pb_upsert k new (fetch_failed k n st)"
  have r: "key_state_map ?st k = Some (Requested n)"
    using assms by (simp add: pb_upsert_def fetch_failed_def Let_def)
  obtain q st' where start: "process_prefetch_request_start t k ?st = (q, st')" by fastforce
  have "key_state_map st' k = Some (Loading n)"
    using start r by (cases rule: start_cases) (auto simp: register_key_state)
  then show ?thesis using start by (simp add: fetch_complete_def get_from_buffer_def)
qed

section \<open>Witnesses\<close>


lemma clean_stepI:
  "range_step (cassandra_storage ex_exec) wops ev s s' \<Longrightarrow> clean_event fresh s ev \<Longrightarrow>
     clean_step fresh (cassandra_ops larger_wins) s s'"
  unfolding clean_step_def using cassandra_ops_reliable by blast

definition ex_one_db :: storage_db where
  "ex_one_db = snd (storage_upsert ex_exec ex_range [1] [9] \<lparr>kv_epoch = 7, kv_version_counter = 0\<rparr> ex_db)"

definition ex_fresh_rm :: "(storage_db, in_mem_wal) range_manager" where
  "ex_fresh_rm = ex_rm\<lparr>rm_storage := ex_one_db,
     rm_state := RangeLoaded (loaded_state_new (ld_range_info ex_loaded) 3)\<rparr>"

definition ex_fetching_rm :: "(storage_db, in_mem_wal) range_manager" where
  "ex_fetching_rm = snd (prefetch_begin 5 [1] ex_fresh_rm)"

lemma ex_fetching_simps:
  "rm_storage ex_fetching_rm = ex_one_db" "rm_range_id ex_fetching_rm = ex_range"
  "fetch_sequence_number (rm_buffer ex_fetching_rm) = 1"
  "key_state_map (rm_buffer ex_fetching_rm) [1] = Some (Loading 1)"
  by (simp_all add: ex_fetching_rm_def ex_fresh_rm_def ex_rm_def prefetch_begin_def process_prefetch_request_start_def
      register_prefetch_request_def pb_new_def add_to_transaction_keys_def add_to_key_transactions_def
      change_keystate_to_loading_def)

lemma ex_one_get: "storage_get ex_exec ex_range [1] ex_one_db = (Ok (Some [9]), ex_one_db)"
  by (simp add: ex_one_db_def storage_get_def storage_upsert_def reliable_def ex_db_def write_row_def empty_row_def
      ex_range_def)


end
