(* ===== verification/Lease_Protocol.thy ===== *)
theory Lease_Protocol
  imports Range_Manager
begin

text \<open>
  The epoch leases of a range when several range servers load it one after the other. The servers share the
  storage; they take the range over, get a first lease (the end of \<open>load_inner\<close>) and
  renew it (\<open>renew_epoch_lease_iteration\<close>) with the functions of \<open>Range_Manager\<close>. Each of the
  three is a step, and the steps of different servers interleave in any order, with any failures
  of the database. A takeover is one step; two takeovers that overlap can get the same leader
  number (\<open>take_ownership_split_brain\<close>).
\<close>

section \<open>Definitions\<close>

text \<open>
  Servers are known by the leader sequence number they were given: \<open>lz_pending\<close> maps it to the lease found at the
  takeover, \<open>lz_current\<close> to the lease in the loaded state whose renewal task still
  runs. \<open>lz_history\<close> has all leases that were ever in a loaded state.
\<close>

record 's lease_sys =
  lz_store :: 's
  lz_pending :: "u64 \<rightharpoonup> u64 \<times> u64"
  lz_current :: "u64 \<rightharpoonup> u64 \<times> u64"
  lz_history :: "(u64 \<times> u64 \<times> u64) list"

text \<open>The sums of the new lease do not overflow.\<close>

definition lease_room :: "u64 \<Rightarrow> u64 \<Rightarrow> u64 \<times> u64 \<Rightarrow> bool" where
  "lease_room n epoch old \<longleftrightarrow> unat (snd old) + unat n + 1 < 2 ^ 64 \<and> unat epoch + unat n + 1 < 2 ^ 64"

inductive lease_step ::
  "('s storage_ops \<Rightarrow> bool) \<Rightarrow> full_range_id \<Rightarrow> ('s \<Rightarrow> uuid \<Rightarrow> (u64 \<times> u64 \<times> u64) option) \<Rightarrow> 's lease_sys \<Rightarrow> 's lease_sys \<Rightarrow> bool"
  for P r lease where
  take_over: "P ops \<Longrightarrow> so_take_ownership_and_load_range ops r (lz_store s) = (res, st) \<Longrightarrow>
    (\<And>m el. lease (lz_store s) (frid_range_id r) = Some (m, el) \<Longrightarrow> m \<noteq> - 1) \<Longrightarrow>
    lease_step P r lease s (s\<lparr>lz_store := st, lz_pending :=
      (case res of Ok info \<Rightarrow> (lz_pending s)(ri_leader_sequence_number info \<mapsto> ri_epoch_lease info) | _ \<Rightarrow> lz_pending s)\<rparr>)"
| first_lease: "P ops \<Longrightarrow> lz_pending s n = Some stored \<Longrightarrow> lease_room len epoch stored \<Longrightarrow>
    so_renew_epoch_lease ops r (initial_lease len (epoch + 1) stored) n (lz_store s) = (res2, st) \<Longrightarrow>
    lease_step P r lease s (if is_ok res2
      then s\<lparr>lz_store := st, lz_pending := (lz_pending s)(n := None),
             lz_current := (lz_current s)(n \<mapsto> initial_lease len (epoch + 1) stored),
             lz_history := (n, initial_lease len (epoch + 1) stored) # lz_history s\<rparr>
      else s\<lparr>lz_store := st, lz_pending := (lz_pending s)(n := None)\<rparr>)"
| renewal: "P ops \<Longrightarrow> lz_current s n = Some old \<Longrightarrow> lease_room len epoch old \<Longrightarrow>
    renewed_lease len epoch old = Some new \<Longrightarrow>
    so_renew_epoch_lease ops r new n (lz_store s) = (res2, st) \<Longrightarrow>
    lease_step P r lease s (if is_ok res2
      then s\<lparr>lz_store := st, lz_current := (lz_current s)(n \<mapsto> new), lz_history := (n, new) # lz_history s\<rparr>
      else s\<lparr>lz_store := st, lz_current := (lz_current s)(n := None)\<rparr>)"

definition lease_sys_init :: "full_range_id \<Rightarrow> storage_db lease_sys \<Rightarrow> bool" where
  "lease_sys_init r s \<longleftrightarrow> db_wf (lz_store s) \<and> db_lease (lz_store s) (frid_range_id r) \<noteq> None \<and>
     lz_pending s = Map.empty \<and> lz_current s = Map.empty \<and> lz_history s = []"

definition lease_inv :: "('s \<Rightarrow> bool) \<Rightarrow> ('s \<Rightarrow> uuid \<Rightarrow> (u64 \<times> u64 \<times> u64) option) \<Rightarrow> full_range_id \<Rightarrow> 's lease_sys \<Rightarrow> bool" where
  "lease_inv valid lease r s \<longleftrightarrow> valid (lz_store s) \<and> (\<exists>m el. lease (lz_store s) (frid_range_id r) = Some (m, el) \<and>
     (\<forall>n. m < n \<longrightarrow> lz_pending s n = None \<and> lz_current s n = None) \<and>
     (\<forall>el'. lz_pending s m = Some el' \<longrightarrow> el' = el \<and> lz_current s m = None) \<and>
     (\<forall>el'. lz_current s m = Some el' \<longrightarrow> el' = el \<and> (m, el) \<in> set (lz_history s)) \<and>
     (\<forall>n x y. (n, x, y) \<in> set (lz_history s) \<longrightarrow> n \<le> m \<and> y \<le> snd el) \<and>
     (\<forall>n1 x1 y1 n2 x2 y2. (n1, x1, y1) \<in> set (lz_history s) \<longrightarrow> (n2, x2, y2) \<in> set (lz_history s) \<longrightarrow>
        n1 < n2 \<longrightarrow> y1 < x2))"

section \<open>The invariant\<close>

lemma lease_invI:
  assumes "valid (lz_store s)" "lease (lz_store s) (frid_range_id r) = Some (m, el)"
    and "\<And>n. m < n \<Longrightarrow> lz_pending s n = None \<and> lz_current s n = None"
    and "\<And>el'. lz_pending s m = Some el' \<Longrightarrow> el' = el \<and> lz_current s m = None"
    and "\<And>el'. lz_current s m = Some el' \<Longrightarrow> el' = el \<and> (m, el) \<in> set (lz_history s)"
    and "\<And>n x y. (n, x, y) \<in> set (lz_history s) \<Longrightarrow> n \<le> m \<and> y \<le> snd el"
    and "\<And>n1 x1 y1 n2 x2 y2. (n1, x1, y1) \<in> set (lz_history s) \<Longrightarrow> (n2, x2, y2) \<in> set (lz_history s) \<Longrightarrow>
        n1 < n2 \<Longrightarrow> y1 < x2"
  shows "lease_inv valid lease r s"
  using assms unfolding lease_inv_def by blast

lemma lease_invE:
  assumes "lease_inv valid lease r s"
  obtains m el where "valid (lz_store s)" "lease (lz_store s) (frid_range_id r) = Some (m, el)"
    and "\<And>n. m < n \<Longrightarrow> lz_pending s n = None" "\<And>n. m < n \<Longrightarrow> lz_current s n = None"
    and "\<And>el'. lz_pending s m = Some el' \<Longrightarrow> el' = el \<and> lz_current s m = None"
    and "\<And>el'. lz_current s m = Some el' \<Longrightarrow> el' = el \<and> (m, el) \<in> set (lz_history s)"
    and "\<And>n x y. (n, x, y) \<in> set (lz_history s) \<Longrightarrow> n \<le> m \<and> y \<le> snd el"
    and "\<And>n1 x1 y1 n2 x2 y2. (n1, x1, y1) \<in> set (lz_history s) \<Longrightarrow> (n2, x2, y2) \<in> set (lz_history s) \<Longrightarrow>
        n1 < n2 \<Longrightarrow> y1 < x2"
  using assms unfolding lease_inv_def by (elim conjE exE, intro that) (assumption | blast)+

text \<open>A lease that was granted to the current leader on top of the stored one.\<close>

lemma lease_inv_granted:
  assumes inv: "lease_inv valid lease r s" and m: "lease (lz_store s) (frid_range_id r) = Some (m, el)"
    and st: "valid st" "lease st (frid_range_id r) = Some (m, new)" and up: "snd el \<le> snd new"
    and low: "snd el < fst new \<or> fst new = fst el \<and> (m, el) \<in> set (lz_history s)"
    and s': "lz_store s' = st" "lz_history s' = (m, new) # lz_history s" "lz_current s' = (lz_current s)(m \<mapsto> new)"
      "\<And>n. m \<le> n \<Longrightarrow> lz_pending s' n = None"
  shows "lease_inv valid lease r s'"
  using inv
proof (cases rule: lease_invE)
  case (1 m0 el0)
  then have [simp]: "m0 = m" "el0 = el" using m by auto
  have first: "y < fst new" if "(n, x, y) \<in> set (lz_history s)" "n < m" for n x y
    using low
  proof
    assume "snd el < fst new"
    then show ?thesis using 1(7) [OF that(1)] by auto
  next
    assume l: "fst new = fst el \<and> (m, el) \<in> set (lz_history s)"
    then have "(m, fst el, snd el) \<in> set (lz_history s)" by simp
    from 1(8) [OF that(1) this that(2)] show ?thesis using l by simp
  qed
  show ?thesis
  proof (rule lease_invI [where m = m and el = new], goal_cases)
    case (6 n x y)
    then show ?case using s'(2) 1(7) [of n x y] up by auto
  next
    case (7 n1 x1 y1 n2 x2 y2)
    then show ?case using s'(2) 1(8) [of n1 x1 y1 n2 x2 y2] 1(7) [of n2 x2 y2] first [of n1 x1 y1] by auto
  qed (use s' st 1(4) in auto)
qed

text \<open>A step that adds no lease: the store may have moved on to another lease of the same leader that is larger.\<close>

lemma lease_inv_lost:
  assumes inv: "lease_inv valid lease r s" and m: "lease (lz_store s) (frid_range_id r) = Some (m, el)"
    and st: "valid st" "lease st (frid_range_id r) = Some (m, new)" and up: "snd el \<le> snd new"
    and s': "lz_store s' = st" "lz_history s' = lz_history s"
      "\<And>n. m < n \<Longrightarrow> lz_pending s' n = None" "\<And>n. m < n \<Longrightarrow> lz_current s' n = None"
      "new = el \<and> lz_pending s' m \<in> {None, lz_pending s m} \<and> lz_current s' m \<in> {None, lz_current s m} \<or>
       lz_pending s' m = None \<and> lz_current s' m = None"
  shows "lease_inv valid lease r s'"
  using inv
proof (cases rule: lease_invE)
  case (1 m0 el0)
  then have [simp]: "m0 = m" "el0 = el" using m by auto
  show ?thesis
  proof (rule lease_invI [where m = m and el = new], goal_cases)
    case (4 el')
    then show ?case using s'(5) 1(5) [of el'] by auto
  next
    case (5 el')
    then show ?case using s'(2,5) 1(6) [of el'] by auto
  next
    case (6 n x y)
    then show ?case using s'(2) 1(7) [of n x y] up by auto
  next
    case (7 n1 x1 y1 n2 x2 y2)
    then show ?case using s'(2) 1(8) [of n1 x1 y1 n2 x2 y2] by auto
  qed (use s' st in auto)
qed

context range_store
begin

lemma take_over_inv:
  assumes inv: "lease_inv wf lease r s"
    and t: "so_take_ownership_and_load_range ops r (lz_store s) = (res, st)"
    and room: "\<And>m el. lease (lz_store s) (frid_range_id r) = Some (m, el) \<Longrightarrow> m \<noteq> - 1"
    and s': "s' = s\<lparr>lz_store := st, lz_pending :=
      (case res of Ok info \<Rightarrow> (lz_pending s)(ri_leader_sequence_number info \<mapsto> ri_epoch_lease info) | _ \<Rightarrow> lz_pending s)\<rparr>"
  shows "lease_inv wf lease r s'"
  using inv
proof (cases rule: lease_invE)
  case (1 m el)
  have w: "wf st" by (rule take_wf [OF t 1(1)])
  have up: "m < m + 1" using room [OF 1(2)] by (simp add: word_less_nat_alt unat_add_one)
  have gt: "m < n" if "m + 1 \<le> n" for n using up that by simp
  show ?thesis
  proof (cases "lease st (frid_range_id r) = Some (m + 1, el)")
    case True
    show ?thesis
    proof (rule lease_invI [where m = "m + 1" and el = el], goal_cases)
      case (3 n)
      then have "m < n" "n \<noteq> m + 1" using up by auto
      moreover have "ri_leader_sequence_number info = m + 1" if "res = Ok info" for info
        using take_value [OF t [unfolded that] 1(1)] 1(2) by auto
      ultimately show ?case using 1(3,4) s' by (auto split: outcome.splits)
    next
      case (4 el')
      have "ri_leader_sequence_number info = m + 1 \<and> ri_epoch_lease info = el" if "res = Ok info" for info
        using take_value [OF t [unfolded that] 1(1)] 1(2) by auto
      then show ?case using 4 1(3,4) [OF up] s' by (auto split: outcome.splits)
    next
      case (6 n x y)
      then show ?case using 1(7) [of n x y] up s' by auto
    next
      case (7 n1 x1 y1 n2 x2 y2)
      then show ?case using 1(8) [of n1 x1 y1 n2 x2 y2] s' by auto
    qed (use s' w True 1(4) [OF up] in auto)
  next
    case False
    then have st: "lease st (frid_range_id r) = Some (m, el)" using take_lease [OF t 1(1)] 1(2) by auto
    have "\<And>info. res \<noteq> Ok info" using take_value [of r "lz_store s" _ st] t 1(1,2) st up by fastforce
    then have "s' = s\<lparr>lz_store := st\<rparr>" using s' by (cases res) auto
    then show ?thesis by (intro lease_inv_lost [OF inv 1(2) w st]) (use 1(3,4) in auto)
  qed
qed

lemma renew_leader:
  assumes "lease (lz_store s) (frid_range_id r) = Some (m, el)"
    and "so_renew_epoch_lease ops r new n (lz_store s) = (res, st)"
  shows "is_ok res \<Longrightarrow> n = m \<and> lease st (frid_range_id r) = Some (m, new)"
    and "lease st (frid_range_id r) = Some (m, el) \<or> n = m \<and> lease st (frid_range_id r) = Some (m, new)"
  using renew_value [of r new n "lz_store s" _ st] renew_lease [OF assms(2)] assms by (auto simp: is_ok_iff)

lemma first_lease_inv:
  assumes inv: "lease_inv wf lease r s" and p: "lz_pending s n = Some stored" "lease_room len epoch stored"
    and w: "so_renew_epoch_lease ops r (initial_lease len (epoch + 1) stored) n (lz_store s) = (res, st)"
    and s': "s' = (if is_ok res
      then s\<lparr>lz_store := st, lz_pending := (lz_pending s)(n := None),
             lz_current := (lz_current s)(n \<mapsto> initial_lease len (epoch + 1) stored),
             lz_history := (n, initial_lease len (epoch + 1) stored) # lz_history s\<rparr>
      else s\<lparr>lz_store := st, lz_pending := (lz_pending s)(n := None)\<rparr>)"
  shows "lease_inv wf lease r s'"
  using inv
proof (cases rule: lease_invE)
  case (1 m el)
  let ?new = "initial_lease len (epoch + 1) stored"
  note l = renew_leader [OF 1(2) w] and valid = renew_wf [OF w 1(1)]
  have sh: "snd stored < fst ?new" "snd stored \<le> snd ?new"
    using initial_lease_shape [of stored len epoch] p(2) by (auto simp: lease_room_def word_le_nat_alt)
  have el: "n = m \<Longrightarrow> stored = el \<and> lz_current s m = None" using 1(5) p(1) by blast
  show ?thesis
  proof (cases "is_ok res")
    case True
    then have n: "n = m" "lease st (frid_range_id r) = Some (m, ?new)" using l(1) by auto
    show ?thesis
      by (rule lease_inv_granted [OF inv 1(2) valid n(2)]) (use sh el n(1) s' True 1(3) in \<open>auto simp: order_le_less\<close>)
  next
    case False
    show ?thesis
    proof (cases "lease st (frid_range_id r) = Some (m, el)")
      case st: True
      show ?thesis by (rule lease_inv_lost [OF inv 1(2) valid st]) (use s' False 1(3,4) in auto)
    next
      case nst: False
      then have n: "n = m" "lease st (frid_range_id r) = Some (m, ?new)" using l(2) by auto
      show ?thesis by (rule lease_inv_lost [OF inv 1(2) valid n(2)]) (use sh el n(1) s' False 1(3,4) in auto)
    qed
  qed
qed

lemma renewal_inv:
  assumes inv: "lease_inv wf lease r s" and p: "lz_current s n = Some old" "lease_room len epoch old"
    and new: "renewed_lease len epoch old = Some new"
    and w: "so_renew_epoch_lease ops r new n (lz_store s) = (res, st)"
    and s': "s' = (if is_ok res
      then s\<lparr>lz_store := st, lz_current := (lz_current s)(n \<mapsto> new), lz_history := (n, new) # lz_history s\<rparr>
      else s\<lparr>lz_store := st, lz_current := (lz_current s)(n := None)\<rparr>)"
  shows "lease_inv wf lease r s'"
  using inv
proof (cases rule: lease_invE)
  case (1 m el)
  note l = renew_leader [OF 1(2) w] and valid = renew_wf [OF w 1(1)]
  have sh: "snd old \<le> snd new" "fst new = fst old \<or> snd old < fst new"
    using renewed_lease_shape [OF new] p(2) by (auto simp: lease_room_def word_le_nat_alt)
  have el: "n = m \<Longrightarrow> old = el \<and> (m, el) \<in> set (lz_history s) \<and> lz_pending s m = None" using 1(5,6) p(1) by (metis option.exhaust)
  show ?thesis
  proof (cases "is_ok res")
    case True
    then have n: "n = m" "lease st (frid_range_id r) = Some (m, new)" using l(1) by auto
    show ?thesis
      by (rule lease_inv_granted [OF inv 1(2) valid n(2)]) (use sh el n(1) s' True 1(3) in \<open>auto simp: order_le_less\<close>)
  next
    case False
    show ?thesis
    proof (cases "lease st (frid_range_id r) = Some (m, el)")
      case st: True
      show ?thesis by (rule lease_inv_lost [OF inv 1(2) valid st]) (use s' False 1(3,4) in auto)
    next
      case nst: False
      then have n: "n = m" "lease st (frid_range_id r) = Some (m, new)" using l(2) by auto
      show ?thesis by (rule lease_inv_lost [OF inv 1(2) valid n(2)]) (use sh el n(1) s' False 1(3,4) in auto)
    qed
  qed
qed

end

interpretation leases: invariant_system "lease_sys_init r" "lease_step (cassandra_ops tie) r db_lease" "lease_inv db_wf db_lease r"
  for r tie
proof
  fix s assume "lease_sys_init r s"
  then show "lease_inv db_wf db_lease r s" by (auto simp: lease_sys_init_def lease_inv_def)
next
  fix s t assume inv: "lease_inv db_wf db_lease r s" and "lease_step (cassandra_ops tie) r db_lease s t"
  from this(2) show "lease_inv db_wf db_lease r t"
  proof cases
    case (take_over ops res st)
    show ?thesis
      by (rule range_store.take_over_inv [OF cassandra_ops_range_store [OF take_over(2)] inv take_over(3,4,1)])
  next
    case (first_lease ops n stored len epoch res st)
    show ?thesis
      by (rule range_store.first_lease_inv [OF cassandra_ops_range_store [OF first_lease(2)] inv first_lease(3-5,1)])
  next
    case (renewal ops n old len epoch new res st)
    show ?thesis
      by (rule range_store.renewal_inv [OF cassandra_ops_range_store [OF renewal(2)] inv renewal(3-6,1)])
  qed
qed

section \<open>Properties\<close>


section \<open>Witnesses\<close>

definition ex_lease_db :: "u64 \<Rightarrow> u64 \<times> u64 \<Rightarrow> storage_db" where
  "ex_lease_db n el = \<lparr>db_range_leases = [2 \<mapsto> ex_lease\<lparr>cl_leader_sequence_number := n, cl_epoch_lease := el\<rparr>],
     db_records = (\<lambda>_. [])\<rparr>"

definition ex_info :: "u64 \<Rightarrow> u64 \<times> u64 \<Rightarrow> range_info" where
  "ex_info n el = \<lparr>ri_id = 2, ri_key_range = key_range_all, ri_leader_sequence_number = n, ri_epoch_lease = el\<rparr>"

lemma ex_take:
  "so_take_ownership_and_load_range (cassandra_storage ex_exec) ex_range (ex_lease_db n el) = (Ok (ex_info (n + 1) el), ex_lease_db (n + 1) el)"
  by (simp add: cassandra_storage_def take_ownership_and_load_range_def take_ownership_acquire_def take_ownership_check_def
      get_range_lease_def reliable_def ex_lease_db_def ex_lease_def ex_range_def ex_info_def cql_key_range_def key_range_all_def)

lemma ex_renew:
  "so_renew_epoch_lease (cassandra_storage ex_exec) ex_range new n (ex_lease_db n el) = (Ok (), ex_lease_db n new)"
  by (simp add: cassandra_storage_def renew_epoch_lease_def get_range_lease_def reliable_def ex_lease_db_def ex_lease_def
      ex_range_def)

lemma ex_lease_at: "db_lease (ex_lease_db n el) (frid_range_id ex_range) = Some (n, el)"
  by (simp add: db_lease_def ex_lease_db_def ex_range_def ex_lease_def)

abbreviation ex_lease_step :: "storage_db lease_sys \<Rightarrow> storage_db lease_sys \<Rightarrow> bool" where
  "ex_lease_step \<equiv> lease_step (cassandra_ops larger_wins) ex_range db_lease"

lemma ex_tenure:
  fixes s :: "storage_db lease_sys"
  assumes "reachable (lease_sys_init ex_range) ex_lease_step s" "lz_store s = ex_lease_db n el"
    and "n \<noteq> - 1" "lease_room 5 epoch el"
  shows "\<exists>s'. reachable (lease_sys_init ex_range) ex_lease_step s' \<and>
    lz_store s' = ex_lease_db (n + 1) (initial_lease 5 (epoch + 1) el) \<and>
    lz_history s' = (n + 1, initial_lease 5 (epoch + 1) el) # lz_history s"
proof -
  let ?s1 = "s\<lparr>lz_store := ex_lease_db (n + 1) el, lz_pending := (lz_pending s)(n + 1 \<mapsto> el)\<rparr>"
  have "ex_lease_step s ?s1"
    using take_over [where P = "cassandra_ops larger_wins" and ops = "cassandra_storage ex_exec" and r = ex_range and s = s
        and lease = db_lease, OF cassandra_ops_reliable ex_take [of n el, folded assms(2)]]
      assms(2,3) by (simp add: ex_lease_at ex_info_def)
  then have r1: "reachable (lease_sys_init ex_range) ex_lease_step ?s1" by (rule reach_step [OF assms(1)])
  let ?new = "initial_lease 5 (epoch + 1) el"
  let ?s2 = "?s1\<lparr>lz_store := ex_lease_db (n + 1) ?new, lz_pending := (lz_pending ?s1)(n + 1 := None),
    lz_current := (lz_current ?s1)(n + 1 \<mapsto> ?new), lz_history := (n + 1, ?new) # lz_history ?s1\<rparr>"
  have "ex_lease_step ?s1 ?s2"
    using first_lease [where P = "cassandra_ops larger_wins" and ops = "cassandra_storage ex_exec" and r = ex_range and s = ?s1
        and lease = db_lease and n = "n + 1" and stored = el and len = 5 and epoch = epoch and ?res2.0 = "Ok ()"
        and st = "ex_lease_db (n + 1) ?new"] assms(4)
    by (simp add: ex_renew)
  then have "reachable (lease_sys_init ex_range) ex_lease_step ?s2" by (rule reach_step [OF r1])
  then show ?thesis by (intro exI [where x = ?s2]) simp
qed


end
