(* ===== verification/Warden_Handler.thy ===== *)
theory Warden_Handler
  imports Common_Types "HOL-Library.Product_Lexorder"
begin

text \<open>
  The part of a range server that follows the assignments of the warden (rangeserver/src/warden\_handler.rs). A hash
  set is a set; the order in which the source iterates over it is an argument. The parser
  of the uuid crate is an argument. The updates for the server go to an unbounded channel: the functions return the
  messages sent, and a send panics when the receiver is gone.
\<close>

section \<open>Definitions\<close>

subsection \<open>Messages (proto/src/warden.proto)\<close>

record proto_range_id =
  prid_keyspace_id :: string
  prid_range_id :: string

datatype assignment_update =
    FullAssignment (fa_version: i64) (fa_range: "proto_range_id list")
  | IncrementalAssignment (ia_version: i64) (ia_previous_version: i64) (ia_load: "proto_range_id list")
      (ia_unload: "proto_range_id list")

record proto_warden_update =
  pwu_update :: "assignment_update option"

subsection \<open>State\<close>

record warden_started_state =
  ws_cancelled :: bool
  ws_assigned_ranges :: "full_range_id set"

datatype warden_state = WardenNotStarted | WardenStarted warden_started_state | WardenStopped

datatype warden_update = LoadRange full_range_id | UnloadRange full_range_id

subsection \<open>Operations\<close>

definition full_range_id_from_proto ::
  "(string \<Rightarrow> uuid option) \<Rightarrow> proto_range_id \<Rightarrow> (unit, full_range_id) outcome" where
  "full_range_id_from_proto parse_str p =
     (case parse_str (prid_keyspace_id p) of
        None \<Rightarrow> Panic
      | Some k \<Rightarrow> (case parse_str (prid_range_id p) of
          None \<Rightarrow> Panic
        | Some r \<Rightarrow> Ok \<lparr>frid_keyspace_id = \<lparr>ksid_id = k\<rparr>, frid_range_id = r\<rparr>))"

fun ids_from_proto ::
  "(string \<Rightarrow> uuid option) \<Rightarrow> proto_range_id list \<Rightarrow> (unit, full_range_id list) outcome" where
  "ids_from_proto parse_str [] = Ok []"
| "ids_from_proto parse_str (p # ps) =
     and_then (full_range_id_from_proto parse_str p)
       (\<lambda>i. and_then (ids_from_proto parse_str ps) (\<lambda>is. Ok (i # is)))"

definition unloads_for :: "full_range_id list \<Rightarrow> full_range_id set \<Rightarrow> warden_update list" where
  "unloads_for current new_assignment = map UnloadRange (filter (\<lambda>i. i \<notin> new_assignment) current)"

definition loads_for :: "full_range_id list \<Rightarrow> full_range_id set \<Rightarrow> warden_update list" where
  "loads_for new_assignment assigned = map LoadRange (filter (\<lambda>i. i \<notin> assigned) new_assignment)"

text \<open>The loops over an incremental update; \<open>up\<close> tells whether the receiver exists.\<close>

fun incremental_loads ::
  "(string \<Rightarrow> uuid option) \<Rightarrow> bool \<Rightarrow> proto_range_id list \<Rightarrow> full_range_id set
     \<Rightarrow> (unit, unit) outcome \<times> full_range_id set \<times> warden_update list" where
  "incremental_loads parse_str up [] assigned = (Ok (), assigned, [])"
| "incremental_loads parse_str up (p # ps) assigned =
     (case full_range_id_from_proto parse_str p of
        Ok i \<Rightarrow>
          (if i \<notin> assigned \<and> \<not> up then (Panic, assigned, [])
           else (let (r, assigned', sent) = incremental_loads parse_str up ps (insert i assigned)
                 in (r, assigned', (if i \<in> assigned then sent else LoadRange i # sent))))
      | _ \<Rightarrow> (Panic, assigned, []))"

fun incremental_unloads ::
  "(string \<Rightarrow> uuid option) \<Rightarrow> bool \<Rightarrow> proto_range_id list \<Rightarrow> full_range_id set
     \<Rightarrow> (unit, unit) outcome \<times> full_range_id set \<times> warden_update list" where
  "incremental_unloads parse_str up [] assigned = (Ok (), assigned, [])"
| "incremental_unloads parse_str up (p # ps) assigned =
     (case full_range_id_from_proto parse_str p of
        Ok i \<Rightarrow>
          (if i \<in> assigned \<and> \<not> up then (Panic, assigned, [])
           else (let (r, assigned', sent) = incremental_unloads parse_str up ps (assigned - {i})
                 in (r, assigned', (if i \<in> assigned then UnloadRange i # sent else sent))))
      | _ \<Rightarrow> (Panic, assigned, []))"

definition process_warden_update ::
  "(string \<Rightarrow> uuid option) \<Rightarrow> (full_range_id set \<Rightarrow> full_range_id list) \<Rightarrow> bool \<Rightarrow> proto_warden_update \<Rightarrow> full_range_id set
     \<Rightarrow> (unit, unit) outcome \<times> full_range_id set \<times> warden_update list" where
  "process_warden_update parse_str iter up update assigned =
     (case pwu_update update of
        None \<Rightarrow> (Panic, assigned, [])
      | Some (FullAssignment _ ranges) \<Rightarrow>
          (case ids_from_proto parse_str ranges of
             Ok is \<Rightarrow>
               (let new_assignment = set is;
                    msgs = unloads_for (iter assigned) new_assignment @ loads_for (iter new_assignment) assigned
                in if msgs \<noteq> [] \<and> \<not> up then (Panic, assigned, [])
                   else (Ok (), new_assignment, msgs))
           | _ \<Rightarrow> (Panic, assigned, []))
      | Some (IncrementalAssignment _ _ load unload) \<Rightarrow>
          (case incremental_loads parse_str up load assigned of
             (Ok _, assigned1, sent1) \<Rightarrow>
               (let (r, assigned2, sent2) = incremental_unloads parse_str up unload assigned1
                in (r, assigned2, sent1 @ sent2))
           | (r, assigned1, sent1) \<Rightarrow> (r, assigned1, sent1)))"

text \<open>One message of the registration stream of the warden: \<^term>\<open>None\<close> is the end of the stream.\<close>

datatype register_exit = RegStopped | RegError string | RegPanic | RegContinue

definition register_iteration ::
  "(string \<Rightarrow> uuid option) \<Rightarrow> (full_range_id set \<Rightarrow> full_range_id list) \<Rightarrow> bool \<Rightarrow> (string, proto_warden_update option) outcome
     \<Rightarrow> warden_started_state \<Rightarrow> register_exit \<times> warden_started_state \<times> warden_update list" where
  "register_iteration parse_str iter up maybe_update st =
     (if ws_cancelled st then (RegStopped, st, [])
      else case maybe_update of
        Err e \<Rightarrow> (RegError e, st, [])
      | Panic \<Rightarrow> (RegPanic, st, [])
      | Ok None \<Rightarrow> (RegError ''connection closed with warden!'', st, [])
      | Ok (Some update) \<Rightarrow>
          (let (r, assigned, sent) = process_warden_update parse_str iter up update (ws_assigned_ranges st)
           in (if r = Ok () then RegContinue else RegPanic, st\<lparr>ws_assigned_ranges := assigned\<rparr>, sent)))"

text \<open>The loop over the messages of a stream, as long as messages arrive.\<close>

fun register_messages ::
  "(string \<Rightarrow> uuid option) \<Rightarrow> (full_range_id set \<Rightarrow> full_range_id list) \<Rightarrow> bool \<Rightarrow> (string, proto_warden_update option) outcome list
     \<Rightarrow> warden_started_state \<Rightarrow> register_exit \<times> warden_started_state \<times> warden_update list" where
  "register_messages parse_str iter up [] st = (RegContinue, st, [])"
| "register_messages parse_str iter up (m # ms) st =
     (case register_iteration parse_str iter up m st of
        (RegContinue, st', sent) \<Rightarrow>
          (let (e, st'', sent') = register_messages parse_str iter up ms st' in (e, st'', sent @ sent'))
      | (e, st', sent) \<Rightarrow> (e, st', sent))"

definition warden_handler_new :: warden_state where
  "warden_handler_new = WardenNotStarted"

definition warden_handler_start :: "bool \<Rightarrow> warden_state \<Rightarrow> (string, unit) outcome \<times> warden_state" where
  "warden_handler_start region_known st =
     (case st of
        WardenNotStarted \<Rightarrow>
          (if region_known
           then (Ok (), WardenStarted \<lparr>ws_cancelled = False, ws_assigned_ranges = {}\<rparr>)
           else (Err ''unknown region!'', st))
      | _ \<Rightarrow> (Err ''warden_handler can only be started once'', st))"

text \<open>Stopping cancels the registration task of the started state, which is returned here.\<close>

definition warden_handler_stop :: "warden_state \<Rightarrow> warden_state \<times> warden_started_state option" where
  "warden_handler_stop st =
     (WardenStopped, case st of WardenStarted s \<Rightarrow> Some (s\<lparr>ws_cancelled := True\<rparr>) | _ \<Rightarrow> None)"

definition is_assigned :: "full_range_id \<Rightarrow> warden_state \<Rightarrow> bool" where
  "is_assigned range_id st =
     (case st of
        WardenNotStarted \<Rightarrow> False
      | WardenStopped \<Rightarrow> False
      | WardenStarted s \<Rightarrow> range_id \<in> ws_assigned_ranges s)"

subsection \<open>Abstract view\<close>

text \<open>The effect of the messages on the set of ranges their receiver has, provided that every
  message changes it.\<close>

fun replay :: "full_range_id set \<Rightarrow> warden_update list \<Rightarrow> full_range_id set option" where
  "replay S [] = Some S"
| "replay S (LoadRange i # us) = (if i \<in> S then None else replay (insert i S) us)"
| "replay S (UnloadRange i # us) = (if i \<in> S then replay (S - {i}) us else None)"

definition enumerates :: "(full_range_id set \<Rightarrow> full_range_id list) \<Rightarrow> bool" where
  "enumerates iter \<longleftrightarrow> (\<forall>S. finite S \<longrightarrow> set (iter S) = S \<and> distinct (iter S))"

text \<open>
  What the protocol prescribes: a full assignment replaces what the client has, with its version. An
  incremental assignment applies to the version it names as the previous one; \<^term>\<open>None\<close> if the client has
  another version (it has to reconnect then), or if an id is not one.
\<close>

fun prescribed :: "(string \<Rightarrow> uuid option) \<Rightarrow> assignment_update list \<Rightarrow> i64 option \<times> full_range_id set
     \<Rightarrow> (i64 option \<times> full_range_id set) option" where
  "prescribed parse_str [] s = Some s"
| "prescribed parse_str (FullAssignment version ranges # us) s =
     (case ids_from_proto parse_str ranges of
        Ok is \<Rightarrow> prescribed parse_str us (Some version, set is)
      | _ \<Rightarrow> None)"
| "prescribed parse_str (IncrementalAssignment version previous_version load unload # us) (current, S) =
     (if current \<noteq> Some previous_version then None
      else case (ids_from_proto parse_str load, ids_from_proto parse_str unload) of
        (Ok ls, Ok ds) \<Rightarrow> prescribed parse_str us (Some version, (S \<union> set ls) - set ds)
      | _ \<Rightarrow> None)"

definition message_of :: "assignment_update \<Rightarrow> (string, proto_warden_update option) outcome" where
  "message_of u = Ok (Some \<lparr>pwu_update = Some u\<rparr>)"

section \<open>Lemmas\<close>

lemma replay_append: "replay S (us @ vs) = (case replay S us of None \<Rightarrow> None | Some T \<Rightarrow> replay T vs)"
  by (induction S us rule: replay.induct) auto

lemma replay_unloads:
  "distinct xs \<Longrightarrow> set xs \<subseteq> S \<Longrightarrow> replay S (map UnloadRange xs) = Some (S - set xs)"
proof (induction xs arbitrary: S)
  case (Cons x xs)
  then have "set xs \<subseteq> S - {x}" by auto
  then show ?case using Cons by (auto simp: Diff_insert2 [symmetric])
qed simp

lemma replay_loads:
  "distinct xs \<Longrightarrow> set xs \<inter> S = {} \<Longrightarrow> replay S (map LoadRange xs) = Some (S \<union> set xs)"
proof (induction xs arbitrary: S)
  case (Cons x xs)
  then have "set xs \<inter> insert x S = {}" by auto
  then show ?case using Cons by auto
qed simp

lemma incremental_loads_replay:
  assumes "incremental_loads parse_str up ps S = (r, S', sent)"
  shows "replay S sent = Some S' \<and>
    (r = Ok () \<longrightarrow> (\<exists>is. ids_from_proto parse_str ps = Ok is \<and> S' = S \<union> set is))"
  using assms
proof (induction ps arbitrary: S S' sent)
  case (Cons p ps)
  show ?case
  proof (cases "\<exists>i. full_range_id_from_proto parse_str p = Ok i \<and> (i \<in> S \<or> up)")
    case True
    then obtain i where i: "full_range_id_from_proto parse_str p = Ok i" "i \<in> S \<or> up" by blast
    obtain S1 sent1 where rec: "incremental_loads parse_str up ps (insert i S) = (r, S1, sent1)"
        and s: "S' = S1" "sent = (if i \<in> S then sent1 else LoadRange i # sent1)"
      using Cons.prems i by (auto split: prod.splits if_splits)
    show ?thesis using Cons.IH [OF rec] s i(1) by (auto simp: insert_absorb)
  next
    case False
    then show ?thesis using Cons.prems by (auto split: outcome.splits)
  qed
qed simp

lemma incremental_unloads_replay:
  assumes "incremental_unloads parse_str up ps S = (r, S', sent)"
  shows "replay S sent = Some S' \<and>
    (r = Ok () \<longrightarrow> (\<exists>is. ids_from_proto parse_str ps = Ok is \<and> S' = S - set is))"
  using assms
proof (induction ps arbitrary: S S' sent)
  case (Cons p ps)
  show ?case
  proof (cases "\<exists>i. full_range_id_from_proto parse_str p = Ok i \<and> (i \<notin> S \<or> up)")
    case True
    then obtain i where i: "full_range_id_from_proto parse_str p = Ok i" "i \<notin> S \<or> up" by blast
    obtain S1 sent1 where rec: "incremental_unloads parse_str up ps (S - {i}) = (r, S1, sent1)"
        and s: "S' = S1" "sent = (if i \<in> S then UnloadRange i # sent1 else sent1)"
      using Cons.prems i by (auto split: prod.splits if_splits)
    show ?thesis using Cons.IH [OF rec] s i(1) by auto
  next
    case False
    then show ?thesis using Cons.prems by (auto split: outcome.splits)
  qed
qed simp

lemma process_full:
  assumes "enumerates iter" "finite S" "ids_from_proto parse_str ranges = Ok is"
  shows "replay S (unloads_for (iter S) (set is) @ loads_for (iter (set is)) S) = Some (set is)"
proof -
  let ?u = "filter (\<lambda>i. i \<notin> set is) (iter S)" and ?l = "filter (\<lambda>i. i \<notin> S) (iter (set is))"
  have it: "set (iter S) = S" "distinct (iter S)" "set (iter (set is)) = set is" "distinct (iter (set is))"
    using assms(1,2) by (auto simp: enumerates_def)
  have "replay S (map UnloadRange ?u) = Some (S - set ?u)" using it by (intro replay_unloads) auto
  moreover have "replay (S - set ?u) (map LoadRange ?l) = Some ((S - set ?u) \<union> set ?l)"
    using it by (intro replay_loads) auto
  moreover have "(S - set ?u) \<union> set ?l = set is" using it by auto
  ultimately show ?thesis by (simp add: replay_append unloads_for_def loads_for_def)
qed

lemma replay_finite: "replay A us = Some B \<Longrightarrow> finite A \<Longrightarrow> finite B"
  by (induction A us rule: replay.induct) (auto split: if_splits)

lemma process_replay:
  assumes "enumerates iter" "finite S" "process_warden_update parse_str iter up update S = (r, S', sent)"
  shows "replay S sent = Some S'"
proof (cases "pwu_update update")
  case None
  then show ?thesis using assms(3) by (simp add: process_warden_update_def)
next
  case (Some u)
  show ?thesis
  proof (cases u)
    case (FullAssignment v ranges)
    then show ?thesis
      using assms(3) Some process_full [OF assms(1,2)]
      by (auto simp: process_warden_update_def Let_def split: outcome.splits if_splits)
  next
    case (IncrementalAssignment v pv load unload)
    obtain r1 S1 sent1 where l: "incremental_loads parse_str up load S = (r1, S1, sent1)" by (metis prod.exhaust)
    obtain r2 S2 sent2 where d: "incremental_unloads parse_str up unload S1 = (r2, S2, sent2)" by (metis prod.exhaust)
    note L = incremental_loads_replay [OF l] and D = incremental_unloads_replay [OF d]
    show ?thesis
      using assms(3) Some IncrementalAssignment l d L D
      by (cases r1) (auto simp: process_warden_update_def replay_append)
  qed
qed

lemma incremental_loads_up:
  "ids_from_proto parse_str ps = Ok is \<Longrightarrow> \<exists>sent. incremental_loads parse_str True ps S = (Ok (), S \<union> set is, sent)"
proof (induction ps arbitrary: "is" S)
  case (Cons p ps)
  then obtain i js where i: "full_range_id_from_proto parse_str p = Ok i" "ids_from_proto parse_str ps = Ok js" "is = i # js"
    by (cases "full_range_id_from_proto parse_str p"; cases "ids_from_proto parse_str ps") auto
  show ?case using Cons.IH [OF i(2), of "insert i S"] i by auto
qed simp

lemma incremental_unloads_up:
  "ids_from_proto parse_str ps = Ok is \<Longrightarrow> \<exists>sent. incremental_unloads parse_str True ps S = (Ok (), S - set is, sent)"
proof (induction ps arbitrary: "is" S)
  case (Cons p ps)
  then obtain i js where i: "full_range_id_from_proto parse_str p = Ok i" "ids_from_proto parse_str ps = Ok js" "is = i # js"
    by (cases "full_range_id_from_proto parse_str p"; cases "ids_from_proto parse_str ps") auto
  have "S - {i} - set js = S - set is" using i(3) by auto
  then show ?case using Cons.IH [OF i(2), of "S - {i}"] i by auto
qed simp

lemma process_prescribed:
  assumes "prescribed parse_str (u # us) (c, S) = Some s"
  shows "\<exists>c' S' sent. process_warden_update parse_str iter True \<lparr>pwu_update = Some u\<rparr> S = (Ok (), S', sent) \<and>
    prescribed parse_str us (c', S') = Some s"
proof (cases u)
  case (FullAssignment v ranges)
  then show ?thesis using assms by (auto simp: process_warden_update_def Let_def split: outcome.splits)
next
  case (IncrementalAssignment v pv load unload)
  then obtain ls ds where i: "ids_from_proto parse_str load = Ok ls" "ids_from_proto parse_str unload = Ok ds"
      "prescribed parse_str us (Some v, (S \<union> set ls) - set ds) = Some s"
    using assms by (auto split: if_splits outcome.splits)
  then show ?thesis
    using incremental_loads_up [OF i(1), of S] incremental_unloads_up [OF i(2), of "S \<union> set ls"] IncrementalAssignment
    by (auto simp: process_warden_update_def)
qed

lemma register_messages_replay:
  assumes "enumerates iter"
  shows "finite (ws_assigned_ranges st) \<Longrightarrow> register_messages parse_str iter up ms st = (e, st', sent) \<Longrightarrow>
    replay (ws_assigned_ranges st) sent = Some (ws_assigned_ranges st')"
proof (induction ms arbitrary: st e st' sent)
  case (Cons m ms)
  obtain e1 st1 sent1 where i: "register_iteration parse_str iter up m st = (e1, st1, sent1)" by (metis prod.exhaust)
  have r: "replay (ws_assigned_ranges st) sent1 = Some (ws_assigned_ranges st1)"
    using i process_replay [OF assms Cons.prems(1)]
    by (auto simp: register_iteration_def Let_def split: if_splits outcome.splits option.splits prod.splits)
  obtain e2 st2 sent2 where rec: "register_messages parse_str iter up ms st1 = (e2, st2, sent2)" by (metis prod.exhaust)
  have "replay (ws_assigned_ranges st1) sent2 = Some (ws_assigned_ranges st2)"
    using Cons.IH [OF replay_finite [OF r Cons.prems(1)] rec] .
  then show ?case using Cons.prems(2) i rec r by (cases e1) (auto simp: replay_append)
qed simp

lemma register_messages_prescribed:
  "\<not> ws_cancelled st \<Longrightarrow> prescribed parse_str us (c, ws_assigned_ranges st) = Some (c', S') \<Longrightarrow>
    \<exists>sent. register_messages parse_str iter True (map message_of us) st = (RegContinue, st\<lparr>ws_assigned_ranges := S'\<rparr>, sent)"
proof (induction us arbitrary: c st)
  case (Cons u us)
  obtain c1 S1 sent1 where p: "process_warden_update parse_str iter True \<lparr>pwu_update = Some u\<rparr> (ws_assigned_ranges st) = (Ok (), S1, sent1)"
      "prescribed parse_str us (c1, S1) = Some (c', S')"
    using process_prescribed [OF Cons.prems(2)] by blast
  have "register_iteration parse_str iter True (message_of u) st = (RegContinue, st\<lparr>ws_assigned_ranges := S1\<rparr>, sent1)"
    using p(1) Cons.prems(1) by (simp add: register_iteration_def message_of_def)
  then show ?case using Cons.IH [of "st\<lparr>ws_assigned_ranges := S1\<rparr>" c1] p(2) Cons.prems(1) by auto
qed simp

section \<open>Properties\<close>

text \<open>
  C40: the range server follows the warden. Whatever messages arrive on the stream, and wherever the loop ends, the load
  and unload messages sent to the server lead from the set of assigned ranges before to the set after,
  and every message changes the set (no range is loaded twice or unloaded without being loaded), for any
  iteration order of the hash set. While the handler is not stopped and its receiver exists, a sequence of updates
  in which every incremental update is based on the version right before it is processed without failure, and the set is
  then the one the protocol prescribes. That the versions fit is left to the warden: the handler does not look
  at them.
\<close>

theorem warden_update_followed:
  assumes "enumerates iter" "finite (ws_assigned_ranges st)"
    and "register_messages parse_str iter up ms st = (e, st', sent)"
  shows "replay (ws_assigned_ranges st) sent = Some (ws_assigned_ranges st') \<and>
    (\<forall>us c c' S'. ms = map message_of us \<longrightarrow> up \<longrightarrow> \<not> ws_cancelled st \<longrightarrow>
       prescribed parse_str us (c, ws_assigned_ranges st) = Some (c', S') \<longrightarrow>
       e = RegContinue \<and> ws_assigned_ranges st' = S')"
  using register_messages_replay [OF assms] register_messages_prescribed [of st parse_str _ _ _ _ iter] assms(3)
  by fastforce

section \<open>Observations\<close>

text \<open>The versions of an incremental update are ignored, so one that is based on an assignment the server does not have is applied
  to the one it has.\<close>

lemma versions_ignored:
  "process_warden_update parse_str iter up \<lparr>pwu_update = Some (IncrementalAssignment v pv load unload)\<rparr> S =
   process_warden_update parse_str iter up \<lparr>pwu_update = Some (IncrementalAssignment v' pv' load unload)\<rparr> S"
  by (simp add: process_warden_update_def)

section \<open>Witnesses\<close>

definition ex_rid :: "uuid \<Rightarrow> full_range_id" where
  "ex_rid i = \<lparr>frid_keyspace_id = \<lparr>ksid_id = 1\<rparr>, frid_range_id = i\<rparr>"

definition ex_parse :: "string \<Rightarrow> uuid option" where
  "ex_parse s = (if s = ''k'' then Some 1 else if s = ''a'' then Some 5 else if s = ''b'' then Some 6 else None)"

definition ex_updates :: "assignment_update list" where
  "ex_updates = [FullAssignment 1 [\<lparr>prid_keyspace_id = ''k'', prid_range_id = ''b''\<rparr>],
     IncrementalAssignment 2 1 [\<lparr>prid_keyspace_id = ''k'', prid_range_id = ''a''\<rparr>]
       [\<lparr>prid_keyspace_id = ''k'', prid_range_id = ''b''\<rparr>]]"

text \<open>An iteration order: by keyspace and range id.\<close>

definition sorted_ids :: "full_range_id set \<Rightarrow> full_range_id list" where
  "sorted_ids S = map (\<lambda>(k, i). \<lparr>frid_keyspace_id = \<lparr>ksid_id = k\<rparr>, frid_range_id = i\<rparr>)
     (sorted_list_of_set ((\<lambda>i. (ksid_id (frid_keyspace_id i), frid_range_id i)) ` S))"

lemma sorted_ids_enumerates: "enumerates sorted_ids"
proof -
  let ?d = "\<lambda>(k, i). \<lparr>frid_keyspace_id = \<lparr>ksid_id = k\<rparr>, frid_range_id = i\<rparr>" and ?e = "\<lambda>i. (ksid_id (frid_keyspace_id i), frid_range_id i)"
  have "?d (?e i) = i" for i :: full_range_id by simp
  then have "?d ` ?e ` S = S" for S :: "full_range_id set" by (simp only: image_image image_ident)
  moreover have "inj ?d" by (auto simp: inj_def)
  ultimately show ?thesis
    by (auto simp: enumerates_def sorted_ids_def distinct_map intro: inj_on_subset)
qed

lemma warden_update_followed_witness:
  "\<exists>st' sent. register_messages ex_parse sorted_ids True (map message_of ex_updates) \<lparr>ws_cancelled = False, ws_assigned_ranges = {}\<rparr> =
      (RegContinue, st', sent) \<and>
     ws_assigned_ranges st' = {ex_rid 5} \<and> replay {} sent = Some {ex_rid 5}"
proof -
  let ?st = "\<lparr>ws_cancelled = False, ws_assigned_ranges = {}\<rparr>"
  obtain e st' sent where r: "register_messages ex_parse sorted_ids True (map message_of ex_updates) ?st = (e, st', sent)"
    by (metis prod.exhaust)
  have "prescribed ex_parse ex_updates (None, {}) = Some (Some 2, {ex_rid 5})"
    by (simp add: ex_updates_def full_range_id_from_proto_def ex_parse_def ex_rid_def insert_Diff_if)
  then show ?thesis
    using warden_update_followed [OF sorted_ids_enumerates _ r] r by fastforce
qed

end
