(* ===== verification/Range_Server.thy ===== *)
theory Range_Server
  imports Range_Manager Warden_Handler
begin

text \<open>
  The range server (rangeserver/src/server.rs): the table of loaded ranges, the transaction table and the handlers of
  the requests. A range manager lives behind an \<^verbatim>\<open>Arc\<close>: the managers are a heap, and the table of loaded
  ranges points into it, so that a manager that was removed from the table can still be used by
  requests that hold it. The storage and the buffer are shared by all managers and kept in the server. Messages are
  records of their fields; decoding and sending of packets are parameters.
\<close>

section \<open>Definitions\<close>

subsection \<open>State\<close>

record ('s, 'w) server =
  sv_epoch_duration :: nat
  sv_storage :: 's
  sv_warden_handler :: warden_state
  sv_managers :: "nat \<Rightarrow> ('s, 'w) range_manager option"
  sv_next_manager :: nat
  sv_loaded_ranges :: "uuid \<rightharpoonup> nat"
  sv_transaction_table :: "uuid \<rightharpoonup> transaction_info"
  sv_prefetching_buffer :: pb_state

definition server_new :: "nat \<Rightarrow> 's \<Rightarrow> ('s, 'w) server" where
  "server_new epoch_duration storage =
     \<lparr>sv_epoch_duration = epoch_duration, sv_storage = storage, sv_warden_handler = warden_handler_new,
      sv_managers = Map.empty, sv_next_manager = 0, sv_loaded_ranges = Map.empty,
      sv_transaction_table = Map.empty, sv_prefetching_buffer = pb_new\<rparr>"

text \<open>Look at a manager with the shared parts filled in, and put it back.\<close>

definition manager :: "nat \<Rightarrow> ('s, 'w) server \<Rightarrow> ('s, 'w) range_manager option" where
  "manager i sv = map_option (\<lambda>rm. rm\<lparr>rm_storage := sv_storage sv, rm_buffer := sv_prefetching_buffer sv\<rparr>) (sv_managers sv i)"

definition put_manager :: "nat \<Rightarrow> ('s, 'w) range_manager \<Rightarrow> ('s, 'w) server \<Rightarrow> ('s, 'w) server" where
  "put_manager i rm sv = sv\<lparr>sv_managers := (sv_managers sv)(i \<mapsto> rm), sv_storage := rm_storage rm,
     sv_prefetching_buffer := rm_buffer rm\<rparr>"

text \<open>What a request runs with: the operations of the storage and of the log, a fresh log, the epoch supplier
  during the call, times, the channel of a lock request, and whether a channel still has its receiver.\<close>

record ('s, 'w) environment =
  env_storage :: "'s storage_ops"
  env_wal :: "'w wal_ops"
  env_wal_new :: 'w
  env_epoch :: epoch_supplier
  env_now :: utc
  env_chan :: chan
  env_alive :: "chan \<Rightarrow> bool"

subsection \<open>Transactions\<close>

definition maybe_start_transaction :: "utc \<Rightarrow> uuid \<Rightarrow> nat option \<Rightarrow> ('s, 'w) server \<Rightarrow> ('s, 'w) server" where
  "maybe_start_transaction now i info sv =
     (case info of
        None \<Rightarrow> sv
      | Some overall_timeout_us \<Rightarrow>
          (if i \<in> dom (sv_transaction_table sv) then sv
           else sv\<lparr>sv_transaction_table := (sv_transaction_table sv)
                   (i \<mapsto> \<lparr>tx_id = i, started = now, overall_timeout = overall_timeout_us\<rparr>)\<rparr>))"

definition get_transaction_info :: "uuid \<Rightarrow> ('s, 'w) server \<Rightarrow> (rs_error, transaction_info) outcome" where
  "get_transaction_info i sv =
     (case sv_transaction_table sv i of Some info \<Rightarrow> Ok info | None \<Rightarrow> Err UnknownTransaction)"

definition remove_transaction :: "uuid \<Rightarrow> ('s, 'w) server \<Rightarrow> ('s, 'w) server" where
  "remove_transaction i sv = sv\<lparr>sv_transaction_table := (sv_transaction_table sv)(i := None)\<rparr>"

subsection \<open>Ranges\<close>

definition maybe_unload_range :: "full_range_id \<Rightarrow> ('s, 'w) server \<Rightarrow> ('s, 'w) server" where
  "maybe_unload_range i sv =
     (case sv_loaded_ranges sv (frid_range_id i) of
        None \<Rightarrow> sv
      | Some h \<Rightarrow>
          (let sv1 = sv\<lparr>sv_loaded_ranges := (sv_loaded_ranges sv)(frid_range_id i := None)\<rparr>
           in case manager h sv1 of None \<Rightarrow> sv1 | Some rm \<Rightarrow> put_manager h (Range_Manager.unload rm) sv1))"

text \<open>\<^verbatim>\<open>RangeManager::load\<close> run to its end; a caller that finds the range loading waits for the other one.\<close>

definition load_manager ::
  "('s, 'w) environment \<Rightarrow> nat \<Rightarrow> ('s, 'w) range_manager \<Rightarrow> (rs_error, unit progress) outcome \<times> ('s, 'w) range_manager" where
  "load_manager env epoch_duration rm =
     (case load_begin rm of
        (LoadReturn (Ok _), rm1) \<Rightarrow> (Ok (Done ()), rm1)
      | (LoadReturn (Err e), rm1) \<Rightarrow> (Err e, rm1)
      | (LoadReturn Panic, rm1) \<Rightarrow> (Panic, rm1)
      | (LoadSubscribed, rm1) \<Rightarrow> (Ok (Blocked (env_chan env)), rm1)
      | (LoadStarted, rm1) \<Rightarrow>
          (let (res, rm2) = load_inner (env_storage env) (env_wal env) (env_epoch env) epoch_duration rm1;
               (r, rm3) = load_finish res rm2
           in (case r of Ok _ \<Rightarrow> Ok (Done ()) | Err e \<Rightarrow> Err e | Panic \<Rightarrow> Panic, rm3)))"

definition load_handle ::
  "('s, 'w) environment \<Rightarrow> nat \<Rightarrow> ('s, 'w) server \<Rightarrow> (rs_error, nat progress) outcome \<times> ('s, 'w) server" where
  "load_handle env h sv =
     (case manager h sv of
        None \<Rightarrow> (Panic, sv)
      | Some rm \<Rightarrow>
          (let (r, rm') = load_manager env (sv_epoch_duration sv) rm
           in (case r of Ok (Done _) \<Rightarrow> Ok (Done h) | Ok (Blocked c) \<Rightarrow> Ok (Blocked c) | Err e \<Rightarrow> Err e | Panic \<Rightarrow> Panic,
               put_manager h rm' sv)))"

definition maybe_load_and_get_range_inner ::
  "('s, 'w) environment \<Rightarrow> full_range_id \<Rightarrow> ('s, 'w) server \<Rightarrow> (rs_error, nat progress) outcome \<times> ('s, 'w) server" where
  "maybe_load_and_get_range_inner env i sv =
     (case sv_loaded_ranges sv (frid_range_id i) of
        Some h \<Rightarrow> load_handle env h sv
      | None \<Rightarrow>
          (if \<not> is_assigned i (sv_warden_handler sv) then (Err RangeIsNotLoaded, sv)
           else
             (let h = sv_next_manager sv;
                  rm = range_manager_new i (sv_storage sv) (env_wal_new env) (sv_prefetching_buffer sv);
                  sv1 = sv\<lparr>sv_managers := (sv_managers sv)(h \<mapsto> rm), sv_next_manager := h + 1,
                           sv_loaded_ranges := (sv_loaded_ranges sv)(frid_range_id i \<mapsto> h)\<rparr>
              in load_handle env h sv1)))"

definition maybe_load_and_get_range ::
  "('s, 'w) environment \<Rightarrow> full_range_id \<Rightarrow> ('s, 'w) server \<Rightarrow> (rs_error, nat progress) outcome \<times> ('s, 'w) server" where
  "maybe_load_and_get_range env i sv =
     (let (res, sv1) = maybe_load_and_get_range_inner env i sv
      in case res of
           Err e \<Rightarrow>
             (let remove = (case sv_loaded_ranges sv1 (frid_range_id i) of
                               None \<Rightarrow> False
                             | Some h \<Rightarrow> (case manager h sv1 of None \<Rightarrow> False | Some rm \<Rightarrow> \<not> is_unloaded rm))
              in (Err e, if remove
                         then sv1\<lparr>sv_loaded_ranges := (sv_loaded_ranges sv1)(frid_range_id i := None)\<rparr>
                         else sv1))
         | _ \<Rightarrow> (res, sv1))"

definition warden_update_step :: "('s, 'w) environment \<Rightarrow> warden_update \<Rightarrow> ('s, 'w) server \<Rightarrow> ('s, 'w) server" where
  "warden_update_step env u sv =
     (case u of
        LoadRange i \<Rightarrow> snd (maybe_load_and_get_range env i sv)
      | UnloadRange i \<Rightarrow> maybe_unload_range i sv)"

subsection \<open>Reads\<close>

text \<open>
  The loop over the keys stops where a key has to wait for the range lock; \<open>get_continue\<close> takes it up again
  when the lock is granted.
\<close>

record get_reads =
  gd_leader_sequence_number :: i64
  gd_reads :: "(bytes \<times> bytes option) list"

datatype get_run = GetDone get_reads | GetBlocked chan nat transaction_info bytes "fb_key list" get_reads

definition add_read :: "bytes \<Rightarrow> get_result \<Rightarrow> get_reads \<Rightarrow> get_reads" where
  "add_read key g acc =
     \<lparr>gd_leader_sequence_number =
        (if gd_leader_sequence_number acc = UNSET_LEADER_SEQUENCE_NUMBER then gr_leader_sequence_number g
         else if gd_leader_sequence_number acc \<noteq> gr_leader_sequence_number g then INVALID_LEADER_SEQUENCE_NUMBER
         else gd_leader_sequence_number acc),
      gd_reads = gd_reads acc @ [(key, gr_val g)]\<rparr>"

fun get_keys ::
  "('s, 'w) environment \<Rightarrow> nat \<Rightarrow> transaction_info \<Rightarrow> fb_key list \<Rightarrow> get_reads \<Rightarrow> ('s, 'w) server
     \<Rightarrow> (rs_error, get_run) outcome \<times> ('s, 'w) server" where
  "get_keys env h tx [] acc sv = (Ok (GetDone acc), sv)"
| "get_keys env h tx (None # keys) acc sv = (Panic, sv)"
| "get_keys env h tx (Some key # keys) acc sv =
     (case manager h sv of
        None \<Rightarrow> (Panic, sv)
      | Some rm \<Rightarrow>
          (case range_get (env_storage env) (env_now env) (env_now env) (env_chan env) tx key rm of
             (Ok (Done g), rm') \<Rightarrow> get_keys env h tx keys (add_read key g acc) (put_manager h rm' sv)
           | (Ok (Blocked c), rm') \<Rightarrow> (Ok (GetBlocked c h tx key keys acc), put_manager h rm' sv)
           | (Err e, rm') \<Rightarrow> (Err e, put_manager h rm' sv)
           | (Panic, rm') \<Rightarrow> (Panic, put_manager h rm' sv)))"

definition get_continue ::
  "('s, 'w) environment \<Rightarrow> nat \<Rightarrow> transaction_info \<Rightarrow> bytes \<Rightarrow> fb_key list \<Rightarrow> get_reads \<Rightarrow> ('s, 'w) server
     \<Rightarrow> (rs_error, get_run) outcome \<times> ('s, 'w) server" where
  "get_continue env h tx key keys acc sv =
     (case manager h sv of
        None \<Rightarrow> (Panic, sv)
      | Some rm \<Rightarrow>
          (case rm_state rm of
             RangeLoaded ld \<Rightarrow>
               (case get_locked (env_storage env) key ld rm of
                  (Ok g, rm') \<Rightarrow> get_keys env h tx keys (add_read key g acc) (put_manager h rm' sv)
                | (Err e, rm') \<Rightarrow> (Err e, put_manager h rm' sv)
                | (Panic, rm') \<Rightarrow> (Panic, put_manager h rm' sv))
           | _ \<Rightarrow> (Panic, sv)))"

text \<open>The identifiers every request carries. The identifier conversions of the uuid crate are an argument.\<close>

definition request_ids ::
  "(128 word \<Rightarrow> uuid) \<Rightarrow> fb_range_id option \<Rightarrow> uuidu128 option \<Rightarrow> (rs_error, full_range_id \<times> uuid) outcome" where
  "request_ids from_le range_id transaction_id =
     (case range_id of
        None \<Rightarrow> Err InvalidRequestFormat
      | Some r \<Rightarrow> (case deserialize_range_id from_le r of
          None \<Rightarrow> Err InvalidRequestFormat
        | Some i \<Rightarrow> (case transaction_id of
            None \<Rightarrow> Err InvalidRequestFormat
          | Some t \<Rightarrow> Ok (i, deserialize_uuid from_le t))))"

datatype 'a wait = Finished 'a | WaitLoad chan

definition get_inner ::
  "(128 word \<Rightarrow> uuid) \<Rightarrow> ('s, 'w) environment \<Rightarrow> get_request \<Rightarrow> ('s, 'w) server
     \<Rightarrow> (rs_error, get_run wait) outcome \<times> ('s, 'w) server" where
  "get_inner from_le env request sv =
     (case request_ids from_le (gq_range_id request) (gq_transaction_id request) of
        Err e \<Rightarrow> (Err e, sv)
      | Panic \<Rightarrow> (Panic, sv)
      | Ok (range_id, transaction_id) \<Rightarrow>
          (if gq_request_id request = None then (Err InvalidRequestFormat, sv)
           else
             (let sv1 = maybe_start_transaction (env_now env) transaction_id (gq_overall_timeout_us request) sv
              in case maybe_load_and_get_range env range_id sv1 of
                   (Err e, sv2) \<Rightarrow> (Err e, sv2)
                 | (Panic, sv2) \<Rightarrow> (Panic, sv2)
                 | (Ok (Blocked c), sv2) \<Rightarrow> (Ok (WaitLoad c), sv2)
                 | (Ok (Done h), sv2) \<Rightarrow>
                     (case get_transaction_info transaction_id sv2 of
                        Err e \<Rightarrow> (Err e, sv2)
                      | Panic \<Rightarrow> (Panic, sv2)
                      | Ok tx \<Rightarrow>
                          (case get_keys env h tx (table_list (gq_keys request))
                                  \<lparr>gd_leader_sequence_number = UNSET_LEADER_SEQUENCE_NUMBER, gd_reads = []\<rparr> sv2 of
                             (Ok g, sv3) \<Rightarrow> (Ok (Finished g), sv3)
                           | (Err e, sv3) \<Rightarrow> (Err e, sv3)
                           | (Panic, sv3) \<Rightarrow> (Panic, sv3))))))"

subsection \<open>Responses\<close>

datatype response =
    GetResponse get_response
  | PrepareResponse prepare_response
  | CommitResponse commit_response
  | AbortResponse abort_response

text \<open>
  A handler either answers, or waits: for another load of the range (it starts over then), or for
  the range lock, with what it needs to go on.
\<close>

datatype reply = Answer response | AwaitLoad chan | AwaitGet get_run uuidu128 | AwaitPrepare chan nat uuid prepare_request uuidu128

text \<open>Building the answer of a request from the result of its inner part; \<open>req_id\<close> is converted to a uuid and back.\<close>

definition echo_id :: "(128 word \<Rightarrow> uuid) \<Rightarrow> (uuid \<Rightarrow> 128 word) \<Rightarrow> uuidu128 \<Rightarrow> uuidu128 option" where
  "echo_id from_le to_le req_id = Some (serialize_uuid to_le (deserialize_uuid from_le req_id))"

definition get_answer ::
  "uuidu128 option \<Rightarrow> (rs_error, get_reads) outcome \<Rightarrow> (unit, reply) outcome" where
  "get_answer request_id read_result =
     (case read_result of
        Err e \<Rightarrow> Ok (Answer (GetResponse \<lparr>gs_request_id = request_id, gs_status = to_flatbuf_status e,
                     gs_leader_sequence_number = - 1, gs_records = Some []\<rparr>))
      | Ok a \<Rightarrow> Ok (Answer (GetResponse \<lparr>gs_request_id = request_id, gs_status = StOk,
                     gs_leader_sequence_number = gd_leader_sequence_number a,
                     gs_records = Some (map (\<lambda>(k, v). \<lparr>fbr_key = Some (Some k), fbr_value = v\<rparr>) (gd_reads a))\<rparr>))
      | Panic \<Rightarrow> Panic)"

definition prepare_answer ::
  "uuidu128 option \<Rightarrow> (rs_error, prepare_result) outcome \<Rightarrow> (unit, reply) outcome" where
  "prepare_answer request_id prepare_result =
     (case prepare_result of
        Err e \<Rightarrow> Ok (Answer (PrepareResponse \<lparr>ps_request_id = request_id, ps_status = to_flatbuf_status e,
                     ps_highest_known_epoch = 0, ps_epoch_lease = None\<rparr>))
      | Ok p \<Rightarrow> Ok (Answer (PrepareResponse \<lparr>ps_request_id = request_id, ps_status = StOk,
                     ps_highest_known_epoch = pr_highest_known_epoch p,
                     ps_epoch_lease = Some \<lparr>el_lower_bound_inclusive = fst (pr_epoch_lease p),
                                            el_upper_bound_inclusive = snd (pr_epoch_lease p)\<rparr>\<rparr>))
      | Panic \<Rightarrow> Panic)"

definition commit_answer :: "uuidu128 option \<Rightarrow> (rs_error, unit) outcome \<Rightarrow> (unit, reply) outcome" where
  "commit_answer request_id res =
     (case res of
        Err e \<Rightarrow> Ok (Answer (CommitResponse \<lparr>cs_request_id = request_id, cs_status = to_flatbuf_status e\<rparr>))
      | Ok _ \<Rightarrow> Ok (Answer (CommitResponse \<lparr>cs_request_id = request_id, cs_status = StOk\<rparr>))
      | Panic \<Rightarrow> Panic)"

definition abort_answer :: "uuidu128 option \<Rightarrow> (rs_error, unit) outcome \<Rightarrow> (unit, reply) outcome" where
  "abort_answer request_id res =
     (case res of
        Err e \<Rightarrow> Ok (Answer (AbortResponse \<lparr>as_request_id = request_id, as_status = to_flatbuf_status e\<rparr>))
      | Ok _ \<Rightarrow> Ok (Answer (AbortResponse \<lparr>as_request_id = request_id, as_status = StOk\<rparr>))
      | Panic \<Rightarrow> Panic)"

definition handle_get ::
  "(128 word \<Rightarrow> uuid) \<Rightarrow> (uuid \<Rightarrow> 128 word) \<Rightarrow> ('s, 'w) environment \<Rightarrow> get_request \<Rightarrow> ('s, 'w) server
     \<Rightarrow> (unit, reply) outcome \<times> ('s, 'w) server" where
  "handle_get from_le to_le env request sv =
     (case gq_request_id request of
        None \<Rightarrow> (Ok (Answer (GetResponse \<lparr>gs_request_id = None, gs_status = StInvalidRequestFormat,
                  gs_leader_sequence_number = 0, gs_records = None\<rparr>)), sv)
      | Some req_id \<Rightarrow>
          (case get_inner from_le env request sv of
             (Ok (Finished (GetDone a)), sv') \<Rightarrow> (get_answer (echo_id from_le to_le req_id) (Ok a), sv')
           | (Ok (Finished g), sv') \<Rightarrow> (Ok (AwaitGet g req_id), sv')
           | (Ok (WaitLoad c), sv') \<Rightarrow> (Ok (AwaitLoad c), sv')
           | (Err e, sv') \<Rightarrow> (get_answer (echo_id from_le to_le req_id) (Err e), sv')
           | (Panic, sv') \<Rightarrow> (Panic, sv')))"

definition prepare_inner ::
  "(128 word \<Rightarrow> uuid) \<Rightarrow> ('s, 'w) environment \<Rightarrow> prepare_request \<Rightarrow> ('s, 'w) server
     \<Rightarrow> (rs_error, (prepare_result + chan \<times> nat \<times> uuid) wait) outcome \<times> ('s, 'w) server" where
  "prepare_inner from_le env request sv =
     (case request_ids from_le (pq_range_id request) (pq_transaction_id request) of
        Err e \<Rightarrow> (Err e, sv)
      | Panic \<Rightarrow> (Panic, sv)
      | Ok (range_id, transaction_id) \<Rightarrow>
          (case maybe_load_and_get_range env range_id sv of
             (Err e, sv1) \<Rightarrow> (Err e, sv1)
           | (Panic, sv1) \<Rightarrow> (Panic, sv1)
           | (Ok (Blocked c), sv1) \<Rightarrow> (Ok (WaitLoad c), sv1)
           | (Ok (Done h), sv1) \<Rightarrow>
               (case get_transaction_info transaction_id sv1 of
                  Err e \<Rightarrow> (Err e, sv1)
                | Panic \<Rightarrow> (Panic, sv1)
                | Ok tx \<Rightarrow>
                    (case manager h sv1 of
                       None \<Rightarrow> (Panic, sv1)
                     | Some rm \<Rightarrow>
                         (case range_prepare (env_wal env) (env_now env) (env_now env) (env_chan env) tx request rm of
                            (Ok (Done p), rm') \<Rightarrow> (Ok (Finished (Inl p)), put_manager h rm' sv1)
                          | (Ok (Blocked c), rm') \<Rightarrow> (Ok (Finished (Inr (c, h, transaction_id))), put_manager h rm' sv1)
                          | (Err e, rm') \<Rightarrow> (Err e, put_manager h rm' sv1)
                          | (Panic, rm') \<Rightarrow> (Panic, put_manager h rm' sv1))))))"

definition handle_prepare ::
  "(128 word \<Rightarrow> uuid) \<Rightarrow> (uuid \<Rightarrow> 128 word) \<Rightarrow> ('s, 'w) environment \<Rightarrow> prepare_request \<Rightarrow> ('s, 'w) server
     \<Rightarrow> (unit, reply) outcome \<times> ('s, 'w) server" where
  "handle_prepare from_le to_le env request sv =
     (case pq_request_id request of
        None \<Rightarrow> (Ok (Answer (PrepareResponse \<lparr>ps_request_id = None, ps_status = StInvalidRequestFormat,
                  ps_highest_known_epoch = 0, ps_epoch_lease = None\<rparr>)), sv)
      | Some req_id \<Rightarrow>
          (case prepare_inner from_le env request sv of
             (Ok (Finished (Inl p)), sv') \<Rightarrow> (prepare_answer (echo_id from_le to_le req_id) (Ok p), sv')
           | (Ok (Finished (Inr (c, h, t))), sv') \<Rightarrow> (Ok (AwaitPrepare c h t request req_id), sv')
           | (Ok (WaitLoad c), sv') \<Rightarrow> (Ok (AwaitLoad c), sv')
           | (Err e, sv') \<Rightarrow> (prepare_answer (echo_id from_le to_le req_id) (Err e), sv')
           | (Panic, sv') \<Rightarrow> (Panic, sv')))"

text \<open>The two requests that end a transaction differ in the call of the range manager, \<open>finish\<close>.\<close>

definition finish_inner ::
  "(128 word \<Rightarrow> uuid) \<Rightarrow> ('s, 'w) environment \<Rightarrow> fb_range_id option \<Rightarrow> uuidu128 option
     \<Rightarrow> (uuid \<Rightarrow> ('s, 'w) range_manager \<Rightarrow> (rs_error, unit) outcome \<times> ('s, 'w) range_manager \<times> chan list) \<Rightarrow> ('s, 'w) server
     \<Rightarrow> (rs_error, unit wait) outcome \<times> ('s, 'w) server \<times> chan list" where
  "finish_inner from_le env range_id transaction_id finish sv =
     (case request_ids from_le range_id transaction_id of
        Err e \<Rightarrow> (Err e, sv, [])
      | Panic \<Rightarrow> (Panic, sv, [])
      | Ok (i, t) \<Rightarrow>
          (case maybe_load_and_get_range env i sv of
             (Err e, sv1) \<Rightarrow> (Err e, sv1, [])
           | (Panic, sv1) \<Rightarrow> (Panic, sv1, [])
           | (Ok (Blocked c), sv1) \<Rightarrow> (Ok (WaitLoad c), sv1, [])
           | (Ok (Done h), sv1) \<Rightarrow>
               (case manager h sv1 of
                  None \<Rightarrow> (Panic, sv1, [])
                | Some rm \<Rightarrow>
                    (case finish t rm of
                       (Ok _, rm', sent) \<Rightarrow> (Ok (Finished ()), remove_transaction t (put_manager h rm' sv1), sent)
                     | (Err e, rm', sent) \<Rightarrow> (Err e, put_manager h rm' sv1, sent)
                     | (Panic, rm', sent) \<Rightarrow> (Panic, put_manager h rm' sv1, sent)))))"

definition commit_inner where
  "commit_inner from_le env request sv =
     finish_inner from_le env (cq_range_id request) (cq_transaction_id request)
       (\<lambda>t. range_commit (env_storage env) (env_wal env) (env_alive env) (env_now env) t request) sv"

definition abort_inner where
  "abort_inner from_le env request sv =
     finish_inner from_le env (aq_range_id request) (aq_transaction_id request)
       (\<lambda>t. range_abort (env_wal env) (env_alive env) (env_now env) t request) sv"

definition finish_reply ::
  "(uuidu128 option \<Rightarrow> (rs_error, unit) outcome \<Rightarrow> (unit, reply) outcome) \<Rightarrow> uuidu128 option
     \<Rightarrow> (rs_error, unit wait) outcome \<Rightarrow> (unit, reply) outcome" where
  "finish_reply answer request_id res =
     (case res of
        Ok (Finished _) \<Rightarrow> answer request_id (Ok ())
      | Ok (WaitLoad c) \<Rightarrow> Ok (AwaitLoad c)
      | Err e \<Rightarrow> answer request_id (Err e)
      | Panic \<Rightarrow> Panic)"

definition handle_commit ::
  "(128 word \<Rightarrow> uuid) \<Rightarrow> (uuid \<Rightarrow> 128 word) \<Rightarrow> ('s, 'w) environment \<Rightarrow> commit_request \<Rightarrow> ('s, 'w) server
     \<Rightarrow> (unit, reply) outcome \<times> ('s, 'w) server \<times> chan list" where
  "handle_commit from_le to_le env request sv =
     (case cq_request_id request of
        None \<Rightarrow> (Ok (Answer (CommitResponse \<lparr>cs_request_id = None, cs_status = StInvalidRequestFormat\<rparr>)), sv, [])
      | Some req_id \<Rightarrow>
          (let (res, sv', sent) = commit_inner from_le env request sv
           in (finish_reply commit_answer (echo_id from_le to_le req_id) res, sv', sent)))"

definition handle_abort ::
  "(128 word \<Rightarrow> uuid) \<Rightarrow> (uuid \<Rightarrow> 128 word) \<Rightarrow> ('s, 'w) environment \<Rightarrow> abort_request \<Rightarrow> ('s, 'w) server
     \<Rightarrow> (unit, reply) outcome \<times> ('s, 'w) server \<times> chan list" where
  "handle_abort from_le to_le env request sv =
     (case aq_request_id request of
        None \<Rightarrow> (Ok (Answer (AbortResponse \<lparr>as_request_id = None, as_status = StInvalidRequestFormat\<rparr>)), sv, [])
      | Some req_id \<Rightarrow>
          (let (res, sv', sent) = abort_inner from_le env request sv
           in (finish_reply abort_answer (echo_id from_le to_le req_id) res, sv', sent)))"

subsection \<open>Dispatch\<close>

datatype request =
    GetMsg get_request
  | PrepareMsg prepare_request
  | CommitMsg commit_request
  | AbortMsg abort_request
  | UnknownMsg

text \<open>\<open>decode\<close> is the flatbuffers verifier and accessor: an envelope with its typed payload.\<close>

definition handle_message ::
  "(bytes \<Rightarrow> (string, request) outcome) \<Rightarrow> (128 word \<Rightarrow> uuid) \<Rightarrow> (uuid \<Rightarrow> 128 word) \<Rightarrow> ('s, 'w) environment
     \<Rightarrow> bytes \<Rightarrow> ('s, 'w) server \<Rightarrow> (string, reply option) outcome \<times> ('s, 'w) server \<times> chan list" where
  "handle_message decode from_le to_le env msg sv =
     (case decode msg of
        Err e \<Rightarrow> (Err e, sv, [])
      | Panic \<Rightarrow> (Panic, sv, [])
      | Ok req \<Rightarrow>
          (let (r, sv', sent) =
             (case req of
                GetMsg q \<Rightarrow> (case handle_get from_le to_le env q sv of (r, sv') \<Rightarrow> (map_outcome id Some r, sv', []))
              | PrepareMsg q \<Rightarrow> (case handle_prepare from_le to_le env q sv of (r, sv') \<Rightarrow> (map_outcome id Some r, sv', []))
              | CommitMsg q \<Rightarrow> (case handle_commit from_le to_le env q sv of (r, sv', sent) \<Rightarrow> (map_outcome id Some r, sv', sent))
              | AbortMsg q \<Rightarrow> (case handle_abort from_le to_le env q sv of (r, sv', sent) \<Rightarrow> (map_outcome id Some r, sv', sent))
              | UnknownMsg \<Rightarrow> (Ok None, sv, []))
           in (unwrap r, sv', sent)))"

subsection \<open>Prefetching\<close>

record proto_range_key =
  prk_range :: "proto_range_id option"
  prk_key :: bytes

record prefetch_request =
  pfr_transaction_id :: string
  pfr_range_key :: "proto_range_key list"

datatype prefetch_reply = PrefetchAnswer string | PrefetchAwaitLoad chan | PrefetchAwait nat bytes u64

definition run_prefetch ::
  "('s, 'w) environment \<Rightarrow> uuid \<Rightarrow> bytes \<Rightarrow> ('s, 'w) range_manager \<Rightarrow> prefetch_step \<times> ('s, 'w) range_manager" where
  "run_prefetch env t key rm =
     (case prefetch_begin t key rm of
        (PrefetchFetch n, rm1) \<Rightarrow>
          (let (fetched, rm2) = prefetch_get (env_storage env) key rm1;
               (r, rm3) = prefetch_finish key n fetched rm2
           in (PrefetchReturn r, rm3))
      | (r, rm1) \<Rightarrow> (r, rm1))"

definition handle_prefetch ::
  "(string \<Rightarrow> uuid option) \<Rightarrow> ('s, 'w) environment \<Rightarrow> prefetch_request \<Rightarrow> ('s, 'w) server
     \<Rightarrow> (string, prefetch_reply) outcome \<times> ('s, 'w) server" where
  "handle_prefetch parse_str env request sv =
     (case parse_str (pfr_transaction_id request) of
        None \<Rightarrow> (Err ''Transaction id is not in the correct format'', sv)
      | Some transaction_id \<Rightarrow>
     (case pfr_range_key request of
        [] \<Rightarrow> (Panic, sv)
      | rk # _ \<Rightarrow>
     (case prk_range rk of
        None \<Rightarrow> (Panic, sv)
      | Some rng \<Rightarrow>
     (case parse_str (prid_keyspace_id rng) of
        None \<Rightarrow> (Err ''Keyspace id is not in the correct format'', sv)
      | Some keyspace_id \<Rightarrow>
     (case parse_str (prid_range_id rng) of
        None \<Rightarrow> (Err ''Range id is not in the correct format'', sv)
      | Some range_id \<Rightarrow>
     (case maybe_load_and_get_range env \<lparr>frid_keyspace_id = \<lparr>ksid_id = keyspace_id\<rparr>, frid_range_id = range_id\<rparr> sv of
        (Err e, sv1) \<Rightarrow> (Err ''Failed to load range'', sv1)
      | (Panic, sv1) \<Rightarrow> (Panic, sv1)
      | (Ok (Blocked c), sv1) \<Rightarrow> (Ok (PrefetchAwaitLoad c), sv1)
      | (Ok (Done h), sv1) \<Rightarrow>
          (case manager h sv1 of
             None \<Rightarrow> (Panic, sv1)
           | Some rm \<Rightarrow>
               (let (r, rm') = run_prefetch env transaction_id (prk_key rk) rm
                in (case r of
                      PrefetchReturn (Ok _) \<Rightarrow> Ok (PrefetchAnswer ''Prefetch request processed successfully'')
                    | PrefetchReturn (Err _) \<Rightarrow> Err ''Failed to process prefetch request''
                    | PrefetchReturn Panic \<Rightarrow> Panic
                    | PrefetchWait n \<Rightarrow> Ok (PrefetchAwait h (prk_key rk) n)
                    | PrefetchFetch n \<Rightarrow> Panic, put_manager h rm' sv1)))))))))"

subsection \<open>Steps and invariant\<close>

inductive server_step ::
  "(bytes \<Rightarrow> (string, request) outcome) \<Rightarrow> (128 word \<Rightarrow> uuid) \<Rightarrow> (uuid \<Rightarrow> 128 word) \<Rightarrow> (string \<Rightarrow> uuid option)
     \<Rightarrow> ('s, 'w) server \<Rightarrow> ('s, 'w) server \<Rightarrow> bool"
  for decode from_le to_le parse_str where
  sv_message: "handle_message decode from_le to_le env msg sv = (r, sv', sent) \<Longrightarrow>
    server_step decode from_le to_le parse_str sv sv'"
| sv_get_continue: "get_continue env h tx key keys acc sv = (rg, sv') \<Longrightarrow> server_step decode from_le to_le parse_str sv sv'"
| sv_prepare_continue: "manager h sv = Some rm \<Longrightarrow> rm_state rm = RangeLoaded ld \<Longrightarrow>
    prepare_locked wops t p ld rm = (rp, rm') \<Longrightarrow> server_step decode from_le to_le parse_str sv (put_manager h rm' sv)"
| sv_prefetch: "handle_prefetch parse_str env req sv = (rf, sv') \<Longrightarrow> server_step decode from_le to_le parse_str sv sv'"
| sv_warden_update: "server_step decode from_le to_le parse_str sv (warden_update_step env u sv)"
| sv_assignment: "server_step decode from_le to_le parse_str sv (sv\<lparr>sv_warden_handler := w\<rparr>)"
| sv_renew: "manager h sv = Some rm \<Longrightarrow> renew_epoch_lease_iteration ops n epoch rm = (rr, rm') \<Longrightarrow>
    server_step decode from_le to_le parse_str sv (put_manager h rm' sv)"
| sv_other_server: "server_step decode from_le to_le parse_str sv (sv\<lparr>sv_storage := s\<rparr>)"

definition server_init :: "('s, 'w) server \<Rightarrow> bool" where
  "server_init sv \<longleftrightarrow> (\<exists>d s. sv = server_new d s)"

text \<open>The table points to managers of the ranges it lists, and the transaction table to its own transactions.\<close>

definition server_wf :: "('s, 'w) server \<Rightarrow> bool" where
  "server_wf sv \<longleftrightarrow>
     (\<forall>i h. sv_loaded_ranges sv i = Some h \<longrightarrow>
        (\<exists>rm. sv_managers sv h = Some rm \<and> frid_range_id (rm_range_id rm) = i)) \<and>
     (\<forall>h. sv_managers sv h \<noteq> None \<longrightarrow> h < sv_next_manager sv) \<and>
     (\<forall>t info. sv_transaction_table sv t = Some info \<longrightarrow> tx_id info = t)"

fun request_id_of :: "request \<Rightarrow> uuidu128 option" where
  "request_id_of (GetMsg q) = gq_request_id q"
| "request_id_of (PrepareMsg q) = pq_request_id q"
| "request_id_of (CommitMsg q) = cq_request_id q"
| "request_id_of (AbortMsg q) = aq_request_id q"
| "request_id_of UnknownMsg = None"

fun response_id_of :: "response \<Rightarrow> uuidu128 option" where
  "response_id_of (GetResponse s) = gs_request_id s"
| "response_id_of (PrepareResponse s) = ps_request_id s"
| "response_id_of (CommitResponse s) = cs_request_id s"
| "response_id_of (AbortResponse s) = as_request_id s"

fun response_status_of :: "response \<Rightarrow> fb_status" where
  "response_status_of (GetResponse s) = gs_status s"
| "response_status_of (PrepareResponse s) = ps_status s"
| "response_status_of (CommitResponse s) = cs_status s"
| "response_status_of (AbortResponse s) = as_status s"

fun answers_kind :: "request \<Rightarrow> response \<Rightarrow> bool" where
  "answers_kind (GetMsg _) (GetResponse _) = True"
| "answers_kind (PrepareMsg _) (PrepareResponse _) = True"
| "answers_kind (CommitMsg _) (CommitResponse _) = True"
| "answers_kind (AbortMsg _) (AbortResponse _) = True"
| "answers_kind _ _ = False"

fun request_range_of :: "(128 word \<Rightarrow> uuid) \<Rightarrow> request \<Rightarrow> (rs_error, full_range_id \<times> uuid) outcome" where
  "request_range_of from_le (GetMsg q) = request_ids from_le (gq_range_id q) (gq_transaction_id q)"
| "request_range_of from_le (PrepareMsg q) = request_ids from_le (pq_range_id q) (pq_transaction_id q)"
| "request_range_of from_le (CommitMsg q) = request_ids from_le (cq_range_id q) (cq_transaction_id q)"
| "request_range_of from_le (AbortMsg q) = request_ids from_le (aq_range_id q) (aq_transaction_id q)"
| "request_range_of from_le UnknownMsg = Panic"

section \<open>Lemmas\<close>

subsection \<open>The identity of a manager\<close>

lemma load_begin_id [simp]: "rm_range_id (snd (load_begin rm)) = rm_range_id rm"
  by (auto simp: load_begin_def split: range_state.splits)

lemma load_inner_id [simp]: "rm_range_id (snd (load_inner ops wops es d rm)) = rm_range_id rm"
  by (auto simp: load_inner_def Let_def split: option.splits outcome.splits prod.splits)

lemma load_finish_id [simp]: "rm_range_id (snd (load_finish res rm)) = rm_range_id rm"
  by (auto simp: load_finish_def split: outcome.splits)

lemma load_manager_id [simp]: "rm_range_id (snd (load_manager env d rm)) = rm_range_id rm"
proof -
  obtain p rm1 where b: "load_begin rm = (p, rm1)" by fastforce
  obtain res rm2 where i: "load_inner (env_storage env) (env_wal env) (env_epoch env) d rm1 = (res, rm2)" by fastforce
  obtain r rm3 where f: "load_finish res rm2 = (r, rm3)" by fastforce
  have "rm_range_id rm1 = rm_range_id rm" "rm_range_id rm2 = rm_range_id rm1" "rm_range_id rm3 = rm_range_id rm2"
    using load_begin_id [of rm] load_inner_id [of "env_storage env" "env_wal env" "env_epoch env" d rm1]
      load_finish_id [of res rm2] b i f by simp_all
  then show ?thesis by (simp add: load_manager_def b i f split: load_progress.splits outcome.splits)
qed

lemma get_locked_id [simp]: "rm_range_id (snd (get_locked ops key ld rm)) = rm_range_id rm"
  by (auto simp: get_locked_def Let_def split: outcome.splits option.splits prod.splits)

lemma progress_of_id:
  "rm_range_id m = i \<Longrightarrow> rm_range_id (snd rest) = i \<Longrightarrow> rm_range_id (snd (progress_of rest m r)) = i"
  by (auto simp: progress_of_def split: outcome.splits progress.splits prod.splits)

lemma range_get_id [simp]: "rm_range_id (snd (range_get ops t0 t1 ch tx key rm)) = rm_range_id rm"
  by (auto simp: range_get_def Let_def intro!: progress_of_id split: range_state.splits prod.splits)

lemma prepare_locked_id [simp]: "rm_range_id (snd (prepare_locked wops t p ld rm)) = rm_range_id rm"
  by (auto simp: prepare_locked_def split: outcome.splits prod.splits)

lemma range_prepare_id [simp]: "rm_range_id (snd (range_prepare wops t0 t1 ch tx p rm)) = rm_range_id rm"
  by (auto simp: range_prepare_def Let_def intro!: progress_of_id split: range_state.splits prod.splits outcome.splits)

lemma finish_transaction_id [simp]: "rm_range_id (fst (snd (finish_transaction alive now t ld rm))) = rm_range_id rm"
  by (auto simp: finish_transaction_def Let_def split: outcome.splits prod.splits)

lemma range_abort_id [simp]: "rm_range_id (fst (snd (range_abort wops alive now t a rm))) = rm_range_id rm"
  by (auto simp: range_abort_def split: range_state.splits outcome.splits prod.splits)

lemma range_commit_id [simp]: "rm_range_id (fst (snd (range_commit ops wops alive now t c rm))) = rm_range_id rm"
  by (auto simp: range_commit_def Let_def split: range_state.splits outcome.splits prod.splits option.splits)

lemma renew_iteration_id [simp]: "rm_range_id (snd (renew_epoch_lease_iteration ops n epoch rm)) = rm_range_id rm"
  by (auto simp: renew_epoch_lease_iteration_def renew_task_finish_def
      split: outcome.splits prod.splits renew_plan.splits range_state.splits)

lemma run_prefetch_id [simp]: "rm_range_id (snd (run_prefetch env t key rm)) = rm_range_id rm"
  by (auto simp: run_prefetch_def prefetch_begin_def prefetch_get_def prefetch_finish_def Let_def
      split: outcome.splits prod.splits prefetch_step.splits)

lemma unload_id [simp]: "rm_range_id (Range_Manager.unload rm) = rm_range_id rm"
  by (simp add: Range_Manager.unload_def)

subsection \<open>The tables\<close>

lemma manager_SomeD: "manager h sv = Some rm \<Longrightarrow> \<exists>rm0. sv_managers sv h = Some rm0 \<and> rm_range_id rm = rm_range_id rm0"
  by (auto simp: manager_def)

lemma put_manager_wf [inv_intros]:
  assumes "server_wf sv" "manager h sv = Some rm" "rm_range_id rm' = rm_range_id rm"
  shows "server_wf (put_manager h rm' sv)"
  using assms manager_SomeD [OF assms(2)] by (fastforce simp: server_wf_def put_manager_def)

lemma tables_wf [inv_intros]:
  "server_wf sv \<Longrightarrow> server_wf (remove_transaction t sv)"
  "server_wf sv \<Longrightarrow> server_wf (maybe_start_transaction now t info sv)"
  "server_wf sv \<Longrightarrow> server_wf (sv\<lparr>sv_loaded_ranges := (sv_loaded_ranges sv)(i := None)\<rparr>)"
  by (auto simp: server_wf_def remove_transaction_def maybe_start_transaction_def split: option.splits if_splits)

lemma load_handle_wf [inv_intros]: "server_wf sv \<Longrightarrow> server_wf (snd (load_handle env h sv))"
  by (auto simp: load_handle_def Let_def split: option.splits prod.splits intro!: put_manager_wf)
    (metis load_manager_id snd_conv)

lemma load_range_wf [inv_intros]: "server_wf sv \<Longrightarrow> server_wf (snd (maybe_load_and_get_range_inner env i sv))"
proof -
  assume wf: "server_wf sv"
  let ?h = "sv_next_manager sv"
  let ?rm = "range_manager_new i (sv_storage sv) (env_wal_new env) (sv_prefetching_buffer sv)"
  have "server_wf (sv\<lparr>sv_managers := (sv_managers sv)(?h \<mapsto> ?rm), sv_next_manager := ?h + 1,
      sv_loaded_ranges := (sv_loaded_ranges sv)(frid_range_id i \<mapsto> ?h)\<rparr>)"
    using wf by (auto simp: server_wf_def range_manager_new_def less_Suc_eq)
  then show ?thesis
    using wf by (auto simp: maybe_load_and_get_range_inner_def Let_def split: option.splits intro: load_handle_wf)
qed

lemma maybe_load_wf [inv_intros]: "server_wf sv \<Longrightarrow> server_wf (snd (maybe_load_and_get_range env i sv))"
  using load_range_wf [of sv env i] tables_wf(3)
  by (cases "maybe_load_and_get_range_inner env i sv")
    (auto simp: maybe_load_and_get_range_def Let_def split: outcome.splits)

lemma maybe_load_wf': "maybe_load_and_get_range env i sv = (r, sv') \<Longrightarrow> server_wf sv \<Longrightarrow> server_wf sv'"
  using maybe_load_wf by (metis snd_conv)

lemma maybe_unload_wf [inv_intros]: "server_wf sv \<Longrightarrow> server_wf (maybe_unload_range i sv)"
  by (auto simp: maybe_unload_range_def Let_def split: option.splits intro!: tables_wf(3) intro: put_manager_wf)

lemma get_keys_wf [inv_intros]: "server_wf sv \<Longrightarrow> server_wf (snd (get_keys env h tx keys acc sv))"
proof (induction env h tx keys acc sv rule: get_keys.induct)
  case (3 env h tx key keys acc sv)
  show ?case
  proof (cases "manager h sv")
    case None
    then show ?thesis using 3(2) by simp
  next
    case (Some rm)
    obtain r rm' where g: "range_get (env_storage env) (env_now env) (env_now env) (env_chan env) tx key rm = (r, rm')"
      by fastforce
    then have wf: "server_wf (put_manager h rm' sv)"
      using range_get_id [of "env_storage env" "env_now env" "env_now env" "env_chan env" tx key rm] 3(2) Some
      by (auto intro: put_manager_wf)
    show ?thesis
    proof (cases "\<exists>g. r = Ok (Done g)")
      case True
      then obtain gr where gr: "r = Ok (Done gr)" by blast
      show ?thesis using 3(1) [OF Some g [symmetric] gr refl wf] Some g gr by simp
    next
      case False
      then show ?thesis using wf Some g by (auto split: outcome.splits progress.splits)
    qed
  qed
qed simp_all

lemma get_inner_wf [inv_intros]: "server_wf sv \<Longrightarrow> server_wf (snd (get_inner from_le env q sv))"
proof (cases "\<exists>i t. request_ids from_le (gq_range_id q) (gq_transaction_id q) = Ok (i, t) \<and> gq_request_id q \<noteq> None")
  case False
  assume "server_wf sv"
  then show ?thesis using False by (auto simp: get_inner_def split: outcome.splits)
next
  case True
  assume wf: "server_wf sv"
  from True obtain i t where it: "request_ids from_le (gq_range_id q) (gq_transaction_id q) = Ok (i, t)" "gq_request_id q \<noteq> None"
    by blast
  let ?sv1 = "maybe_start_transaction (env_now env) t (gq_overall_timeout_us q) sv"
  obtain r sv2 where l: "maybe_load_and_get_range env i ?sv1 = (r, sv2)" by fastforce
  have wf2: "server_wf sv2" by (rule maybe_load_wf' [OF l tables_wf(2) [OF wf]])
  have k: "server_wf sv3" if "get_keys env h tx ks a sv2 = (g, sv3)" for h tx ks a g sv3
    using get_keys_wf [OF wf2, of env h tx ks a] that by simp
  show ?thesis
    using it l wf2 k by (auto simp: get_inner_def Let_def split: outcome.splits progress.splits prod.splits)
qed

lemma prepare_inner_wf [inv_intros]: "server_wf sv \<Longrightarrow> server_wf (snd (prepare_inner from_le env q sv))"
proof (cases "\<exists>i t. request_ids from_le (pq_range_id q) (pq_transaction_id q) = Ok (i, t)")
  case False
  assume "server_wf sv"
  then show ?thesis using False by (auto simp: prepare_inner_def split: outcome.splits)
next
  case True
  assume wf: "server_wf sv"
  from True obtain i t where it: "request_ids from_le (pq_range_id q) (pq_transaction_id q) = Ok (i, t)" by blast
  obtain r sv1 where l: "maybe_load_and_get_range env i sv = (r, sv1)" by fastforce
  have wf1: "server_wf sv1" by (rule maybe_load_wf' [OF l wf])
  have k: "server_wf (put_manager h rm' sv1)"
    if "manager h sv1 = Some rm" "range_prepare (env_wal env) (env_now env) (env_now env) (env_chan env) tx q rm = (p, rm')"
    for h rm tx p rm'
    using put_manager_wf [OF wf1 that(1)] range_prepare_id that(2) by (metis snd_conv)
  show ?thesis
    using it l wf1 k by (auto simp: prepare_inner_def split: outcome.splits progress.splits prod.splits option.splits)
qed

lemma finish_inner_wf:
  assumes "server_wf sv" "\<And>t rm. rm_range_id (fst (snd (finish t rm))) = rm_range_id rm"
  shows "server_wf (fst (snd (finish_inner from_le env rid tid finish sv)))"
proof (cases "\<exists>i t. request_ids from_le rid tid = Ok (i, t)")
  case False
  then show ?thesis using assms(1) by (auto simp: finish_inner_def split: outcome.splits)
next
  case True
  then obtain i t where it: "request_ids from_le rid tid = Ok (i, t)" by blast
  obtain r sv1 where l: "maybe_load_and_get_range env i sv = (r, sv1)" by fastforce
  have wf1: "server_wf sv1" by (rule maybe_load_wf' [OF l assms(1)])
  have k: "server_wf (put_manager h rm' sv1)" "server_wf (remove_transaction t (put_manager h rm' sv1))"
    if "manager h sv1 = Some rm" "finish t rm = (p, rm', sent)" for h rm p rm' sent
    using put_manager_wf [OF wf1 that(1)] assms(2) [of t rm] that(2) tables_wf(1) by (metis fst_conv snd_conv)+
  show ?thesis
    using it l wf1 k by (auto simp: finish_inner_def split: outcome.splits progress.splits prod.splits option.splits)
qed

lemma handle_message_wf [inv_intros]:
  assumes "server_wf sv" shows "server_wf (fst (snd (handle_message decode from_le to_le env msg sv)))"
proof -
  have g: "server_wf (snd (handle_get from_le to_le env q sv))" for q
    using get_inner_wf [OF assms, of from_le env q] assms
    by (auto simp: handle_get_def split: option.splits outcome.splits wait.splits get_run.splits prod.splits)
  have p: "server_wf (snd (handle_prepare from_le to_le env q sv))" for q
    using prepare_inner_wf [OF assms, of from_le env q] assms
    by (auto simp: handle_prepare_def split: option.splits outcome.splits wait.splits sum.splits prod.splits)
  have c: "server_wf (fst (snd (handle_commit from_le to_le env q sv)))" for q
    using finish_inner_wf [OF assms, of "\<lambda>t. range_commit (env_storage env) (env_wal env) (env_alive env) (env_now env) t q"] assms
    by (auto simp: handle_commit_def commit_inner_def Let_def split: option.splits prod.splits) (metis fst_conv snd_conv)
  have a: "server_wf (fst (snd (handle_abort from_le to_le env q sv)))" for q
    using finish_inner_wf [OF assms, of "\<lambda>t. range_abort (env_wal env) (env_alive env) (env_now env) t q"] assms
    by (auto simp: handle_abort_def abort_inner_def Let_def split: option.splits prod.splits) (metis fst_conv snd_conv)
  show ?thesis
    using g p c a assms
    by (auto simp: handle_message_def Let_def split: outcome.splits request.splits prod.splits)
      (metis fst_conv snd_conv)+
qed

lemma get_continue_wf [inv_intros]: "server_wf sv \<Longrightarrow> server_wf (snd (get_continue env h tx key keys acc sv))"
proof -
  assume wf: "server_wf sv"
  have k: "server_wf (put_manager h rm' sv)" if "manager h sv = Some rm" "get_locked (env_storage env) key ld rm = (r, rm')" for rm ld r rm'
    using put_manager_wf [OF wf that(1)] get_locked_id that(2) by (metis snd_conv)
  show ?thesis
    using wf
    by (auto simp: get_continue_def split: option.splits range_state.splits outcome.splits prod.splits
        intro!: get_keys_wf intro: k)
qed

lemma handle_prefetch_wf [inv_intros]: "server_wf sv \<Longrightarrow> server_wf (snd (handle_prefetch parse_str env q sv))"
proof -
  assume wf: "server_wf sv"
  have l: "server_wf sv1" if "maybe_load_and_get_range env i sv = (r, sv1)" for i r sv1
    by (rule maybe_load_wf' [OF that wf])
  have k: "server_wf (put_manager h rm' sv1)" if "maybe_load_and_get_range env i sv = (r, sv1)" "manager h sv1 = Some rm"
      "run_prefetch env t key rm = (p, rm')" for i r sv1 h rm t key p rm'
    using put_manager_wf [OF l [OF that(1)] that(2)] run_prefetch_id that(3) by (metis snd_conv)
  show ?thesis
    using wf l k by (auto simp: handle_prefetch_def Let_def split: option.splits list.splits outcome.splits progress.splits prod.splits)
qed

lemma server_step_wf: "server_step decode from_le to_le parse_str sv sv' \<Longrightarrow> server_wf sv \<Longrightarrow> server_wf sv'"
proof (induction rule: server_step.induct)
  case (sv_message env msg sv r sv' sent)
  then show ?case using handle_message_wf [of sv decode from_le to_le env msg] by simp
next
  case (sv_get_continue env h tx key keys acc sv rg sv')
  then show ?case using get_continue_wf [of sv env h tx key keys acc] by simp
next
  case (sv_prepare_continue h sv rm ld wops t p rp rm')
  then show ?case using put_manager_wf prepare_locked_id by (metis snd_conv)
next
  case (sv_prefetch env req sv rf sv')
  then show ?case using handle_prefetch_wf [of sv parse_str env req] by simp
next
  case (sv_warden_update sv env u)
  then show ?case by (auto simp: warden_update_step_def split: warden_update.splits intro: inv_intros)
next
  case (sv_assignment sv w)
  then show ?case by (simp add: server_wf_def)
next
  case (sv_renew h sv rm ops n epoch rr rm')
  then show ?case using put_manager_wf renew_iteration_id by (metis snd_conv)
next
  case (sv_other_server sv s)
  then show ?case by (simp add: server_wf_def)
qed

interpretation srv: invariant_system server_init "server_step decode from_le to_le parse_str" server_wf
  for decode from_le to_le parse_str
proof
  fix s :: "('s, 'w) server" assume "server_init s"
  then show "server_wf s" by (auto simp: server_init_def server_new_def server_wf_def)
next
  fix s t :: "('s, 'w) server" assume "server_wf s" "server_step decode from_le to_le parse_str s t"
  then show "server_wf t" using server_step_wf by blast
qed

lemma echo_id_same:
  assumes "\<And>x. to_le (from_le x) = x"
  shows "echo_id from_le to_le q = Some q"
proof -
  let ?w = "push_bit 64 (ucast (uu_upper q)) OR ucast (uu_lower q) :: 128 word"
  have "ucast ?w = uu_lower q" "ucast (drop_bit 64 ?w) = uu_upper q"
    by (rule bit_word_eqI, auto simp: bit_simps dest: bit_imp_le_length)+
  then show ?thesis by (simp add: echo_id_def serialize_uuid_def deserialize_uuid_def assms)
qed

text \<open>The shape of an answer.\<close>

lemma message_answer:
  assumes "\<And>x. to_le (from_le x) = x" "decode msg = Ok req"
    and "handle_message decode from_le to_le env msg sv = (Ok (Some (Answer resp)), sv', sent)"
  shows "answers_kind req resp \<and> response_id_of resp = request_id_of req \<and>
    (request_id_of req = None \<longrightarrow> response_status_of resp = StInvalidRequestFormat \<and> sv' = sv \<and> sent = []) \<and>
    (\<forall>p. resp = PrepareResponse p \<longrightarrow> ps_status p = StOk \<longrightarrow> ps_epoch_lease p \<noteq> None)"
proof -
  note echo = echo_id_same [of to_le from_le, OF assms(1)]
  have out: "map_outcome id Some r = Ok (Some x) \<longleftrightarrow> r = Ok x" for r :: "(unit, reply) outcome" and x by (cases r) auto
  have unw: "unwrap r = Ok x \<longleftrightarrow> r = Ok x" for r :: "(unit, reply option) outcome" and x by (cases r) auto
  show ?thesis
  proof (cases req)
    case (GetMsg q)
    then have "handle_get from_le to_le env q sv = (Ok (Answer resp), sv')" "sent = []"
      using assms(2,3) by (auto simp: handle_message_def out unw split: prod.splits)
    then show ?thesis using GetMsg
      by (auto simp: handle_get_def get_answer_def echo split: option.splits outcome.splits wait.splits get_run.splits prod.splits)
  next
    case (PrepareMsg q)
    then have "handle_prepare from_le to_le env q sv = (Ok (Answer resp), sv')" "sent = []"
      using assms(2,3) by (auto simp: handle_message_def out unw split: prod.splits)
    then show ?thesis using PrepareMsg
      by (auto simp: handle_prepare_def prepare_answer_def echo split: option.splits outcome.splits wait.splits sum.splits prod.splits)
  next
    case (CommitMsg q)
    then have "handle_commit from_le to_le env q sv = (Ok (Answer resp), sv', sent)"
      using assms(2,3) by (auto simp: handle_message_def out unw split: prod.splits)
    then show ?thesis using CommitMsg
      by (auto simp: handle_commit_def finish_reply_def commit_answer_def echo Let_def
          split: option.splits outcome.splits wait.splits prod.splits)
  next
    case (AbortMsg q)
    then have "handle_abort from_le to_le env q sv = (Ok (Answer resp), sv', sent)"
      using assms(2,3) by (auto simp: handle_message_def out unw split: prod.splits)
    then show ?thesis using AbortMsg
      by (auto simp: handle_abort_def finish_reply_def abort_answer_def echo Let_def
          split: option.splits outcome.splits wait.splits prod.splits)
  next
    case UnknownMsg
    then show ?thesis using assms(2,3) by (simp add: handle_message_def)
  qed
qed

section \<open>Properties\<close>

text \<open>
  C37: the tables of the server are consistent in every reachable state, with messages, prefetches, assignment
  changes, renewals and other servers interleaved in any order. Every entry of the table of loaded
  ranges points to a manager for that range, so two ranges never share a manager, and every
  transaction is filed under its own identifier.
\<close>

theorem server_tables_consistent:
  assumes "reachable server_init (server_step decode from_le to_le parse_str) sv"
    and "sv_loaded_ranges sv i = Some h"
  shows "(\<exists>rm. manager h sv = Some rm \<and> frid_range_id (rm_range_id rm) = i) \<and>
    (\<forall>j. sv_loaded_ranges sv j = Some h \<longrightarrow> j = i) \<and>
    (\<forall>t info. get_transaction_info t sv = Ok info \<longrightarrow> tx_id info = t)"
proof -
  have wf: "server_wf sv" by (rule srv.reachable_inv [OF assms(1)])
  then obtain rm where rm: "sv_managers sv h = Some rm" "frid_range_id (rm_range_id rm) = i"
    using assms(2) by (auto simp: server_wf_def)
  have "manager h sv = Some (rm\<lparr>rm_storage := sv_storage sv, rm_buffer := sv_prefetching_buffer sv\<rparr>)"
    using rm(1) by (simp add: manager_def)
  moreover have "j = i" if "sv_loaded_ranges sv j = Some h" for j
  proof -
    obtain rm' where "sv_managers sv h = Some rm'" "frid_range_id (rm_range_id rm') = j"
      using wf \<open>sv_loaded_ranges sv j = Some h\<close> unfolding server_wf_def by blast
    then show ?thesis using rm by simp
  qed
  moreover have "tx_id info = t" if "get_transaction_info t sv = Ok info" for t info
    using wf that by (auto simp: server_wf_def get_transaction_info_def split: option.splits)
  ultimately show ?thesis using rm(2) by auto
qed

text \<open>
  C38: an answer belongs to its request. Whenever the handler of a message answers, the response has the type of the
  request and echoes its identifier, bit by bit; a request without identifier is
  refused as malformed and changes nothing. The hypothesis is that converting a 128 bit number to a uuid
  and back gives the number.
\<close>

theorem server_answers_request:
  assumes "\<And>x. to_le (from_le x) = x" "decode msg = Ok req"
    and "handle_message decode from_le to_le env msg sv = (Ok (Some (Answer resp)), sv', sent)"
  shows "answers_kind req resp \<and> response_id_of resp = request_id_of req \<and>
    (request_id_of req = None \<longrightarrow> response_status_of resp = StInvalidRequestFormat \<and> sv' = sv \<and> sent = [])"
  using message_answer [of to_le from_le decode msg, OF assms] by blast

lemma not_assigned_load:
  assumes "sv_loaded_ranges sv (frid_range_id i) = None" "\<not> is_assigned i (sv_warden_handler sv)"
  shows "maybe_load_and_get_range env i sv = (Err RangeIsNotLoaded, sv)"
  using assms by (simp add: maybe_load_and_get_range_def maybe_load_and_get_range_inner_def)

lemma start_transaction_frame [simp]:
  "sv_loaded_ranges (maybe_start_transaction now t info sv) = sv_loaded_ranges sv"
  "sv_warden_handler (maybe_start_transaction now t info sv) = sv_warden_handler sv"
  "sv_managers (maybe_start_transaction now t info sv) = sv_managers sv"
  "sv_storage (maybe_start_transaction now t info sv) = sv_storage sv"
  "sv_prefetching_buffer (maybe_start_transaction now t info sv) = sv_prefetching_buffer sv"
  by (simp_all add: maybe_start_transaction_def split: option.splits)

text \<open>
  A server does not serve ranges that are not its own. A well-formed request for a range that is neither
  loaded nor assigned to the server is refused with RangeIsNotLoaded, and neither the storage nor any range
  manager nor the tables of ranges and the buffer change.
\<close>

theorem unassigned_range_refused:
  assumes "decode msg = Ok req" "request_range_of from_le req = Ok (i, t)" "request_id_of req \<noteq> None"
    and "sv_loaded_ranges sv (frid_range_id i) = None" "\<not> is_assigned i (sv_warden_handler sv)"
  shows "\<exists>resp sv'. handle_message decode from_le to_le env msg sv = (Ok (Some (Answer resp)), sv', []) \<and>
    response_status_of resp = StRangeIsNotLoaded \<and> sv_loaded_ranges sv' = sv_loaded_ranges sv \<and>
    sv_managers sv' = sv_managers sv \<and> sv_storage sv' = sv_storage sv \<and>
    sv_prefetching_buffer sv' = sv_prefetching_buffer sv"
proof (cases req)
  case (GetMsg q)
  then show ?thesis
    using assms not_assigned_load [of "maybe_start_transaction (env_now env) t (gq_overall_timeout_us q) sv" i env]
    by (auto simp: handle_message_def handle_get_def get_inner_def get_answer_def)
next
  case (PrepareMsg q)
  then show ?thesis using assms not_assigned_load [OF assms(4,5), of env]
    by (auto simp: handle_message_def handle_prepare_def prepare_inner_def prepare_answer_def)
next
  case (CommitMsg q)
  then show ?thesis using assms not_assigned_load [OF assms(4,5), of env]
    by (auto simp: handle_message_def handle_commit_def commit_inner_def finish_inner_def finish_reply_def commit_answer_def)
next
  case (AbortMsg q)
  then show ?thesis using assms not_assigned_load [OF assms(4,5), of env]
    by (auto simp: handle_message_def handle_abort_def abort_inner_def finish_inner_def finish_reply_def abort_answer_def)
next
  case UnknownMsg
  then show ?thesis using assms(2) by simp
qed

section \<open>Observations\<close>

text \<open>
  A manager whose load failed stays in the table: the condition for removing it is inverted, and
  every later request for the range is refused, until the warden takes the range away.
\<close>

lemma failed_manager_kept:
  assumes "sv_loaded_ranges sv (frid_range_id i) = Some h" "manager h sv = Some rm" "rm_state rm = RangeUnloaded"
  shows "maybe_load_and_get_range env i sv = (Err RangeIsNotLoaded, put_manager h rm sv)"
    and "sv_loaded_ranges (put_manager h rm sv) (frid_range_id i) = Some h \<and> manager h (put_manager h rm sv) = Some rm"
proof -
  have b: "manager h (put_manager h rm sv) = Some rm" by (simp add: manager_def put_manager_def)
  then show "sv_loaded_ranges (put_manager h rm sv) (frid_range_id i) = Some h \<and> manager h (put_manager h rm sv) = Some rm"
    using assms(1) by (simp add: put_manager_def)
  have "load_handle env h sv = (Err RangeIsNotLoaded, put_manager h rm sv)"
    using assms(2,3) by (simp add: load_handle_def load_manager_def load_begin_def)
  then show "maybe_load_and_get_range env i sv = (Err RangeIsNotLoaded, put_manager h rm sv)"
    using assms(1,3) b
    by (simp add: maybe_load_and_get_range_def maybe_load_and_get_range_inner_def is_unloaded_def) (simp add: put_manager_def is_unloaded_def)
qed

text \<open>A transaction that has not read from a server is unknown there: it cannot be prepared.\<close>

lemma blind_write_refused:
  assumes "request_ids from_le (pq_range_id q) (pq_transaction_id q) = Ok (i, t)"
    and "maybe_load_and_get_range env i sv = (Ok (Done h), sv')" "sv_transaction_table sv' t = None"
  shows "prepare_inner from_le env q sv = (Err UnknownTransaction, sv')"
  using assms by (simp add: prepare_inner_def get_transaction_info_def)

section \<open>Witnesses\<close>

definition ex_env :: "(storage_db, in_mem_wal) environment" where
  "ex_env = \<lparr>env_storage = cassandra_storage ex_exec, env_wal = in_memory_wal ex_codec, env_wal_new = in_mem_wal_new,
     env_epoch = \<lparr>es_read_epoch = Ok 10, es_wait_until_epoch = (\<lambda>_. Ok ())\<rparr>, env_now = 0, env_chan = 0, env_alive = (\<lambda>_. True)\<rparr>"

definition ex_assigned :: "(storage_db, in_mem_wal) server" where
  "ex_assigned = (server_new 100000000 ex_db)\<lparr>sv_warden_handler :=
     WardenStarted \<lparr>ws_cancelled = False, ws_assigned_ranges = {ex_range}\<rparr>\<rparr>"

definition ex_uuid :: "u64 \<Rightarrow> uuidu128" where
  "ex_uuid n = \<lparr>uu_lower = n, uu_upper = 0\<rparr>"

definition ex_abort :: abort_request where
  "ex_abort = \<lparr>aq_request_id = Some (ex_uuid 77), aq_transaction_id = Some (ex_uuid 5),
     aq_range_id = Some \<lparr>fb_keyspace_id = Some (ex_uuid 1), fb_range_id = Some (ex_uuid 9)\<rparr>\<rparr>"

lemma ex_assigned_load: "sv_loaded_ranges (warden_update_step ex_env (LoadRange ex_range) ex_assigned) 2 = Some 0"
  by (simp add: warden_update_step_def maybe_load_and_get_range_def maybe_load_and_get_range_inner_def ex_assigned_def
      server_new_def is_assigned_def ex_range_def load_handle_def manager_def put_manager_def load_manager_def load_begin_def
      range_manager_new_def load_inner_def load_finish_def num_epochs_per_lease_def ex_env_def Let_def
      cassandra_storage_def take_ownership_and_load_range_def take_ownership_acquire_def take_ownership_check_def
      get_range_lease_def renew_epoch_lease_def reliable_def ex_db_def ex_lease_def in_memory_wal_def in_mem_sync_def)

lemma server_tables_consistent_witness:
  "\<exists>rm. manager 0 (warden_update_step ex_env (LoadRange ex_range) ex_assigned) = Some rm \<and>
     frid_range_id (rm_range_id rm) = 2"
proof -
  let ?step = "server_step (\<lambda>_. Panic) id id (\<lambda>_. None) :: (storage_db, in_mem_wal) server \<Rightarrow> _"
  have r0: "reachable server_init ?step (server_new 100000000 ex_db)"
    by (rule reach_init) (auto simp: server_init_def)
  have "reachable server_init ?step ex_assigned"
    unfolding ex_assigned_def by (rule reach_step [OF r0 sv_assignment])
  then have "reachable server_init ?step (warden_update_step ex_env (LoadRange ex_range) ex_assigned)"
    by (rule reach_step) (rule sv_warden_update)
  from server_tables_consistent [OF this ex_assigned_load] show ?thesis by blast
qed

lemma unassigned_range_refused_witness:
  "\<exists>resp sv'. handle_message (\<lambda>_. Ok (AbortMsg ex_abort)) id id ex_env [] ex_assigned =
     (Ok (Some (Answer resp)), sv', []) \<and> response_status_of resp = StRangeIsNotLoaded"
proof -
  let ?i = "\<lparr>frid_keyspace_id = \<lparr>ksid_id = 1\<rparr>, frid_range_id = 9\<rparr>"
  have r: "request_range_of id (AbortMsg ex_abort) = Ok (?i, 5)"
    by (simp add: ex_abort_def request_ids_def deserialize_range_id_def deserialize_uuid_def ex_uuid_def)
  have "request_id_of (AbortMsg ex_abort) \<noteq> None" "sv_loaded_ranges ex_assigned (frid_range_id ?i) = None"
      "\<not> is_assigned ?i (sv_warden_handler ex_assigned)"
    by (simp_all add: ex_abort_def ex_assigned_def server_new_def is_assigned_def ex_range_def)
  from unassigned_range_refused [where decode = "\<lambda>_. Ok (AbortMsg ex_abort)" and msg = "[]" and to_le = id and env = ex_env,
      OF refl r this]
  show ?thesis by blast
qed

lemma server_answers_request_witness:
  "handle_message (\<lambda>_. Ok (AbortMsg ex_abort)) id id ex_env [] ex_assigned =
     (Ok (Some (Answer (AbortResponse \<lparr>as_request_id = Some (ex_uuid 77), as_status = StRangeIsNotLoaded\<rparr>))), ex_assigned, []) \<and>
   response_id_of (AbortResponse \<lparr>as_request_id = Some (ex_uuid 77), as_status = StRangeIsNotLoaded\<rparr>) = request_id_of (AbortMsg ex_abort)"
proof -
  have h: "handle_message (\<lambda>_. Ok (AbortMsg ex_abort)) id id ex_env [] ex_assigned =
     (Ok (Some (Answer (AbortResponse \<lparr>as_request_id = Some (ex_uuid 77), as_status = StRangeIsNotLoaded\<rparr>))), ex_assigned, [])"
    by (simp add: handle_message_def handle_abort_def abort_inner_def finish_inner_def finish_reply_def abort_answer_def
        ex_abort_def request_ids_def deserialize_range_id_def deserialize_uuid_def ex_uuid_def not_assigned_load
        ex_assigned_def server_new_def is_assigned_def ex_range_def echo_id_def serialize_uuid_def)
  show ?thesis using server_answers_request [OF _ refl h] h by simp
qed

end
