(* ===== verification/Range_Client.thy ===== *)
theory Range_Client
  imports Range_Server
begin

text \<open>
  The client of one range server (rangeclient/src/client.rs) and the pool of such clients the coordinator
  uses (coordinator/src/rangeclient.rs). A call is split where it waits for its answer: the first part builds the
  request, files a channel under a new request id and sends, the second part reads what
  arrives on the channel. The network loop of the client delivers responses to the channels.
\<close>

section \<open>Definitions\<close>

subsection \<open>State\<close>

record prepare_ok =
  pk_highest_known_epoch :: u64
  pk_epoch_lease :: epoch_lease

record client_get_result =
  cg_vals :: "bytes option list"
  cg_leader_sequence_number :: i64

datatype client_state = CNotStarted | CStarted "uuid \<rightharpoonup> chan" | CStopped

record range_client =
  rc_range_server_info :: host_info
  rc_state :: client_state
  rc_proto_client :: "(prefetch_request \<Rightarrow> bool) option"

definition range_client_new :: "host_info \<Rightarrow> (prefetch_request \<Rightarrow> bool) option \<Rightarrow> range_client" where
  "range_client_new host_info proto_client =
     \<lparr>rc_range_server_info = host_info, rc_state = CNotStarted, rc_proto_client = proto_client\<rparr>"

definition range_client_start :: "range_client \<Rightarrow> range_client" where
  "range_client_start rc =
     (case rc_state rc of
        CStarted _ \<Rightarrow> rc
      | CStopped \<Rightarrow> rc
      | CNotStarted \<Rightarrow> rc\<lparr>rc_state := CStarted Map.empty\<rparr>)"

fun is_stopped :: "range_client \<Rightarrow> bool" where
  "is_stopped rc = (case rc_state rc of CStopped \<Rightarrow> True | CNotStarted \<Rightarrow> False | CStarted _ \<Rightarrow> False)"

subsection \<open>Sending requests\<close>

definition record_outstanding_request :: "uuid \<Rightarrow> chan \<Rightarrow> range_client \<Rightarrow> (rs_error, unit) outcome \<times> range_client" where
  "record_outstanding_request req_id tx rc =
     (case rc_state rc of
        CNotStarted \<Rightarrow> (Err ConnectionClosed, rc)
      | CStopped \<Rightarrow> (Err ConnectionClosed, rc)
      | CStarted outstanding \<Rightarrow> (Ok (), rc\<lparr>rc_state := CStarted (outstanding(req_id \<mapsto> tx))\<rparr>))"

text \<open>The end of the first part of every call; \<open>send_ok\<close> tells whether the network takes the packet.\<close>

definition send_request ::
  "bool \<Rightarrow> uuid \<Rightarrow> chan \<Rightarrow> request \<Rightarrow> range_client \<Rightarrow> (rs_error, request) outcome \<times> range_client" where
  "send_request send_ok req_id tx msg rc =
     (case record_outstanding_request req_id tx rc of
        (Ok _, rc') \<Rightarrow> (if send_ok then Ok msg else Panic, rc')
      | (Err e, rc') \<Rightarrow> (Err e, rc')
      | (Panic, rc') \<Rightarrow> (Panic, rc'))"

definition client_get ::
  "(uuid \<Rightarrow> 128 word) \<Rightarrow> bool \<Rightarrow> uuid \<Rightarrow> chan \<Rightarrow> transaction_info \<Rightarrow> full_range_id \<Rightarrow> bytes list \<Rightarrow> range_client
     \<Rightarrow> (rs_error, request) outcome \<times> range_client" where
  "client_get to_le send_ok req_id ch tx range_id keys rc =
     send_request send_ok req_id ch
       (GetMsg \<lparr>gq_request_id = Some (serialize_uuid to_le req_id),
                gq_transaction_id = Some (serialize_uuid to_le (tx_id tx)),
                gq_overall_timeout_us = Some (overall_timeout tx mod 2 ^ 32),
                gq_range_id = Some (serialize_range_id to_le range_id),
                gq_keys = Some (map Some keys)\<rparr>) rc"

definition client_prepare_transaction ::
  "(uuid \<Rightarrow> 128 word) \<Rightarrow> bool \<Rightarrow> uuid \<Rightarrow> chan \<Rightarrow> transaction_info \<Rightarrow> full_range_id \<Rightarrow> bool \<Rightarrow> (bytes \<times> bytes) list
     \<Rightarrow> bytes list \<Rightarrow> range_client \<Rightarrow> (rs_error, request) outcome \<times> range_client" where
  "client_prepare_transaction to_le send_ok req_id ch tx range_id has_reads writes deletes rc =
     send_request send_ok req_id ch
       (PrepareMsg \<lparr>pq_request_id = Some (serialize_uuid to_le req_id),
                    pq_transaction_id = Some (serialize_uuid to_le (tx_id tx)),
                    pq_range_id = Some (serialize_range_id to_le range_id),
                    pq_has_reads = has_reads,
                    pq_puts = Some (map (\<lambda>(k, v). \<lparr>fbr_key = Some (Some k), fbr_value = Some v\<rparr>) writes),
                    pq_deletes = Some (map Some deletes)\<rparr>) rc"

definition client_abort_transaction ::
  "(uuid \<Rightarrow> 128 word) \<Rightarrow> bool \<Rightarrow> uuid \<Rightarrow> chan \<Rightarrow> transaction_info \<Rightarrow> full_range_id \<Rightarrow> range_client
     \<Rightarrow> (rs_error, request) outcome \<times> range_client" where
  "client_abort_transaction to_le send_ok req_id ch tx range_id rc =
     send_request send_ok req_id ch
       (AbortMsg \<lparr>aq_request_id = Some (serialize_uuid to_le req_id),
                  aq_transaction_id = Some (serialize_uuid to_le (tx_id tx)),
                  aq_range_id = Some (serialize_range_id to_le range_id)\<rparr>) rc"

definition client_commit_transaction ::
  "(uuid \<Rightarrow> 128 word) \<Rightarrow> bool \<Rightarrow> uuid \<Rightarrow> chan \<Rightarrow> transaction_info \<Rightarrow> full_range_id \<Rightarrow> u64 \<Rightarrow> range_client
     \<Rightarrow> (rs_error, request) outcome \<times> range_client" where
  "client_commit_transaction to_le send_ok req_id ch tx range_id epoch rc =
     send_request send_ok req_id ch
       (CommitMsg \<lparr>cq_request_id = Some (serialize_uuid to_le req_id),
                   cq_transaction_id = Some (serialize_uuid to_le (tx_id tx)),
                   cq_range_id = Some (serialize_range_id to_le range_id),
                   cq_epoch = epoch, cq_vid = 0\<rparr>) rc"

subsection \<open>Reading responses\<close>

text \<open>
  A packet with its envelope decoded: one of the four responses or another message type. \<open>None\<close> where the
  flatbuffers verifier rejects the packet, which the code unwraps. What a caller finds on its channel is a packet, an
  error, or that the sender was dropped (a panic, by the unwrap of the receiver).
\<close>

datatype packet = ResponsePacket response | OtherPacket

type_synonym delivery = "(rs_error, bytes) outcome"

definition open_packet :: "(bytes \<Rightarrow> packet option) \<Rightarrow> delivery \<Rightarrow> (rs_error, packet) outcome" where
  "open_packet decode d =
     and_then d (\<lambda>msg. case decode msg of None \<Rightarrow> Panic | Some p \<Rightarrow> Ok p)"

definition client_get_finish ::
  "(bytes \<Rightarrow> packet option) \<Rightarrow> delivery \<Rightarrow> (rs_error, client_get_result) outcome" where
  "client_get_finish decode d =
     and_then (open_packet decode d)
       (\<lambda>p. case p of
          ResponsePacket (GetResponse msg) \<Rightarrow>
            and_then (from_flatbuf_status (gs_status msg))
              (\<lambda>_. Ok \<lparr>cg_vals = map fbr_value (case gs_records msg of None \<Rightarrow> [] | Some rs \<Rightarrow> rs),
                       cg_leader_sequence_number = gs_leader_sequence_number msg\<rparr>)
        | _ \<Rightarrow> Err InvalidRequestFormat)"

definition client_prepare_finish ::
  "(bytes \<Rightarrow> packet option) \<Rightarrow> delivery \<Rightarrow> (rs_error, prepare_ok) outcome" where
  "client_prepare_finish decode d =
     and_then (open_packet decode d)
       (\<lambda>p. case p of
          ResponsePacket (PrepareResponse msg) \<Rightarrow>
            and_then (from_flatbuf_status (ps_status msg))
              (\<lambda>_. case ps_epoch_lease msg of
                     None \<Rightarrow> Panic
                   | Some lease \<Rightarrow> Ok \<lparr>pk_highest_known_epoch = ps_highest_known_epoch msg, pk_epoch_lease = lease\<rparr>)
        | _ \<Rightarrow> Err InvalidRequestFormat)"

definition client_abort_finish :: "(bytes \<Rightarrow> packet option) \<Rightarrow> delivery \<Rightarrow> (rs_error, unit) outcome" where
  "client_abort_finish decode d =
     and_then (open_packet decode d)
       (\<lambda>p. case p of
          ResponsePacket (AbortResponse msg) \<Rightarrow> from_flatbuf_status (as_status msg)
        | _ \<Rightarrow> Err InvalidRequestFormat)"

definition client_commit_finish :: "(bytes \<Rightarrow> packet option) \<Rightarrow> delivery \<Rightarrow> (rs_error, unit) outcome" where
  "client_commit_finish decode d =
     and_then (open_packet decode d)
       (\<lambda>p. case p of
          ResponsePacket (CommitResponse msg) \<Rightarrow> from_flatbuf_status (cs_status msg)
        | _ \<Rightarrow> Err InvalidRequestFormat)"

definition get_request_id_from_response ::
  "(bytes \<Rightarrow> packet option) \<Rightarrow> (128 word \<Rightarrow> uuid) \<Rightarrow> bytes \<Rightarrow> (rs_error, uuid) outcome" where
  "get_request_id_from_response decode from_le msg =
     (case decode msg of
        None \<Rightarrow> Panic
      | Some OtherPacket \<Rightarrow> Panic
      | Some (ResponsePacket r) \<Rightarrow>
          (case response_id_of r of None \<Rightarrow> Panic | Some i \<Rightarrow> Ok (deserialize_uuid from_le i)))"

subsection \<open>The network loop\<close>

text \<open>
  One turn of the loop on a packet. It returns the channel and what is sent there, if anything, or that the loop
  asks for cancellation; \<open>alive\<close> tells whether the caller still waits.
\<close>

datatype loop_effect = Deliver chan bytes | RequestCancel

definition network_loop_message ::
  "(bytes \<Rightarrow> packet option) \<Rightarrow> (128 word \<Rightarrow> uuid) \<Rightarrow> (chan \<Rightarrow> bool) \<Rightarrow> bytes \<Rightarrow> range_client
     \<Rightarrow> (rs_error, loop_effect) outcome \<times> range_client" where
  "network_loop_message decode from_le alive msg rc =
     (case get_request_id_from_response decode from_le msg of
        Ok req_id \<Rightarrow>
          (case rc_state rc of
             CNotStarted \<Rightarrow> (Ok RequestCancel, rc)
           | CStopped \<Rightarrow> (Ok RequestCancel, rc)
           | CStarted outstanding \<Rightarrow>
               (case outstanding req_id of
                  None \<Rightarrow> (Panic, rc)
                | Some tx \<Rightarrow>
                    (if alive tx then Ok (Deliver tx msg) else Panic,
                     rc\<lparr>rc_state := CStarted (outstanding(req_id := None))\<rparr>)))
      | Err e \<Rightarrow> (Err e, rc)
      | Panic \<Rightarrow> (Panic, rc))"

text \<open>
  Closing answers the first request of the drained map, in the order \<open>drain\<close> in which the map is iterated,
  and drops the senders of the others. The result is what each channel sees.
\<close>

definition client_close ::
  "uuid list \<Rightarrow> (chan \<Rightarrow> bool) \<Rightarrow> range_client \<Rightarrow> (rs_error, unit) outcome \<times> (chan \<times> delivery) list \<times> range_client" where
  "client_close drain alive rc =
     (let outstanding = (case rc_state rc of CNotStarted \<Rightarrow> Map.empty | CStopped \<Rightarrow> Map.empty | CStarted m \<Rightarrow> m);
          txs = map (the \<circ> outstanding) drain;
          dropped = map (\<lambda>c. (c, Panic)) (drop 1 txs);
          rc' = rc\<lparr>rc_state := CStopped\<rparr>
      in case txs of
           [] \<Rightarrow> (Ok (), [], rc')
         | tx # _ \<Rightarrow> (if alive tx then (Ok (), (tx, Err ConnectionClosed) # dropped, rc') else (Panic, dropped, rc')))"

subsection \<open>Prefetching\<close>

definition client_prefetch ::
  "(uuid \<Rightarrow> string) \<Rightarrow> transaction_info \<Rightarrow> full_range_id \<Rightarrow> bytes list \<Rightarrow> range_client \<Rightarrow> (rs_error, unit) outcome" where
  "client_prefetch to_str tx range_id keys rc =
     (case rc_proto_client rc of
        None \<Rightarrow> Ok ()
      | Some client \<Rightarrow>
          (let rng = \<lparr>prid_keyspace_id = to_str (ksid_id (frid_keyspace_id range_id)),
                      prid_range_id = to_str (frid_range_id range_id)\<rparr>;
               request = \<lparr>pfr_transaction_id = to_str (tx_id tx),
                          pfr_range_key = map (\<lambda>key. \<lparr>prk_range = Some rng, prk_key = key\<rparr>) keys\<rparr>
           in if client request then Ok () else Err PrefetchError))"

subsection \<open>Calls\<close>

text \<open>The four calls over the fast network, to speak about all of them.\<close>

datatype client_call =
    CallGet transaction_info full_range_id "bytes list"
  | CallPrepare transaction_info full_range_id bool "(bytes \<times> bytes) list" "bytes list"
  | CallAbort transaction_info full_range_id
  | CallCommit transaction_info full_range_id u64

fun call_begin ::
  "(uuid \<Rightarrow> 128 word) \<Rightarrow> bool \<Rightarrow> uuid \<Rightarrow> chan \<Rightarrow> client_call \<Rightarrow> range_client \<Rightarrow> (rs_error, request) outcome \<times> range_client" where
  "call_begin to_le ok i ch (CallGet tx r keys) rc = client_get to_le ok i ch tx r keys rc"
| "call_begin to_le ok i ch (CallPrepare tx r has_reads writes deletes) rc =
     client_prepare_transaction to_le ok i ch tx r has_reads writes deletes rc"
| "call_begin to_le ok i ch (CallAbort tx r) rc = client_abort_transaction to_le ok i ch tx r rc"
| "call_begin to_le ok i ch (CallCommit tx r epoch) rc = client_commit_transaction to_le ok i ch tx r epoch rc"

fun call_finish :: "(bytes \<Rightarrow> packet option) \<Rightarrow> client_call \<Rightarrow> delivery \<Rightarrow> (rs_error, unit) outcome" where
  "call_finish decode (CallGet tx r keys) d = and_then (client_get_finish decode d) (\<lambda>_. Ok ())"
| "call_finish decode (CallPrepare tx r has_reads writes deletes) d = and_then (client_prepare_finish decode d) (\<lambda>_. Ok ())"
| "call_finish decode (CallAbort tx r) d = client_abort_finish decode d"
| "call_finish decode (CallCommit tx r epoch) d = client_commit_finish decode d"

fun call_target :: "client_call \<Rightarrow> full_range_id \<times> uuid" where
  "call_target (CallGet tx r keys) = (r, tx_id tx)"
| "call_target (CallPrepare tx r has_reads writes deletes) = (r, tx_id tx)"
| "call_target (CallAbort tx r) = (r, tx_id tx)"
| "call_target (CallCommit tx r epoch) = (r, tx_id tx)"

subsection \<open>The client with its callers\<close>

text \<open>
  \<open>cl_mail\<close> is what was sent on each channel, \<open>cl_filed\<close> the request id each channel was made for,
  \<open>cl_token\<close> the cancellation token and \<open>cl_loop\<close> whether the network loop runs. Request ids are new ones (they are random)
  and so are channels.
\<close>

record client_sys =
  cl_client :: range_client
  cl_mail :: "chan \<rightharpoonup> delivery"
  cl_filed :: "chan \<rightharpoonup> uuid"
  cl_token :: bool
  cl_loop :: bool

definition deliver :: "(rs_error, loop_effect) outcome \<Rightarrow> client_sys \<Rightarrow> client_sys" where
  "deliver r s =
     (case r of
        Ok (Deliver c msg) \<Rightarrow> s\<lparr>cl_mail := (cl_mail s)(c \<mapsto> Ok msg)\<rparr>
      | Ok RequestCancel \<Rightarrow> s\<lparr>cl_token := True\<rparr>
      | _ \<Rightarrow> s\<lparr>cl_loop := False\<rparr>)"

fun outstanding_of :: "client_state \<Rightarrow> uuid \<rightharpoonup> chan" where
  "outstanding_of (CStarted m) = m"
| "outstanding_of _ = Map.empty"

inductive client_step ::
  "(bytes \<Rightarrow> packet option) \<Rightarrow> (128 word \<Rightarrow> uuid) \<Rightarrow> (uuid \<Rightarrow> 128 word) \<Rightarrow> client_sys \<Rightarrow> client_sys \<Rightarrow> bool"
  for decode from_le to_le where
  cl_start: "client_step decode from_le to_le s
    (s\<lparr>cl_client := range_client_start (cl_client s), cl_loop := cl_loop s \<or> rc_state (cl_client s) = CNotStarted\<rparr>)"
| cl_call: "i \<notin> ran (cl_filed s) \<Longrightarrow> ch \<notin> dom (cl_filed s) \<Longrightarrow>
    call_begin to_le ok i ch call (cl_client s) = (r, rc') \<Longrightarrow>
    client_step decode from_le to_le s (s\<lparr>cl_client := rc', cl_filed := (cl_filed s)(ch \<mapsto> i)\<rparr>)"
| cl_message: "cl_loop s \<Longrightarrow> network_loop_message decode from_le alive msg (cl_client s) = (d, rc') \<Longrightarrow>
    client_step decode from_le to_le s (deliver d (s\<lparr>cl_client := rc'\<rparr>))"
| cl_cancel: "client_step decode from_le to_le s (s\<lparr>cl_token := True\<rparr>)"
| cl_close: "cl_loop s \<Longrightarrow> cl_token s \<Longrightarrow> distinct drain \<Longrightarrow> set drain = dom (outstanding_of (rc_state (cl_client s))) \<Longrightarrow>
    client_close drain alive (cl_client s) = (r, ds, rc') \<Longrightarrow>
    client_step decode from_le to_le s (s\<lparr>cl_client := rc', cl_mail := cl_mail s ++ map_of ds, cl_loop := False\<rparr>)"

definition client_init :: "client_sys \<Rightarrow> bool" where
  "client_init s \<longleftrightarrow> (\<exists>h p. s = \<lparr>cl_client = range_client_new h p, cl_mail = Map.empty, cl_filed = Map.empty,
     cl_token = False, cl_loop = False\<rparr>)"

definition client_inv :: "(bytes \<Rightarrow> packet option) \<Rightarrow> (128 word \<Rightarrow> uuid) \<Rightarrow> client_sys \<Rightarrow> bool" where
  "client_inv decode from_le s \<longleftrightarrow>
     (\<forall>i c. outstanding_of (rc_state (cl_client s)) i = Some c \<longrightarrow> cl_filed s c = Some i \<and> cl_mail s c = None) \<and>
     (\<forall>c msg. cl_mail s c = Some (Ok msg) \<longrightarrow> (\<exists>i. cl_filed s c = Some i \<and>
        get_request_id_from_response decode from_le msg = Ok i)) \<and>
     (\<forall>c. cl_filed s c = None \<longrightarrow> cl_mail s c = None) \<and>
     (\<forall>i c c'. cl_filed s c = Some i \<longrightarrow> cl_filed s c' = Some i \<longrightarrow> c = c')"

subsection \<open>The pool of clients (coordinator/src/rangeclient.rs)\<close>

text \<open>The clients live behind \<^verbatim>\<open>Arc\<close>s: they are a heap and the pool points into it.\<close>

record client_pool =
  pool_range_clients :: "host_identity \<rightharpoonup> nat"
  pool_heap :: "nat \<rightharpoonup> range_client"
  pool_next :: nat

definition client_pool_new :: client_pool where
  "client_pool_new = \<lparr>pool_range_clients = Map.empty, pool_heap = Map.empty, pool_next = 0\<rparr>"

definition client_of :: "host_identity \<Rightarrow> client_pool \<Rightarrow> (nat \<times> range_client) option" where
  "client_of i p = (case pool_range_clients p i of
     None \<Rightarrow> None | Some n \<Rightarrow> map_option (Pair n) (pool_heap p n))"

text \<open>The check under the read lock, and what happens under the write lock. A client found under
  the write lock is returned at once (\<open>Inl\<close>), a new one is still to be started (\<open>Inr\<close>).\<close>

definition existing_client :: "host_info \<Rightarrow> client_pool \<Rightarrow> nat option" where
  "existing_client host p =
     (case client_of (identity host) p of
        None \<Rightarrow> None
      | Some (n, c) \<Rightarrow> (if rc_range_server_info c = host \<and> \<not> is_stopped c then Some n else None))"

definition new_client :: "host_info \<Rightarrow> client_pool \<Rightarrow> client_pool" where
  "new_client host p = \<lparr>pool_range_clients = (pool_range_clients p)(identity host \<mapsto> pool_next p),
     pool_heap = (pool_heap p)(pool_next p \<mapsto> range_client_new host None), pool_next = pool_next p + 1\<rparr>"

definition insert_client :: "host_info \<Rightarrow> client_pool \<Rightarrow> (nat + nat) \<times> client_pool" where
  "insert_client host p =
     (case client_of (identity host) p of
        None \<Rightarrow> (Inr (pool_next p), new_client host p)
      | Some (n, c) \<Rightarrow> (if rc_range_server_info c = host then (Inl n, p) else (Inr (pool_next p), new_client host p)))"

definition start_client :: "nat \<Rightarrow> client_pool \<Rightarrow> client_pool" where
  "start_client n p = p\<lparr>pool_heap := (\<lambda>m. if m = n then map_option range_client_start (pool_heap p m) else pool_heap p m)\<rparr>"

definition get_range_client :: "host_info option \<Rightarrow> client_pool \<Rightarrow> (rs_error, nat) outcome \<times> client_pool" where
  "get_range_client host_of_range p =
     (case host_of_range of
        None \<Rightarrow> (Err RangeIsNotLoaded, p)
      | Some host \<Rightarrow>
          (case existing_client host p of
             Some n \<Rightarrow> (Ok n, start_client n p)
           | None \<Rightarrow>
               (case insert_client host p of
                  (Inl n, p') \<Rightarrow> (Ok n, p')
                | (Inr n, p') \<Rightarrow> (Ok n, start_client n p'))))"

text \<open>An error is passed on; for two of them the oracle is asked to refresh the host of the range.\<close>

fun handle_rangeserver_err :: "rs_error \<Rightarrow> rs_error \<times> bool" where
  "handle_rangeserver_err RangeIsNotLoaded = (RangeIsNotLoaded, True)"
| "handle_rangeserver_err RangeOwnershipLost = (RangeOwnershipLost, True)"
| "handle_rangeserver_err e = (e, False)"

text \<open>The calls of the pool: find the client of the host of the range and begin the call there; later, finish it.\<close>

definition pool_begin ::
  "(uuid \<Rightarrow> 128 word) \<Rightarrow> bool \<Rightarrow> uuid \<Rightarrow> chan \<Rightarrow> client_call \<Rightarrow> host_info option \<Rightarrow> client_pool
     \<Rightarrow> (rs_error, host_info \<times> request) outcome \<times> client_pool" where
  "pool_begin to_le ok i ch call host p =
     (case get_range_client host p of
        (Ok n, p') \<Rightarrow>
          (case pool_heap p' n of
             None \<Rightarrow> (Panic, p')
           | Some c \<Rightarrow>
               (let (r, c') = call_begin to_le ok i ch call c
                in (and_then r (\<lambda>msg. Ok (rc_range_server_info c, msg)), p'\<lparr>pool_heap := (pool_heap p')(n \<mapsto> c')\<rparr>)))
      | (Err e, p') \<Rightarrow> (Err e, p')
      | (Panic, p') \<Rightarrow> (Panic, p'))"

definition pool_finish ::
  "('d \<Rightarrow> (rs_error, 'a) outcome) \<Rightarrow> 'd \<Rightarrow> (rs_error, 'a) outcome \<times> bool" where
  "pool_finish finish d =
     (case finish d of
        Err e \<Rightarrow> (case handle_rangeserver_err e of (e', refresh) \<Rightarrow> (Err e', refresh))
      | r \<Rightarrow> (r, False))"

inductive pool_step :: "client_pool \<Rightarrow> client_pool \<Rightarrow> bool" where
  pool_insert: "insert_client host p = (r, p') \<Longrightarrow> pool_step p p'"
| pool_start: "pool_step p (start_client n p)"
| pool_client: "pool_heap p n = Some c \<Longrightarrow> rc_range_server_info c' = rc_range_server_info c \<Longrightarrow>
    pool_step p (p\<lparr>pool_heap := (pool_heap p)(n \<mapsto> c')\<rparr>)"

definition pool_wf :: "client_pool \<Rightarrow> bool" where
  "pool_wf p \<longleftrightarrow>
     (\<forall>i n. pool_range_clients p i = Some n \<longrightarrow> (\<exists>c. pool_heap p n = Some c \<and> identity (rc_range_server_info c) = i)) \<and>
     (\<forall>n. pool_heap p n \<noteq> None \<longrightarrow> n < pool_next p)"

section \<open>Lemmas\<close>

subsection \<open>Calls\<close>

lemma send_request_Ok:
  "send_request ok i ch msg rc = (Ok m, rc') \<longleftrightarrow>
     ok \<and> m = msg \<and> (\<exists>o'. rc_state rc = CStarted o' \<and> rc' = rc\<lparr>rc_state := CStarted (o'(i \<mapsto> ch))\<rparr>)"
  by (auto simp: send_request_def record_outstanding_request_def split: client_state.splits)

lemma send_request_frame:
  "send_request ok i ch msg rc = (r, rc') \<Longrightarrow> rc_range_server_info rc' = rc_range_server_info rc \<and>
     (outstanding_of (rc_state rc') = outstanding_of (rc_state rc) \<or>
      outstanding_of (rc_state rc') = (outstanding_of (rc_state rc))(i \<mapsto> ch))"
  by (auto simp: send_request_def record_outstanding_request_def split: client_state.splits if_splits)

lemmas call_defs = client_get_def client_prepare_transaction_def client_abort_transaction_def client_commit_transaction_def

lemma call_begin_send: "\<exists>msg. \<forall>ok rc. call_begin to_le ok i ch call rc = send_request ok i ch msg rc \<and>
    request_id_of msg = Some (serialize_uuid to_le i) \<and>
    (\<forall>from_le. (\<forall>u. from_le (to_le u) = u) \<longrightarrow> request_range_of from_le msg = Ok (call_target call))"
  by (cases call) (auto simp: call_defs request_ids_def deserialize_serialize_uuid deserialize_serialize_range_id)

subsection \<open>Delivery\<close>

lemma client_inv_call:
  assumes "client_inv decode from_le s" "i \<notin> ran (cl_filed s)" "ch \<notin> dom (cl_filed s)"
    and "outstanding_of (rc_state rc') = outstanding_of (rc_state (cl_client s)) \<or>
      outstanding_of (rc_state rc') = (outstanding_of (rc_state (cl_client s)))(i \<mapsto> ch)"
  shows "client_inv decode from_le (s\<lparr>cl_client := rc', cl_filed := (cl_filed s)(ch \<mapsto> i)\<rparr>)"
proof -
  have "cl_mail s ch = None" using assms(1,3) by (auto simp: client_inv_def)
  moreover have "outstanding_of (rc_state (cl_client s)) j \<noteq> Some ch" for j
    using assms(1,3) by (auto simp: client_inv_def)
  moreover have "cl_filed s c \<noteq> Some i" for c using assms(2) by (auto simp: ran_def)
  ultimately show ?thesis using assms unfolding client_inv_def by (elim disjE) (auto split: if_splits)
qed

lemma network_loop_message_cases:
  assumes "network_loop_message decode from_le alive msg rc = (d, rc')"
  obtains (keep) "rc' = rc" "\<And>c m. d \<noteq> Ok (Deliver c m)"
  | (remove) i c o' where "get_request_id_from_response decode from_le msg = Ok i" "rc_state rc = CStarted o'" "o' i = Some c"
      "rc' = rc\<lparr>rc_state := CStarted (o'(i := None))\<rparr>" "d = Ok (Deliver c msg) \<or> d = Panic"
  using assms by (auto simp: network_loop_message_def split: outcome.splits client_state.splits option.splits if_splits)

lemma deliver_simps [simp]:
  "cl_client (deliver d s) = cl_client s" "cl_filed (deliver d s) = cl_filed s"
  "cl_mail (deliver d s) = (case d of Ok (Deliver c msg) \<Rightarrow> (cl_mail s)(c \<mapsto> Ok msg) | _ \<Rightarrow> cl_mail s)"
  by (auto simp: deliver_def split: outcome.splits loop_effect.splits)

lemma client_inv_message:
  assumes "client_inv decode from_le s" "network_loop_message decode from_le alive msg (cl_client s) = (d, rc')"
  shows "client_inv decode from_le (deliver d (s\<lparr>cl_client := rc'\<rparr>))"
  using assms(2)
proof (cases rule: network_loop_message_cases)
  case keep
  then have "cl_mail (deliver d (s\<lparr>cl_client := rc'\<rparr>)) = cl_mail s"
    by (auto split: outcome.splits loop_effect.splits)
  then show ?thesis using assms(1) keep(1) by (simp add: client_inv_def)
next
  case (remove i c o')
  have old: "cl_filed s c = Some i" "\<And>j c'. o' j = Some c' \<Longrightarrow> cl_filed s c' = Some j \<and> cl_mail s c' = None"
    using assms(1) remove(2,3) by (auto simp: client_inv_def)
  then have "c' \<noteq> c" if "o' j = Some c'" "j \<noteq> i" for j c'
    using that by fastforce
  then show ?thesis using assms(1) remove old
    by (auto simp: client_inv_def split: if_splits)
qed

lemma client_close_mail:
  assumes "client_close drain alive rc = (r, ds, rc')" "set drain = dom (outstanding_of (rc_state rc))"
  shows "rc_state rc' = CStopped" "rc_range_server_info rc' = rc_range_server_info rc"
    "\<And>c d. map_of ds c = Some d \<Longrightarrow> (d = Panic \<or> d = Err ConnectionClosed) \<and> (\<exists>i. outstanding_of (rc_state rc) i = Some c)"
proof -
  let ?o = "outstanding_of (rc_state rc)"
  have o: "(case rc_state rc of CNotStarted \<Rightarrow> Map.empty | CStopped \<Rightarrow> Map.empty | CStarted m \<Rightarrow> m) = ?o"
    by (cases "rc_state rc") auto
  have mem: "\<exists>i. ?o i = Some c" if "c \<in> set (map (the \<circ> ?o) drain)" for c
    using that assms(2) by force
  show "rc_state rc' = CStopped" "rc_range_server_info rc' = rc_range_server_info rc"
    using assms(1) by (auto simp: client_close_def Let_def split: list.splits if_splits)
  fix c d assume "map_of ds c = Some d"
  then have "(c, d) \<in> set ds" by (rule map_of_SomeD)
  then have "(d = Panic \<or> d = Err ConnectionClosed) \<and> c \<in> set (map (the \<circ> ?o) drain)"
    using assms(1) unfolding client_close_def o Let_def
    by (auto split: list.splits if_splits)
  then show "(d = Panic \<or> d = Err ConnectionClosed) \<and> (\<exists>i. ?o i = Some c)" using mem by blast
qed

lemma client_inv_close:
  assumes "client_inv decode from_le s" "set drain = dom (outstanding_of (rc_state (cl_client s)))"
    and "client_close drain alive (cl_client s) = (r, ds, rc')"
  shows "client_inv decode from_le (s\<lparr>cl_client := rc', cl_mail := cl_mail s ++ map_of ds, cl_loop := False\<rparr>)"
proof -
  note c = client_close_mail [OF assms(3,2)]
  have d: "cl_filed s ch \<noteq> None \<and> (\<forall>msg. d \<noteq> Ok msg)" if "map_of ds ch = Some d" for ch d
    using c(3) [OF that] assms(1) by (auto simp: client_inv_def)
  then have "map_of ds ch = None" if "cl_filed s ch = None" for ch
    using that d by (cases "map_of ds ch") fastforce+
  then show ?thesis using assms(1) c(1) d unfolding client_inv_def
    by (fastforce simp: map_add_Some_iff map_add_None)
qed

lemma client_step_inv:
  "client_step decode from_le to_le s s' \<Longrightarrow> client_inv decode from_le s \<Longrightarrow> client_inv decode from_le s'"
proof (induction rule: client_step.induct)
  case (cl_start s)
  then show ?case by (auto simp: client_inv_def range_client_start_def split: client_state.splits)
next
  case (cl_call i s ch ok call r rc')
  then show ?case using call_begin_send [of to_le i ch call] send_request_frame
    by (intro client_inv_call) metis+
next
  case (cl_message s alive msg d rc')
  then show ?case by (intro client_inv_message)
next
  case (cl_cancel s)
  then show ?case by (simp add: client_inv_def)
next
  case (cl_close s drain alive r ds rc')
  then show ?case by (intro client_inv_close)
qed

interpretation client: invariant_system client_init "client_step decode from_le to_le" "client_inv decode from_le"
  for decode from_le to_le
proof
  fix s assume "client_init s"
  then show "client_inv decode from_le s" by (auto simp: client_init_def client_inv_def range_client_new_def)
qed (rule client_step_inv)

text \<open>What was delivered on a channel stays.\<close>

lemma client_step_mail:
  assumes "client_step decode from_le to_le s s'" "client_inv decode from_le s" "cl_mail s c = Some d"
  shows "cl_mail s' c = Some d"
  using assms
proof (induction rule: client_step.induct)
  case (cl_message s alive msg d' rc')
  from cl_message(2) show ?case
  proof (cases rule: network_loop_message_cases)
    case keep
    then show ?thesis using cl_message(4) by (auto split: outcome.splits loop_effect.splits)
  next
    case (remove i c' o')
    then have "cl_mail s c' = None" using cl_message(3) by (auto simp: client_inv_def)
    then show ?thesis using remove(5) cl_message(4) by auto
  qed
next
  case (cl_close s drain alive r ds rc')
  have "map_of ds c = None"
  proof (rule ccontr)
    assume "map_of ds c \<noteq> None"
    then obtain d' where "map_of ds c = Some d'" by blast
    then obtain i where "outstanding_of (rc_state (cl_client s)) i = Some c"
      using client_close_mail(3) [OF cl_close(5,4)] by blast
    then show False using cl_close(6,7) unfolding client_inv_def by force
  qed
  then show ?case using cl_close(7) by (simp add: map_add_Some_iff)
qed auto

text \<open>Once the network loop has ended in a started client, nobody is answered any more.\<close>

lemma dead_loop_step:
  assumes "client_step decode from_le to_le s s'" "\<not> cl_loop s" "rc_state (cl_client s) \<noteq> CNotStarted"
  shows "\<not> cl_loop s' \<and> rc_state (cl_client s') \<noteq> CNotStarted \<and> cl_mail s' = cl_mail s"
  using assms
proof (induction rule: client_step.induct)
  case (cl_start s)
  then show ?case by (auto simp: range_client_start_def split: client_state.splits)
next
  case (cl_call i s ch ok call r rc')
  then obtain msg where "send_request ok i ch msg (cl_client s) = (r, rc')"
    using call_begin_send [of to_le i ch call] by metis
  then show ?case using cl_call
    by (auto simp: send_request_def record_outstanding_request_def split: client_state.splits if_splits)
qed auto

lemma dead_loop:
  assumes "steps_to (client_step decode from_le to_le) s s'" "\<not> cl_loop s" "rc_state (cl_client s) \<noteq> CNotStarted"
  shows "\<not> cl_loop s' \<and> rc_state (cl_client s') \<noteq> CNotStarted \<and> cl_mail s' = cl_mail s"
  using assms by (induction rule: steps_to.induct) (auto dest: dead_loop_step)

subsection \<open>The pool\<close>

lemma range_client_start_info [simp]: "rc_range_server_info (range_client_start c) = rc_range_server_info c"
  by (auto simp: range_client_start_def split: client_state.splits)

lemma client_of_wf:
  "pool_wf p \<Longrightarrow> client_of i p = Some (n, c) \<Longrightarrow> pool_heap p n = Some c \<and> identity (rc_range_server_info c) = i"
  by (fastforce simp: client_of_def pool_wf_def split: option.splits)

lemma start_client_wf [inv_intros]: "pool_wf p \<Longrightarrow> pool_wf (start_client n p)"
  by (fastforce simp: pool_wf_def start_client_def)

lemma new_client_wf: "pool_wf p \<Longrightarrow> pool_wf (new_client host p)"
  by (fastforce simp: pool_wf_def new_client_def range_client_new_def less_Suc_eq)

lemma insert_client_wf: "insert_client host p = (r, p') \<Longrightarrow> pool_wf p \<Longrightarrow> pool_wf p'"
  by (auto simp: insert_client_def new_client_wf split: option.splits if_splits)

lemma pool_step_wf: "pool_step p p' \<Longrightarrow> pool_wf p \<Longrightarrow> pool_wf p'"
proof (induction rule: pool_step.induct)
  case (pool_insert host p r p')
  then show ?case by (rule insert_client_wf)
next
  case (pool_start p n)
  then show ?case by (rule start_client_wf)
next
  case (pool_client p n c c')
  then show ?case unfolding pool_wf_def by (auto split: if_splits) fastforce
qed

definition pool_init :: "client_pool \<Rightarrow> bool" where
  "pool_init p \<longleftrightarrow> p = client_pool_new"

interpretation pool: invariant_system pool_init pool_step pool_wf
proof
  fix p assume "pool_init p"
  then show "pool_wf p" by (simp add: pool_init_def pool_wf_def client_pool_new_def)
qed (rule pool_step_wf)

lemma call_finish_status:
  assumes "call_begin to_le ok i ch call rc = (Ok msg, rc')" "answers_kind msg resp"
    and "decode answer = Some (ResponsePacket resp)"
    and "\<forall>p. resp = PrepareResponse p \<longrightarrow> ps_status p = StOk \<longrightarrow> ps_epoch_lease p \<noteq> None"
  shows "call_finish decode call (Ok answer) = from_flatbuf_status (response_status_of resp)"
proof -
  have opened: "open_packet decode (Ok answer) = Ok (ResponsePacket resp)"
    using assms(3) by (simp add: open_packet_def)
  show ?thesis
  proof (cases call)
    case (CallGet tx r keys)
    then obtain m where "resp = GetResponse m"
      using assms(1,2) by (cases resp) (auto simp: client_get_def send_request_Ok)
    then show ?thesis using CallGet opened
      by (cases "from_flatbuf_status (gs_status m)") (simp_all add: client_get_finish_def)
  next
    case (CallPrepare tx r has_reads writes deletes)
    then obtain m where m: "resp = PrepareResponse m"
      using assms(1,2) by (cases resp) (auto simp: client_prepare_transaction_def send_request_Ok)
    have "client_prepare_finish decode (Ok answer) = and_then (from_flatbuf_status (ps_status m))
        (\<lambda>_. case ps_epoch_lease m of None \<Rightarrow> Panic
           | Some lease \<Rightarrow> Ok \<lparr>pk_highest_known_epoch = ps_highest_known_epoch m, pk_epoch_lease = lease\<rparr>)"
      using m opened by (simp add: client_prepare_finish_def)
    then show ?thesis using CallPrepare m assms(4)
      by (cases "from_flatbuf_status (ps_status m)") auto
  next
    case (CallAbort tx r)
    then obtain m where "resp = AbortResponse m"
      using assms(1,2) by (cases resp) (auto simp: client_abort_transaction_def send_request_Ok)
    then show ?thesis using CallAbort opened by (simp add: client_abort_finish_def)
  next
    case (CallCommit tx r epoch)
    then obtain m where "resp = CommitResponse m"
      using assms(1,2) by (cases resp) (auto simp: client_commit_transaction_def send_request_Ok)
    then show ?thesis using CallCommit opened by (simp add: client_commit_finish_def)
  qed
qed

section \<open>Properties\<close>

text \<open>
  C22: a caller only ever sees the answer to its own request. Whatever the order of calls, responses and
  cancellation, a response delivered on a channel carries the request id that the call on this channel was
  given, no other channel was made for that id, and what was once delivered is never replaced.
\<close>

theorem client_response_correlated:
  assumes "reachable client_init (client_step decode from_le to_le) s" "cl_mail s c = Some (Ok msg)"
    and "client_step decode from_le to_le s s'"
  shows "\<exists>i. cl_filed s c = Some i \<and> get_request_id_from_response decode from_le msg = Ok i \<and>
    (\<forall>c'. cl_filed s c' = Some i \<longrightarrow> c' = c) \<and> outstanding_of (rc_state (cl_client s)) i = None \<and>
    cl_mail s' c = Some (Ok msg)"
proof -
  have inv: "client_inv decode from_le s" by (rule client.reachable_inv [OF assms(1)])
  then obtain i where i: "cl_filed s c = Some i" "get_request_id_from_response decode from_le msg = Ok i"
    using assms(2) unfolding client_inv_def by blast
  moreover have uniq: "c' = c" if "cl_filed s c' = Some i" for c'
    using inv i(1) that unfolding client_inv_def by blast
  moreover have "outstanding_of (rc_state (cl_client s)) i = None"
  proof (rule ccontr)
    assume "outstanding_of (rc_state (cl_client s)) i \<noteq> None"
    then obtain c' where "cl_filed s c' = Some i" "cl_mail s c' = None"
      using inv unfolding client_inv_def by blast
    then show False using uniq assms(2) by force
  qed
  ultimately show ?thesis using client_step_mail [OF assms(3) inv assms(2)] by blast
qed

text \<open>
  C27: a call reaches the range it is for, and its caller learns what the server decided. The server reads from the
  request of any of the four calls the range and the transaction of the caller. If the server
  answers, the network loop hands the answer to the caller, who gets success exactly when the status is Ok,
  and otherwise the error of the status. The conversions between uuids and 128 bit numbers are inverse to each other.
\<close>

theorem client_server_round_trip:
  assumes "\<And>u. from_le (to_le u) = u" "\<And>x. to_le (from_le x) = x"
    and "call_begin to_le ok i ch call rc = (Ok msg, rc')"
    and "decode packet = Ok msg" "handle_message decode from_le to_le env packet sv = (Ok (Some (Answer resp)), sv', sent)"
    and "decode_resp answer = Some (ResponsePacket resp)" "alive ch"
  shows "request_range_of from_le msg = Ok (call_target call) \<and>
    fst (network_loop_message decode_resp from_le alive answer rc') = Ok (Deliver ch answer) \<and>
    call_finish decode_resp call (Ok answer) = from_flatbuf_status (response_status_of resp)"
proof -
  obtain m where m: "call_begin to_le ok i ch call rc = send_request ok i ch m rc"
      "request_id_of m = Some (serialize_uuid to_le i)" "request_range_of from_le m = Ok (call_target call)"
    using call_begin_send [of to_le i ch call] assms(1) by metis
  then obtain o' where o': "m = msg" "rc' = rc\<lparr>rc_state := CStarted (o'(i \<mapsto> ch))\<rparr>"
    using assms(3) unfolding m(1) send_request_Ok by blast
  note ans = message_answer [of to_le from_le decode packet, OF assms(2,4,5)]
  have id: "response_id_of resp = Some (serialize_uuid to_le i)" using ans m(2) o'(1) by simp
  then have "get_request_id_from_response decode_resp from_le answer = Ok i"
    using assms(6) by (simp add: get_request_id_from_response_def deserialize_serialize_uuid [of from_le to_le, OF assms(1)])
  then have "fst (network_loop_message decode_resp from_le alive answer rc') = Ok (Deliver ch answer)"
    using o'(2) assms(7) by (simp add: network_loop_message_def)
  moreover have "call_finish decode_resp call (Ok answer) = from_flatbuf_status (response_status_of resp)"
    using ans assms(3,6) by (intro call_finish_status) auto
  ultimately show ?thesis using m(3) o'(1) by simp
qed

text \<open>
  The client the pool hands out for a range talks to the host of that range. In every state the concurrent users of the pool
  can bring it to, the client returned for a host has exactly this host info, and the pool lists it under
  the identity of the host; without a host the caller gets RangeIsNotLoaded and the pool is unchanged.
\<close>

theorem range_client_for_host:
  assumes "reachable pool_init pool_step p" "get_range_client host p = (r, p')"
  shows "(case host of
      None \<Rightarrow> r = Err RangeIsNotLoaded \<and> p' = p
    | Some h \<Rightarrow> \<exists>n c. r = Ok n \<and> client_of (identity h) p' = Some (n, c) \<and> rc_range_server_info c = h)"
proof (cases host)
  case None
  then show ?thesis using assms(2) by (simp add: get_range_client_def)
next
  case (Some h)
  have "client_of i (start_client n q) = map_option (\<lambda>(m, c). (m, if m = n then range_client_start c else c)) (client_of i q)" for i n q
    by (auto simp: client_of_def start_client_def option.map_comp comp_def split: option.splits)
  moreover have "client_of (identity h) (new_client h p) = Some (pool_next p, range_client_new h None)"
    by (simp add: client_of_def new_client_def)
  moreover have "rc_range_server_info (range_client_new h None) = h" by (simp add: range_client_new_def)
  ultimately show ?thesis using assms(2) Some
    by (auto simp: get_range_client_def existing_client_def insert_client_def split: option.splits if_splits)
qed

section \<open>Observations\<close>

text \<open>
  A client that was stopped is never replaced: the pool finds it again under the write lock, where it only compares
  the host, and every call through it is refused.
\<close>

lemma stopped_client_returned:
  assumes "client_of (identity h) p = Some (n, c)" "rc_range_server_info c = h" "rc_state c = CStopped"
  shows "get_range_client (Some h) p = (Ok n, p)"
    "fst (pool_begin to_le ok i ch call (Some h) p) = Err ConnectionClosed"
proof -
  show g: "get_range_client (Some h) p = (Ok n, p)"
    using assms by (simp add: get_range_client_def existing_client_def insert_client_def)
  have "pool_heap p n = Some c" using assms(1) by (auto simp: client_of_def split: option.splits)
  moreover obtain msg where "call_begin to_le ok i ch call c = send_request ok i ch msg c"
    using call_begin_send [of to_le i ch call] by metis
  ultimately show "fst (pool_begin to_le ok i ch call (Some h) p) = Err ConnectionClosed"
    using g assms(3) by (simp add: pool_begin_def send_request_def record_outstanding_request_def)
qed

text \<open>Closing a client with two outstanding requests answers one; the caller of the other panics.\<close>

lemma close_answers_one:
  assumes "rc_state rc = CStarted [1 \<mapsto> 10, 2 \<mapsto> 20]"
  shows "fst (snd (client_close [1, 2] (\<lambda>_. True) rc)) = [(10, Err ConnectionClosed), (20, Panic)]"
    "call_finish decode call Panic = Panic"
  using assms by (cases call; simp add: client_close_def client_get_finish_def client_prepare_finish_def
      client_abort_finish_def client_commit_finish_def open_packet_def)+

text \<open>
  A response nobody waits for (a duplicate, or one whose caller was dropped) ends the network loop while the
  client stays started: it is not replaced by the pool, accepts requests, and answers none of them ever again.
\<close>

lemma duplicate_response_stops_client:
  assumes "get_request_id_from_response decode from_le msg = Ok i" "rc_state (cl_client s) = CStarted o'" "o' i = None"
    and "cl_loop s" "steps_to (client_step decode from_le to_le) (s\<lparr>cl_loop := False\<rparr>) s'"
  shows "client_step decode from_le to_le s (s\<lparr>cl_loop := False\<rparr>)" "cl_mail s' = cl_mail s"
    "\<not> is_stopped (cl_client s)"
proof -
  have m: "network_loop_message decode from_le alive msg (cl_client s) = (Panic, cl_client s)" for alive
    using assms(1-3) by (simp add: network_loop_message_def)
  have "client_step decode from_le to_le s (deliver Panic (s\<lparr>cl_client := cl_client s\<rparr>))"
    by (rule cl_message [OF assms(4) m])
  then show "client_step decode from_le to_le s (s\<lparr>cl_loop := False\<rparr>)" by (simp add: deliver_def)
  show "cl_mail s' = cl_mail s" using dead_loop [OF assms(5)] assms(2) by simp
  show "\<not> is_stopped (cl_client s)" using assms(2) by simp
qed

section \<open>Witnesses\<close>

definition ex_host :: host_info where
  "ex_host = \<lparr>identity = \<lparr>hid_name = ''rs1'', hid_zone = \<lparr>zone_region = \<lparr>reg_cloud = None, reg_name = ''r''\<rparr>, zone_name = ''z''\<rparr>\<rparr>,
     address = \<lparr>hp_host = ''h'', hp_port = 1\<rparr>, warden_connection_epoch = 0\<rparr>"

definition ex_client_tx :: transaction_info where
  "ex_client_tx = \<lparr>tx_id = 5, started = 0, overall_timeout = 1000\<rparr>"

definition ex_response :: response where
  "ex_response = AbortResponse \<lparr>as_request_id = Some (serialize_uuid id 7), as_status = StRangeIsNotLoaded\<rparr>"

definition ex_client_at :: "client_state \<Rightarrow> (chan \<rightharpoonup> delivery) \<Rightarrow> (chan \<rightharpoonup> uuid) \<Rightarrow> bool \<Rightarrow> client_sys" where
  "ex_client_at st mail filed running = \<lparr>cl_client = (range_client_new ex_host None)\<lparr>rc_state := st\<rparr>, cl_mail = mail, cl_filed = filed,
     cl_token = False, cl_loop = running\<rparr>"

lemma ex_client_reachable:
  "reachable client_init (client_step (\<lambda>_. Some (ResponsePacket ex_response)) id id)
     (ex_client_at (CStarted Map.empty) [3 \<mapsto> Ok []] [3 \<mapsto> 7] True)"
proof -
  let ?step = "client_step (\<lambda>_. Some (ResponsePacket ex_response)) id id"
  have r0: "reachable client_init ?step (ex_client_at CNotStarted Map.empty Map.empty False)"
    by (rule reach_init) (auto simp: client_init_def ex_client_at_def range_client_new_def)
  have r1: "reachable client_init ?step (ex_client_at (CStarted Map.empty) Map.empty Map.empty True)"
    by (rule reach_step [OF r0], rule back_subst [of "?step _", OF cl_start])
      (simp add: ex_client_at_def range_client_start_def range_client_new_def)
  have "call_begin id True 7 3 (CallAbort ex_client_tx ex_range) (cl_client (ex_client_at (CStarted Map.empty) Map.empty Map.empty True)) =
      (Ok (AbortMsg \<lparr>aq_request_id = Some (serialize_uuid id 7), aq_transaction_id = Some (serialize_uuid id 5),
         aq_range_id = Some (serialize_range_id id ex_range)\<rparr>),
       cl_client (ex_client_at (CStarted [7 \<mapsto> 3]) Map.empty Map.empty True))"
    by (simp add: client_abort_transaction_def send_request_def record_outstanding_request_def ex_client_at_def ex_client_tx_def)
  then have r2: "reachable client_init ?step (ex_client_at (CStarted [7 \<mapsto> 3]) Map.empty [3 \<mapsto> 7] True)"
    by (intro reach_step [OF r1], intro back_subst [of "?step _", OF cl_call [rotated 2]]) (assumption, auto simp: ex_client_at_def)
  have "network_loop_message (\<lambda>_. Some (ResponsePacket ex_response)) id (\<lambda>_. True) []
      (cl_client (ex_client_at (CStarted [7 \<mapsto> 3]) Map.empty [3 \<mapsto> 7] True)) =
      (Ok (Deliver 3 []), cl_client (ex_client_at (CStarted Map.empty) Map.empty Map.empty True))"
    by (simp add: network_loop_message_def get_request_id_from_response_def ex_response_def ex_client_at_def
        deserialize_serialize_uuid)
  then show ?thesis
    by (intro reach_step [OF r2], intro back_subst [of "?step _", OF cl_message [rotated]]) (assumption, auto simp: ex_client_at_def deliver_def)
qed

lemma client_response_correlated_witness:
  "\<exists>i. cl_filed (ex_client_at (CStarted Map.empty) [3 \<mapsto> Ok []] [3 \<mapsto> 7] True) 3 = Some i \<and>
     get_request_id_from_response (\<lambda>_. Some (ResponsePacket ex_response)) id [] = Ok i"
  using client_response_correlated [OF ex_client_reachable _ cl_cancel, of 3 "[]"] by (auto simp: ex_client_at_def)

lemma client_server_round_trip_witness:
  "call_finish (\<lambda>_. Some (ResponsePacket ex_response)) (CallAbort ex_client_tx ex_range) (Ok []) = Err RangeIsNotLoaded"
proof -
  let ?msg = "\<lparr>aq_request_id = Some (serialize_uuid id 7), aq_transaction_id = Some (serialize_uuid id 5),
         aq_range_id = Some (serialize_range_id id ex_range)\<rparr>"
  let ?sv = "server_new 100000000 ex_db :: (storage_db, in_mem_wal) server"
  have b: "call_begin id True 7 3 (CallAbort ex_client_tx ex_range) (cl_client (ex_client_at (CStarted Map.empty) Map.empty Map.empty True)) =
      (Ok (AbortMsg ?msg), cl_client (ex_client_at (CStarted [7 \<mapsto> 3]) Map.empty Map.empty True))"
    by (simp add: client_abort_transaction_def send_request_def record_outstanding_request_def ex_client_at_def ex_client_tx_def)
  have "request_ids id (Some (serialize_range_id id ex_range)) (Some (serialize_uuid id 5)) = Ok (ex_range, 5)"
    by (simp add: request_ids_def deserialize_serialize_range_id deserialize_serialize_uuid)
  moreover have "maybe_load_and_get_range ex_env ex_range ?sv = (Err RangeIsNotLoaded, ?sv)"
    by (rule not_assigned_load) (simp_all add: server_new_def is_assigned_def warden_handler_new_def)
  ultimately have h: "handle_message (\<lambda>_. Ok (AbortMsg ?msg)) id id ex_env [] ?sv = (Ok (Some (Answer ex_response)), ?sv, [])"
    by (simp add: handle_message_def handle_abort_def abort_inner_def finish_inner_def finish_reply_def abort_answer_def
        echo_id_def deserialize_serialize_uuid ex_response_def)
  show ?thesis
    using client_server_round_trip [where decode_resp = "\<lambda>_. Some (ResponsePacket ex_response)" and answer = "[]" and alive = "\<lambda>_. True",
        OF _ _ b refl h refl] by (simp add: ex_response_def)
qed

lemma range_client_for_host_witness:
  "\<exists>n c. client_of (identity ex_host) (snd (get_range_client (Some ex_host) client_pool_new)) = Some (n, c) \<and>
     rc_range_server_info c = ex_host"
  using range_client_for_host [OF reach_init prod.collapse [symmetric], of client_pool_new "Some ex_host"]
  by (auto simp: pool_init_def)

end
