(* ===== verification/Tx_State_Store.thy ===== *)
theory Tx_State_Store
  imports Cql
begin

text \<open>
  The store of transaction outcomes (tx\_state\_store/src/storage/cassandra.rs), whose
  row for a transaction decides whether it committed. An operation takes the session and
  the table and returns its result and the table.
\<close>

section \<open>Definitions\<close>

datatype tx_store_error = TxTimeout | TxInternalError string

datatype op_result = TransactionIsAborted | TransactionIsCommitted u64

record tx_row =
  tx_status :: string
  tx_epoch :: "i64 option"

type_synonym tx_table = "uuid \<rightharpoonup> tx_row"

datatype tx_stmt =
    START_TRANSACTION_QUERY uuid
  | COMMIT_TRANSACTION_QUERY i64 uuid
  | ABORT_TRANSACTION_QUERY uuid
  | GET_COMMIT_EPOCH_QUERY uuid

datatype tx_rows = Applied "bool list" | Epochs "i64 option list" | NoRows

fun tx_sem :: "tx_stmt \<Rightarrow> tx_table \<Rightarrow> tx_rows \<times> tx_table" where
  "tx_sem (START_TRANSACTION_QUERY i) t =
     (case t i of
        None \<Rightarrow> (Applied [True], t(i \<mapsto> \<lparr>tx_status = ''started'', tx_epoch = None\<rparr>))
      | Some _ \<Rightarrow> (Applied [False], t))"
| "tx_sem (COMMIT_TRANSACTION_QUERY e i) t =
     (case t i of
        None \<Rightarrow> (Applied [False], t)
      | Some r \<Rightarrow> (if tx_status r \<in> {''started'', ''committed''}
                   then (Applied [True], t(i \<mapsto> r\<lparr>tx_status := ''committed'', tx_epoch := Some e\<rparr>))
                   else (Applied [False], t)))"
| "tx_sem (ABORT_TRANSACTION_QUERY i) t =
     (case t i of
        None \<Rightarrow> (Applied [False], t)
      | Some r \<Rightarrow> (if tx_status r \<in> {''started'', ''aborted''}
                   then (Applied [True], t(i \<mapsto> r\<lparr>tx_status := ''aborted''\<rparr>))
                   else (Applied [False], t)))"
| "tx_sem (GET_COMMIT_EPOCH_QUERY i) t =
     (case t i of
        None \<Rightarrow> (Epochs [], t)
      | Some r \<Rightarrow> (Epochs (if tx_status r = ''committed'' then [tx_epoch r] else []), t))"

type_synonym tx_session = "(tx_stmt, tx_table, tx_rows) session"

fun scylla_query_error_to_tx_error :: "query_error \<Rightarrow> tx_store_error" where
  "scylla_query_error_to_tx_error TimeoutError = TxTimeout"
| "scylla_query_error_to_tx_error DbWriteTimeout = TxTimeout"
| "scylla_query_error_to_tx_error (OtherQueryError e) = TxInternalError e"

definition maybe_get_commit_epoch ::
  "tx_session \<Rightarrow> uuid \<Rightarrow> tx_table \<Rightarrow> (tx_store_error, op_result) outcome \<times> tx_table" where
  "maybe_get_commit_epoch exec i t =
     (case exec 1 (GET_COMMIT_EPOCH_QUERY i) t of
        (Ok NoRows, t') \<Rightarrow> (Ok TransactionIsAborted, t')
      | (Ok (Epochs []), t') \<Rightarrow> (Ok TransactionIsAborted, t')
      | (Ok (Epochs [Some e]), t') \<Rightarrow> (Ok (TransactionIsCommitted e), t')
      | (Ok _, t') \<Rightarrow> (Panic, t')
      | (Err qe, t') \<Rightarrow> (Err (scylla_query_error_to_tx_error qe), t')
      | (Panic, t') \<Rightarrow> (Panic, t'))"

definition start_transaction ::
  "tx_session \<Rightarrow> uuid \<Rightarrow> tx_table \<Rightarrow> (tx_store_error, unit) outcome \<times> tx_table" where
  "start_transaction exec i t =
     (case exec 0 (START_TRANSACTION_QUERY i) t of
        (Ok _, t') \<Rightarrow> (Ok (), t')
      | (Err qe, t') \<Rightarrow> (Err (scylla_query_error_to_tx_error qe), t')
      | (Panic, t') \<Rightarrow> (Panic, t'))"

definition commit_transaction ::
  "tx_session \<Rightarrow> uuid \<Rightarrow> u64 \<Rightarrow> tx_table \<Rightarrow> (tx_store_error, op_result) outcome \<times> tx_table" where
  "commit_transaction exec i epoch t =
     (case exec 0 (COMMIT_TRANSACTION_QUERY epoch i) t of
        (Ok (Applied [applied]), t') \<Rightarrow>
          (Ok (if applied then TransactionIsCommitted epoch else TransactionIsAborted), t')
      | (Ok _, t') \<Rightarrow> (Panic, t')
      | (Err qe, t') \<Rightarrow> (Err (scylla_query_error_to_tx_error qe), t')
      | (Panic, t') \<Rightarrow> (Panic, t'))"

text \<open>An abort is a conditional write and, if that is not applied (\<^term>\<open>Ok None\<close>), a separate read.\<close>

definition abort_query ::
  "tx_session \<Rightarrow> uuid \<Rightarrow> tx_table \<Rightarrow> (tx_store_error, op_result option) outcome \<times> tx_table" where
  "abort_query exec i t =
     (case exec 0 (ABORT_TRANSACTION_QUERY i) t of
        (Ok (Applied [applied]), t') \<Rightarrow> (Ok (if applied then Some TransactionIsAborted else None), t')
      | (Ok _, t') \<Rightarrow> (Panic, t')
      | (Err qe, t') \<Rightarrow> (Err (scylla_query_error_to_tx_error qe), t')
      | (Panic, t') \<Rightarrow> (Panic, t'))"

definition abort_transaction ::
  "tx_session \<Rightarrow> uuid \<Rightarrow> tx_table \<Rightarrow> (tx_store_error, op_result) outcome \<times> tx_table" where
  "abort_transaction exec i t =
     (case abort_query exec i t of
        (Ok (Some x), t') \<Rightarrow> (Ok x, t')
      | (Ok None, t') \<Rightarrow> maybe_get_commit_epoch exec i t'
      | (Err e, t') \<Rightarrow> (Err e, t')
      | (Panic, t') \<Rightarrow> (Panic, t'))"

subsection \<open>Clients of the store\<close>

text \<open>
  Any number of clients, whose operations interleave query by query. The state is the table, the aborts
  that still have to do their read, and the answers received so far. Aborts and answers carry
  whether the transaction had a row when the operation began. Every query may meet its own failure.
\<close>

record tx_clients =
  cl_table :: tx_table
  cl_reads :: "(uuid \<times> bool) list"
  cl_answers :: "(uuid \<times> bool \<times> op_result) list"

abbreviation has_row :: "uuid \<Rightarrow> tx_clients \<Rightarrow> bool" where
  "has_row i s \<equiv> cl_table s i \<noteq> None"

fun answered :: "uuid \<Rightarrow> bool \<Rightarrow> (tx_store_error, op_result) outcome \<Rightarrow> tx_clients \<Rightarrow> tx_clients" where
  "answered i b (Ok x) s = s\<lparr>cl_answers := (i, b, x) # cl_answers s\<rparr>"
| "answered i b _ s = s"

fun abort_answered :: "uuid \<Rightarrow> bool \<Rightarrow> (tx_store_error, op_result option) outcome \<Rightarrow> tx_clients \<Rightarrow> tx_clients" where
  "abort_answered i b (Ok None) s = s\<lparr>cl_reads := (i, b) # cl_reads s\<rparr>"
| "abort_answered i b (Ok (Some x)) s = s\<lparr>cl_answers := (i, b, x) # cl_answers s\<rparr>"
| "abort_answered i b _ s = s"

inductive tx_client_step :: "tx_clients \<Rightarrow> tx_clients \<Rightarrow> bool" where
  client_start: "executes tx_sem exec \<Longrightarrow> start_transaction exec i (cl_table s) = (r, t') \<Longrightarrow>
     tx_client_step s (s\<lparr>cl_table := t'\<rparr>)"
| client_commit: "executes tx_sem exec \<Longrightarrow> commit_transaction exec i e (cl_table s) = (rc, t') \<Longrightarrow>
     tx_client_step s (answered i (has_row i s) rc (s\<lparr>cl_table := t'\<rparr>))"
| client_abort: "executes tx_sem exec \<Longrightarrow> abort_query exec i (cl_table s) = (ra, t') \<Longrightarrow>
     tx_client_step s (abort_answered i (has_row i s) ra (s\<lparr>cl_table := t'\<rparr>))"
| client_read: "executes tx_sem exec \<Longrightarrow> (i, b) \<in> set (cl_reads s) \<Longrightarrow>
     maybe_get_commit_epoch exec i (cl_table s) = (rr, t') \<Longrightarrow>
     tx_client_step s (answered i b rr (s\<lparr>cl_table := t', cl_reads := remove1 (i, b) (cl_reads s)\<rparr>))"

definition tx_store_init :: "tx_clients \<Rightarrow> bool" where
  "tx_store_init s \<longleftrightarrow> s = \<lparr>cl_table = Map.empty, cl_reads = [], cl_answers = []\<rparr>"

definition tx_row_ok :: "tx_row \<Rightarrow> bool" where
  "tx_row_ok r \<longleftrightarrow> tx_status r \<in> {''started'', ''committed'', ''aborted''} \<and>
     (tx_status r = ''committed'' \<longrightarrow> tx_epoch r \<noteq> None)"

definition tx_rows_ok :: "tx_table \<Rightarrow> bool" where
  "tx_rows_ok t \<longleftrightarrow> (\<forall>i r. t i = Some r \<longrightarrow> tx_row_ok r)"

definition decided_as :: "op_result \<Rightarrow> tx_row \<Rightarrow> bool" where
  "decided_as x r \<longleftrightarrow> tx_status r =
     (case x of TransactionIsAborted \<Rightarrow> ''aborted'' | TransactionIsCommitted _ \<Rightarrow> ''committed'')"

definition answer_ok :: "tx_table \<Rightarrow> uuid \<Rightarrow> bool \<Rightarrow> op_result \<Rightarrow> bool" where
  "answer_ok t i b x \<longleftrightarrow> (b \<or> x \<noteq> TransactionIsAborted \<longrightarrow> (\<exists>r. t i = Some r \<and> decided_as x r))"

text \<open>The table agrees with the answers; an abort of a started transaction that has to read met a committed row.\<close>

definition tx_inv :: "tx_clients \<Rightarrow> bool" where
  "tx_inv s \<longleftrightarrow> tx_rows_ok (cl_table s) \<and> (\<forall>(i, b, x) \<in> set (cl_answers s). answer_ok (cl_table s) i b x) \<and>
     (\<forall>(i, b) \<in> set (cl_reads s). b \<longrightarrow> (\<exists>r. cl_table s i = Some r \<and> tx_status r = ''committed''))"

section \<open>Lemmas\<close>

text \<open>No row disappears and no decided row changes its status.\<close>

definition tx_keeps :: "tx_table \<Rightarrow> tx_table \<Rightarrow> bool" where
  "tx_keeps t t' \<longleftrightarrow> (\<forall>i r. t i = Some r \<longrightarrow> (\<exists>r'. t' i = Some r' \<and>
     (tx_status r = tx_status r' \<or> tx_status r = ''started'')))"

lemma tx_sem_keeps: "tx_keeps t (snd (tx_sem s t))"
  by (cases s) (auto simp: tx_keeps_def split: option.splits if_splits)

lemma tx_sem_rows_ok: "tx_rows_ok t \<Longrightarrow> tx_rows_ok (snd (tx_sem s t))"
  by (cases s) (auto simp: tx_rows_ok_def tx_row_ok_def split: option.splits if_splits)

lemma tx_keeps_refl [simp]: "tx_keeps t t"
  by (auto simp: tx_keeps_def)

lemma exec_keeps: "executes tx_sem exec \<Longrightarrow> exec n s t = (r, t') \<Longrightarrow> tx_keeps t t'"
  by (erule executes_cases [where i = n and s = s and db = t]) (use tx_sem_keeps in auto)

lemma exec_rows_ok: "executes tx_sem exec \<Longrightarrow> exec n s t = (r, t') \<Longrightarrow> tx_rows_ok t \<Longrightarrow> tx_rows_ok t'"
  by (erule executes_cases [where i = n and s = s and db = t]) (use tx_sem_rows_ok in auto)

text \<open>The operations, on a table with a row for the transaction.\<close>

lemma commit_transaction_cases:
  assumes "executes tx_sem exec" "commit_transaction exec i e t = (r, t')" "t i = Some w"
  shows "(r = Ok (TransactionIsCommitted e) \<and> tx_status w \<in> {''started'', ''committed''} \<and>
            t' = t(i \<mapsto> w\<lparr>tx_status := ''committed'', tx_epoch := Some e\<rparr>)) \<or>
         (r = Ok TransactionIsAborted \<and> tx_status w \<notin> {''started'', ''committed''} \<and> t' = t) \<or>
         (\<exists>er. r = Err er \<and> (t' = t \<or> t' = snd (tx_sem (COMMIT_TRANSACTION_QUERY e i) t)))"
  using assms(1)
  by (rule executes_cases [where i = 0 and s = "COMMIT_TRANSACTION_QUERY e i" and db = t])
    (use assms(2,3) in \<open>auto simp: commit_transaction_def split: if_splits\<close>)

lemma maybe_get_commit_epoch_cases:
  assumes "executes tx_sem exec" "maybe_get_commit_epoch exec i t = (r, t')" "t i = Some w"
  shows "t' = t \<and> ((r = Ok TransactionIsAborted \<and> tx_status w \<noteq> ''committed'') \<or>
      (\<exists>e. r = Ok (TransactionIsCommitted e) \<and> tx_status w = ''committed'' \<and> tx_epoch w = Some e) \<or>
      (r = Panic \<and> tx_status w = ''committed'' \<and> tx_epoch w = None) \<or> (\<exists>er. r = Err er))"
  using assms(1)
  by (rule executes_cases [where i = 1 and s = "GET_COMMIT_EPOCH_QUERY i" and db = t])
    (use assms(2,3) in \<open>auto simp: maybe_get_commit_epoch_def split: if_splits option.splits\<close>)

lemma abort_query_effect:
  assumes "executes tx_sem exec" "abort_query exec i t = (r, t')"
  shows "(\<exists>w. r = Ok (Some TransactionIsAborted) \<and> t i = Some w \<and> tx_status w \<in> {''started'', ''aborted''} \<and>
      t' = t(i \<mapsto> w\<lparr>tx_status := ''aborted''\<rparr>)) \<or>
    (r = Ok None \<and> t' = t \<and> (\<forall>w. t i = Some w \<longrightarrow> tx_status w \<notin> {''started'', ''aborted''})) \<or>
    (\<exists>er. r = Err er \<and> (t' = t \<or> t' = snd (tx_sem (ABORT_TRANSACTION_QUERY i) t)))"
  using assms(1)
  by (rule executes_cases [where i = 0 and s = "ABORT_TRANSACTION_QUERY i" and db = t])
    (use assms(2) in \<open>auto simp: abort_query_def split: if_splits option.splits\<close>)

lemma abort_query_cases:
  assumes "executes tx_sem exec" "abort_query exec i t = (r, t')"
  obtains (applied) w where "r = Ok (Some TransactionIsAborted)" "t i = Some w" "tx_status w \<in> {''started'', ''aborted''}"
      "t' = t(i \<mapsto> w\<lparr>tx_status := ''aborted''\<rparr>)"
  | (unapplied) "r = Ok None" "t' = t" "\<And>w. t i = Some w \<Longrightarrow> tx_status w \<notin> {''started'', ''aborted''}"
  | (failed) er where "r = Err er" "t' = t \<or> t' = snd (tx_sem (ABORT_TRANSACTION_QUERY i) t)"
  using abort_query_effect [OF assms] by blast

lemma abort_transaction_cases:
  assumes "executes tx_sem exec" "abort_transaction exec i t = (r, t')" "t i = Some w"
  shows "(r = Ok TransactionIsAborted \<and> tx_status w \<in> {''started'', ''aborted''} \<and>
            t' = t(i \<mapsto> w\<lparr>tx_status := ''aborted''\<rparr>)) \<or>
         (tx_status w \<notin> {''started'', ''aborted''} \<and> maybe_get_commit_epoch exec i t = (r, t')) \<or>
         (\<exists>er. r = Err er \<and> (t' = t \<or> t' = snd (tx_sem (ABORT_TRANSACTION_QUERY i) t)))"
proof -
  obtain ra ta where a: "abort_query exec i t = (ra, ta)" by fastforce
  show ?thesis
    using assms(1) a by (cases rule: abort_query_cases) (use assms(2,3) a in \<open>auto simp: abort_transaction_def\<close>)
qed

lemma decided_keeps:
  "tx_keeps t t' \<Longrightarrow> t i = Some r \<Longrightarrow> decided_as x r \<Longrightarrow> \<exists>r'. t' i = Some r' \<and> decided_as x r'"
  by (fastforce simp: tx_keeps_def decided_as_def split: op_result.splits)

lemma answer_ok_keeps: "tx_keeps t t' \<Longrightarrow> answer_ok t i b x \<Longrightarrow> answer_ok t' i b x"
  using decided_keeps by (auto simp: answer_ok_def)

lemma tx_inv_table:
  assumes "tx_inv s" "tx_keeps (cl_table s) t'" "tx_rows_ok t'" "set rs \<subseteq> set (cl_reads s)"
  shows "tx_inv (s\<lparr>cl_table := t', cl_reads := rs\<rparr>)"
proof -
  have "\<exists>r. t' i = Some r \<and> tx_status r = ''committed''" if rs: "(i, b) \<in> set rs" "b" for i b
  proof -
    have "(i, b) \<in> set (cl_reads s)" using rs(1) assms(4) by blast
    then obtain r where r: "cl_table s i = Some r" "tx_status r = ''committed''"
      using assms(1) rs(2) unfolding tx_inv_def by blast
    then obtain r' where "t' i = Some r'" "tx_status r = tx_status r' \<or> tx_status r = ''started''"
      using assms(2) unfolding tx_keeps_def by blast
    then show ?thesis using r(2) by simp
  qed
  then have "\<forall>(i, b) \<in> set rs. b \<longrightarrow> (\<exists>r. t' i = Some r \<and> tx_status r = ''committed'')" by blast
  moreover have "\<forall>(i, b, x) \<in> set (cl_answers s). answer_ok t' i b x"
    using assms(1) answer_ok_keeps [OF assms(2)] unfolding tx_inv_def by blast
  ultimately show ?thesis using assms(3) by (simp add: tx_inv_def)
qed

lemma tx_inv_answered:
  "tx_inv s \<Longrightarrow> (\<And>x. r = Ok x \<Longrightarrow> answer_ok (cl_table s) i b x) \<Longrightarrow> tx_inv (answered i b r s)"
  by (cases r) (auto simp: tx_inv_def)

lemma op_table:
  "snd (start_transaction exec i t) = snd (exec 0 (START_TRANSACTION_QUERY i) t)"
  "snd (commit_transaction exec i e t) = snd (exec 0 (COMMIT_TRANSACTION_QUERY e i) t)"
  "snd (maybe_get_commit_epoch exec i t) = snd (exec 1 (GET_COMMIT_EPOCH_QUERY i) t)"
  "snd (abort_query exec i t) = snd (exec 0 (ABORT_TRANSACTION_QUERY i) t)"
  by (auto simp: start_transaction_def commit_transaction_def maybe_get_commit_epoch_def abort_query_def
      split: prod.split outcome.split tx_rows.split list.split option.split)

lemma op_keeps:
  assumes "executes tx_sem exec"
  shows "start_transaction exec i t = (u, t') \<Longrightarrow> tx_keeps t t' \<and> (tx_rows_ok t \<longrightarrow> tx_rows_ok t')"
    and "commit_transaction exec i e t = (r, t') \<Longrightarrow> tx_keeps t t' \<and> (tx_rows_ok t \<longrightarrow> tx_rows_ok t')"
    and "maybe_get_commit_epoch exec i t = (r, t') \<Longrightarrow> tx_keeps t t' \<and> (tx_rows_ok t \<longrightarrow> tx_rows_ok t')"
    and "abort_query exec i t = (a, t') \<Longrightarrow> tx_keeps t t' \<and> (tx_rows_ok t \<longrightarrow> tx_rows_ok t')"
  using op_table(1) [of exec i t] op_table(2) [of exec i e t] op_table(3,4) [of exec i t]
    exec_keeps [OF assms prod.collapse [symmetric]] exec_rows_ok [OF assms prod.collapse [symmetric]]
  by simp_all

lemma abort_keeps:
  assumes "executes tx_sem exec" "abort_transaction exec i t = (r, t')" "t i = Some w" "tx_rows_ok t"
  shows "tx_keeps t t' \<and> tx_rows_ok t'"
  using abort_transaction_cases [OF assms(1-3)] op_keeps(3) [OF assms(1)] assms(3,4)
    tx_sem_keeps [of t "ABORT_TRANSACTION_QUERY i"] tx_sem_rows_ok [of t "ABORT_TRANSACTION_QUERY i"]
  by (auto simp: assms(3))

lemma committed_epoch: "tx_rows_ok t \<Longrightarrow> t i = Some w \<Longrightarrow> tx_status w = ''committed'' \<Longrightarrow> tx_epoch w \<noteq> None"
  by (auto simp: tx_rows_ok_def tx_row_ok_def)

lemma status_cases:
  "tx_rows_ok t \<Longrightarrow> t i = Some w \<Longrightarrow> tx_status w \<in> {''started'', ''committed'', ''aborted''}"
  by (auto simp: tx_rows_ok_def tx_row_ok_def)

lemma commit_answer:
  assumes "executes tx_sem exec" "commit_transaction exec i e t = (Ok x, t')" "t i = Some w" "tx_rows_ok t"
  shows "\<exists>w'. t' i = Some w' \<and> decided_as x w'"
  using commit_transaction_cases [OF assms(1-3)] status_cases [OF assms(4,3)] assms(3)
  by (auto simp: decided_as_def)

lemma read_answer:
  assumes "executes tx_sem exec" "maybe_get_commit_epoch exec i t = (Ok x, t')" "t i = Some w"
    "tx_rows_ok t" "tx_status w \<noteq> ''started''"
  shows "\<exists>w'. t' i = Some w' \<and> decided_as x w'"
  using maybe_get_commit_epoch_cases [OF assms(1-3)] status_cases [OF assms(4,3)] assms(3,5)
  by (auto simp: decided_as_def)

lemma abort_answer:
  assumes "executes tx_sem exec" "abort_transaction exec i t = (Ok x, t')" "t i = Some w" "tx_rows_ok t"
  shows "\<exists>w'. t' i = Some w' \<and> decided_as x w'"
  using abort_transaction_cases [OF assms(1-3)] read_answer [OF assms(1) _ assms(3,4)] assms(3)
  by (auto simp: decided_as_def)

lemma commit_answer_ok:
  assumes "executes tx_sem exec" "commit_transaction exec i e t = (Ok x, t')" "tx_rows_ok t"
  shows "answer_ok t' i (t i \<noteq> None) x"
proof (cases "t i")
  case None
  have "x = TransactionIsAborted" using assms(1)
    by (rule executes_cases [where i = 0 and s = "COMMIT_TRANSACTION_QUERY e i" and db = t])
      (use assms(2) None in \<open>auto simp: commit_transaction_def\<close>)
  then show ?thesis using None by (simp add: answer_ok_def)
qed (use Tx_State_Store.commit_answer [OF assms(1,2) _ assms(3)] in \<open>auto simp: answer_ok_def\<close>)

lemma read_answer_ok:
  assumes "executes tx_sem exec" "maybe_get_commit_epoch exec i t = (Ok x, t')" "tx_rows_ok t"
    and "b \<Longrightarrow> \<exists>w. t i = Some w \<and> tx_status w = ''committed''"
  shows "answer_ok t' i b x"
proof (cases "t i")
  case None
  have "x = TransactionIsAborted" using assms(1)
    by (rule executes_cases [where i = 1 and s = "GET_COMMIT_EPOCH_QUERY i" and db = t])
      (use assms(2) None in \<open>auto simp: maybe_get_commit_epoch_def\<close>)
  then show ?thesis using None assms(4) by (auto simp: answer_ok_def)
next
  case (Some w)
  then show ?thesis using maybe_get_commit_epoch_cases [OF assms(1,2) Some] assms(4) by (auto simp: answer_ok_def decided_as_def)
qed

lemma tx_client_step_keeps:
  "tx_client_step s s' \<Longrightarrow> tx_rows_ok (cl_table s) \<Longrightarrow> tx_keeps (cl_table s) (cl_table s') \<and> tx_rows_ok (cl_table s')"
proof (induction rule: tx_client_step.induct)
  case (client_start exec i s r t')
  then show ?case using op_keeps(1) [OF client_start(1,2)] by simp
next
  case (client_commit exec i e s rc t')
  then show ?case using op_keeps(2) [OF client_commit(1,2)] by (cases rc) simp_all
next
  case (client_abort exec i s ra t')
  then show ?case using op_keeps(4) [OF client_abort(1,2)] by (cases "(i, True, ra, s)" rule: abort_answered.cases) simp_all
next
  case (client_read exec i b s rr t')
  then show ?case using op_keeps(3) [OF client_read(1,3)] by (cases rr) simp_all
qed

lemma tx_client_step_inv: "tx_client_step s s' \<Longrightarrow> tx_inv s \<Longrightarrow> tx_inv s'"
proof (induction rule: tx_client_step.induct)
  case (client_start exec i s r t')
  then show ?case
    using op_keeps(1) [OF client_start(1,2)] tx_inv_table [of s t' "cl_reads s"] by (simp add: tx_inv_def)
next
  case (client_commit exec i e s rc t')
  then have "tx_inv (s\<lparr>cl_table := t'\<rparr>)"
    using op_keeps(2) [OF client_commit(1,2)] tx_inv_table [of s t' "cl_reads s"] by (simp add: tx_inv_def)
  then show ?case
    using client_commit commit_answer_ok [OF client_commit(1)] by (intro tx_inv_answered) (auto simp: tx_inv_def)
next
  case (client_abort exec i s ra t')
  then have inv: "tx_inv (s\<lparr>cl_table := t'\<rparr>)"
    using op_keeps(4) [OF client_abort(1,2)] tx_inv_table [of s t' "cl_reads s"] by (simp add: tx_inv_def)
  show ?case using client_abort(1,2)
  proof (cases rule: abort_query_cases)
    case unapplied
    have "\<exists>r. t' i = Some r \<and> tx_status r = ''committed''" if "has_row i s"
      using that unapplied(2,3) client_abort(3) status_cases [of "cl_table s" i] by (fastforce simp: tx_inv_def)
    then show ?thesis using inv unapplied(1) by (auto simp: tx_inv_def)
  qed (use inv in \<open>auto simp: tx_inv_def answer_ok_def decided_as_def\<close>)
next
  case (client_read exec i b s rr t')
  have ok: "tx_rows_ok (cl_table s)" using client_read(4) by (simp add: tx_inv_def)
  have "tx_inv (s\<lparr>cl_table := t', cl_reads := remove1 (i, b) (cl_reads s)\<rparr>)"
    using op_keeps(3) [OF client_read(1,3)] client_read(4) ok set_remove1_subset [of "(i, b)" "cl_reads s"]
    by (intro tx_inv_table) simp_all
  moreover have "\<exists>w. cl_table s i = Some w \<and> tx_status w = ''committed''" if "b"
    using client_read(2,4) that unfolding tx_inv_def by blast
  ultimately show ?case
    using read_answer_ok [OF client_read(1)] client_read(3) ok by (intro tx_inv_answered) simp_all
qed

lemma start_transaction_row:
  assumes "executes tx_sem exec" "start_transaction exec i t = (Ok u, t')"
  shows "t' i \<noteq> None"
  using assms(1)
  by (rule executes_cases [where i = 0 and s = "START_TRANSACTION_QUERY i" and db = t])
    (use assms(2) in \<open>auto simp: start_transaction_def split: option.splits\<close>)

interpretation tx_store: invariant_system tx_store_init tx_client_step tx_inv
proof unfold_locales
  fix s assume "tx_store_init s"
  then show "tx_inv s" by (simp add: tx_store_init_def tx_inv_def tx_rows_ok_def)
qed (rule tx_client_step_inv)

section \<open>Properties\<close>

text \<open>
  C5: the outcome of a started transaction is unique. Let any number of clients start, commit and abort
  transactions in any order, their queries interleaved one by one, with queries failing or timing out after
  having taken effect. If an operation that began when the transaction had been started is told that
  the transaction is aborted, then no operation is ever told that it is committed, neither before nor
  after. Operations that begin before the transaction is started are excepted: they are told that it is
  aborted (presumed abort), and it can be started and committed afterwards.
\<close>

theorem tx_outcome_unique:
  assumes "reachable tx_store_init tx_client_step s"
  shows "\<not> ((i, b, TransactionIsCommitted e) \<in> set (cl_answers s) \<and> (i, True, TransactionIsAborted) \<in> set (cl_answers s))"
proof
  assume a: "(i, b, TransactionIsCommitted e) \<in> set (cl_answers s) \<and> (i, True, TransactionIsAborted) \<in> set (cl_answers s)"
  have "\<forall>(i, b, x) \<in> set (cl_answers s). answer_ok (cl_table s) i b x"
    using tx_store.reachable_inv [OF assms] by (simp add: tx_inv_def)
  then have "answer_ok (cl_table s) i b (TransactionIsCommitted e)" "answer_ok (cl_table s) i True TransactionIsAborted"
    using a by fast+
  then show False by (auto simp: answer_ok_def decided_as_def)
qed

text \<open>
  A committed transaction can not be aborted. After a successful commit at epoch e, an
  abort leaves the table as it is, and either fails to reach the database or reports
  the commit with its epoch.
\<close>

theorem tx_commit_then_abort:
  assumes "executes tx_sem exec" "executes tx_sem exec'"
    and "commit_transaction exec i e t = (Ok (TransactionIsCommitted e'), t')"
    and "abort_transaction exec' i t' = (r, t'')"
  shows "t'' = t' \<and> (r = Ok (TransactionIsCommitted e) \<or> (\<exists>er. r = Err er))"
proof -
  have "t i \<noteq> None \<and> tx_sem (COMMIT_TRANSACTION_QUERY e i) t = (Applied [True], t')"
    using assms(1)
    by (rule executes_cases [where i = 0 and s = "COMMIT_TRANSACTION_QUERY e i" and db = t])
      (use assms(3) in \<open>auto simp: commit_transaction_def split: if_splits option.splits\<close>)
  then obtain w where w: "t' i = Some w" "tx_status w = ''committed''" "tx_epoch w = Some e"
    by (fastforce split: if_splits)
  show ?thesis
    using abort_transaction_cases [OF assms(2,4) w(1)] maybe_get_commit_epoch_cases [of exec' i t' r t'' w] assms(2) w
    by (auto split: if_splits)
qed

section \<open>Observations\<close>

text \<open>Committing a committed transaction again replaces its epoch.\<close>

lemma recommit_changes_epoch:
  "let t1 = snd (start_transaction (reliable tx_sem) 1 Map.empty);
       t2 = snd (commit_transaction (reliable tx_sem) 1 10 t1);
       t3 = snd (commit_transaction (reliable tx_sem) 1 11 t2)
   in fst (abort_transaction (reliable tx_sem) 1 t2) = Ok (TransactionIsCommitted 10) \<and>
      fst (abort_transaction (reliable tx_sem) 1 t3) = Ok (TransactionIsCommitted 11)"
  by (simp add: Let_def start_transaction_def commit_transaction_def abort_query_def abort_transaction_def
      maybe_get_commit_epoch_def reliable_def)

text \<open>A commit that arrives before the transaction is started is told that it is aborted; started afterwards, the
  transaction can still be committed.\<close>

lemma commit_before_start:
  "let (r1, t1) = commit_transaction (reliable tx_sem) 1 10 Map.empty;
       t2 = snd (start_transaction (reliable tx_sem) 1 t1)
   in r1 = Ok TransactionIsAborted \<and> fst (commit_transaction (reliable tx_sem) 1 10 t2) = Ok (TransactionIsCommitted 10)"
  by (simp add: Let_def start_transaction_def commit_transaction_def reliable_def)

section \<open>Witnesses\<close>

definition ex_tx_started :: tx_table where
  "ex_tx_started = snd (start_transaction (reliable tx_sem) 1 Map.empty)"

definition ex_tx_committed :: tx_table where
  "ex_tx_committed = snd (commit_transaction (reliable tx_sem) 1 10 ex_tx_started)"

lemmas ex_tx_eval = ex_tx_started_def ex_tx_committed_def start_transaction_def commit_transaction_def
  abort_query_def abort_transaction_def reliable_def

text \<open>One client commits the transaction while the conditional write of another one's abort is already refused.\<close>

definition ex_tx_clients :: tx_clients where
  "ex_tx_clients = \<lparr>cl_table = ex_tx_committed, cl_reads = [(1, True)], cl_answers = [(1, True, TransactionIsCommitted 10)]\<rparr>"

lemma ex_tx_reachable: "reachable tx_store_init tx_client_step ex_tx_clients"
proof -
  let ?s0 = "\<lparr>cl_table = Map.empty, cl_reads = [], cl_answers = []\<rparr>"
  let ?s1 = "?s0\<lparr>cl_table := ex_tx_started\<rparr>"
  let ?s2 = "?s1\<lparr>cl_table := ex_tx_committed, cl_answers := [(1, True, TransactionIsCommitted 10)]\<rparr>"
  have r0: "reachable tx_store_init tx_client_step ?s0" by (rule reach_init) (simp add: tx_store_init_def)
  have s1: "tx_client_step ?s0 ?s1"
    using client_start [OF executes_reliable prod.collapse [symmetric], where i = 1 and s = ?s0] by (simp add: ex_tx_started_def)
  have s2: "tx_client_step ?s1 ?s2"
    using client_commit [OF executes_reliable prod.collapse [symmetric], where i = 1 and e = 10 and s = ?s1] by (simp add: ex_tx_eval)
  have s3: "tx_client_step ?s2 ex_tx_clients"
    using client_abort [OF executes_reliable prod.collapse [symmetric], where i = 1 and s = ?s2]
    by (simp add: ex_tx_eval ex_tx_clients_def)
  show ?thesis by (rule reach_step [OF reach_step [OF reach_step [OF r0 s1] s2] s3])
qed

lemma tx_outcome_unique_witness: "(1, True, TransactionIsAborted) \<notin> set (cl_answers ex_tx_clients)"
  using tx_outcome_unique [OF ex_tx_reachable, of 1 True 10] by (simp add: ex_tx_clients_def)

lemma tx_commit_then_abort_witness:
  "snd (abort_transaction (reliable tx_sem) 1 ex_tx_committed) = ex_tx_committed"
  using tx_commit_then_abort [OF executes_reliable executes_reliable, of 1 10 ex_tx_started 10
      ex_tx_committed, OF _ prod.collapse [symmetric]]
  by (simp add: ex_tx_eval)

end
