(* ===== verification/Coordinator.thy ===== *)
theory Coordinator
  imports Range_Client Tx_State_Store
begin

text \<open>
  Transactions at their coordinator (coordinator/src/transaction.rs, coordinator.rs): the operations of a client
  inside a transaction and the two-phase commit over the ranges it used. The outcome of the transaction is
  kept in the transaction state store, whose model is used here. The universe, the oracle of range
  assignments, the pool of range clients and the epoch reader are used through their operations; what they act on
  is the world, of any type. The order in which hash maps and hash sets are iterated and in which spawned tasks run and are joined
  are arguments.
\<close>

section \<open>Definitions\<close>

subsection \<open>Errors and state\<close>

datatype coord_abort_reason =
    DeadlockPrevention | CoordTransactionLockLost | RangeLeadershipChanged | RangeLeaseExpired
  | RangePartitioningChanged | TransactionTimeout | PrepareFailed | CoordOther

datatype coord_error =
    KeyspaceDoesNotExist | TransactionNoLongerRunning | CoordTimeout | TransactionDoneButStateUnknown
  | CoordTransactionAborted coord_abort_reason | CoordInternalError string

datatype tx_state = TxRunning | TxPreparing | TxAborted | TxCommitted

record participant_range =
  pt_readset :: "bytes set"
  pt_writeset :: "bytes \<rightharpoonup> bytes"
  pt_deleteset :: "bytes set"
  pt_leader_sequence_number :: u64

record transaction =
  tn_id :: uuid
  tn_info :: transaction_info
  tn_state :: tx_state
  tn_participants :: "full_range_id \<rightharpoonup> participant_range"
  tn_resolved :: "keyspace \<rightharpoonup> keyspace_id"

text \<open>What a transaction calls. A task that panics gives \<open>Panic\<close>, which the coordinator sees as a join error.\<close>

record 'w services =
  svc_get_keyspace_info :: "keyspace \<Rightarrow> 'w \<Rightarrow> (string, string option) outcome \<times> 'w"
  svc_full_range_id_of_key :: "keyspace_id \<Rightarrow> bytes \<Rightarrow> 'w \<Rightarrow> full_range_id option \<times> 'w"
  svc_get :: "transaction_info \<Rightarrow> full_range_id \<Rightarrow> bytes list \<Rightarrow> 'w \<Rightarrow> (rs_error, client_get_result) outcome \<times> 'w"
  svc_prepare :: "transaction_info \<Rightarrow> full_range_id \<Rightarrow> bool \<Rightarrow> (bytes \<times> bytes) list \<Rightarrow> bytes list \<Rightarrow> 'w
     \<Rightarrow> (rs_error, prepare_ok) outcome \<times> 'w"
  svc_abort :: "transaction_info \<Rightarrow> full_range_id \<Rightarrow> 'w \<Rightarrow> (rs_error, unit) outcome \<times> 'w"
  svc_commit :: "transaction_info \<Rightarrow> full_range_id \<Rightarrow> u64 \<Rightarrow> 'w \<Rightarrow> (rs_error, unit) outcome \<times> 'w"
  svc_read_epoch :: "'w \<Rightarrow> (string, u64) outcome \<times> 'w"

record 'w coord =
  co_tx :: transaction
  co_world :: 'w
  co_table :: tx_table

definition transaction_new :: "transaction_info \<Rightarrow> transaction" where
  "transaction_new info = \<lparr>tn_id = tx_id info, tn_info = info, tn_state = TxRunning, tn_participants = Map.empty,
     tn_resolved = Map.empty\<rparr>"

definition coord_start_transaction ::
  "tx_session \<Rightarrow> transaction_info \<Rightarrow> tx_table \<Rightarrow> (coord_error, transaction) outcome \<times> tx_table" where
  "coord_start_transaction exec info t =
     (let (r, t') = start_transaction exec (tx_id info) t
      in (and_then (unwrap r) (\<lambda>_. Ok (transaction_new info)), t'))"

subsection \<open>Finding the range of a key\<close>

definition resolve_keyspace ::
  "(string \<Rightarrow> uuid option) \<Rightarrow> 'w services \<Rightarrow> keyspace \<Rightarrow> 'w coord \<Rightarrow> (coord_error, keyspace_id) outcome \<times> 'w coord" where
  "resolve_keyspace parse_str svc ks s =
     (case tn_resolved (co_tx s) ks of
        Some k \<Rightarrow> (Ok k, s)
      | None \<Rightarrow>
          (let (r, w) = svc_get_keyspace_info svc ks (co_world s);
               s1 = s\<lparr>co_world := w\<rparr>
           in case r of
                Err e \<Rightarrow> (Err (CoordInternalError e), s1)
              | Panic \<Rightarrow> (Panic, s1)
              | Ok None \<Rightarrow> (Err KeyspaceDoesNotExist, s1)
              | Ok (Some i) \<Rightarrow>
                  (case keyspace_id_from_str parse_str i of
                     Ok k \<Rightarrow> (Ok k, s1\<lparr>co_tx := (co_tx s1)\<lparr>tn_resolved := (tn_resolved (co_tx s1))(ks \<mapsto> k)\<rparr>\<rparr>)
                   | _ \<Rightarrow> (Panic, s1))))"

definition resolve_full_record_key ::
  "(string \<Rightarrow> uuid option) \<Rightarrow> 'w services \<Rightarrow> keyspace \<Rightarrow> bytes \<Rightarrow> 'w coord \<Rightarrow> (coord_error, full_range_id) outcome \<times> 'w coord" where
  "resolve_full_record_key parse_str svc ks key s =
     (case resolve_keyspace parse_str svc ks s of
        (Ok k, s1) \<Rightarrow>
          (let (r, w) = svc_full_range_id_of_key svc k key (co_world s1); s2 = s1\<lparr>co_world := w\<rparr>
           in case r of None \<Rightarrow> (Err KeyspaceDoesNotExist, s2) | Some i \<Rightarrow> (Ok i, s2))
      | (Err e, s1) \<Rightarrow> (Err e, s1)
      | (Panic, s1) \<Rightarrow> (Panic, s1))"

fun check_still_running :: "transaction \<Rightarrow> (coord_error, unit) outcome" where
  "check_still_running tx =
     (case tn_state tx of
        TxRunning \<Rightarrow> Ok ()
      | TxAborted \<Rightarrow> Err (CoordTransactionAborted CoordOther)
      | TxPreparing \<Rightarrow> Err TransactionNoLongerRunning
      | TxCommitted \<Rightarrow> Err TransactionNoLongerRunning)"

definition new_participant :: participant_range where
  "new_participant = \<lparr>pt_readset = {}, pt_writeset = Map.empty, pt_deleteset = {}, pt_leader_sequence_number = 0\<rparr>"

definition get_participant_range :: "full_range_id \<Rightarrow> 'w coord \<Rightarrow> participant_range \<times> 'w coord" where
  "get_participant_range i s =
     (let p = (case tn_participants (co_tx s) i of Some p \<Rightarrow> p | None \<Rightarrow> new_participant)
      in (p, s\<lparr>co_tx := (co_tx s)\<lparr>tn_participants := (tn_participants (co_tx s))(i \<mapsto> p)\<rparr>\<rparr>))"

definition set_participant_range :: "full_range_id \<Rightarrow> participant_range \<Rightarrow> 'w coord \<Rightarrow> 'w coord" where
  "set_participant_range i p s = s\<lparr>co_tx := (co_tx s)\<lparr>tn_participants := (tn_participants (co_tx s))(i \<mapsto> p)\<rparr>\<rparr>"

subsection \<open>Tasks\<close>

text \<open>One task per range, run in the order of the list; the result of each.\<close>

fun run_tasks :: "(full_range_id \<Rightarrow> 'w \<Rightarrow> 'r \<times> 'w) \<Rightarrow> full_range_id list \<Rightarrow> 'w \<Rightarrow> (full_range_id \<rightharpoonup> 'r) \<times> 'w" where
  "run_tasks task [] w = (Map.empty, w)"
| "run_tasks task (i # js) w =
     (let (r, w1) = task i w; (rs, w2) = run_tasks task js w1 in (rs(i \<mapsto> r), w2))"

subsection \<open>Abort\<close>

definition record_abort ::
  "tx_session \<Rightarrow> 'w services \<Rightarrow> (full_range_id set \<Rightarrow> full_range_id list) \<Rightarrow> 'w coord \<Rightarrow> (coord_error, unit) outcome \<times> 'w coord" where
  "record_abort exec svc order s =
     (let s1 = s\<lparr>co_tx := (co_tx s)\<lparr>tn_state := TxAborted\<rparr>\<rparr>;
          (_, w) = run_tasks (svc_abort svc (tn_info (co_tx s1))) (order (dom (tn_participants (co_tx s1)))) (co_world s1);
          (outcome, t) = abort_transaction exec (tn_id (co_tx s1)) (co_table s1);
          s2 = s1\<lparr>co_world := w, co_table := t\<rparr>
      in case outcome of
           Ok TransactionIsAborted \<Rightarrow> (Ok (), s2)
         | Ok (TransactionIsCommitted _) \<Rightarrow> (Panic, s2)
         | _ \<Rightarrow> (Panic, s2))"

definition coord_abort ::
  "tx_session \<Rightarrow> 'w services \<Rightarrow> (full_range_id set \<Rightarrow> full_range_id list) \<Rightarrow> 'w coord \<Rightarrow> (coord_error, unit) outcome \<times> 'w coord" where
  "coord_abort exec svc order s =
     (if tn_state (co_tx s) = TxAborted then (Ok (), s)
      else case check_still_running (co_tx s) of
             Ok _ \<Rightarrow> record_abort exec svc order s
           | Err e \<Rightarrow> (Err e, s)
           | Panic \<Rightarrow> (Panic, s))"

text \<open>The rest of an operation after \<^verbatim>\<open>let _ = self.record_abort().await\<close>: a panic goes on, an error is dropped.\<close>

definition abort_with ::
  "coord_abort_reason \<Rightarrow> (coord_error, unit) outcome \<times> 'w coord \<Rightarrow> (coord_error, 'a) outcome \<times> 'w coord" where
  "abort_with reason rs =
     (case rs of (Panic, s) \<Rightarrow> (Panic, s) | (_, s) \<Rightarrow> (Err (CoordTransactionAborted reason), s))"

subsection \<open>Operations on keys\<close>

definition coord_get ::
  "(string \<Rightarrow> uuid option) \<Rightarrow> tx_session \<Rightarrow> 'w services \<Rightarrow> (full_range_id set \<Rightarrow> full_range_id list) \<Rightarrow> keyspace \<Rightarrow> bytes \<Rightarrow> 'w coord
     \<Rightarrow> (coord_error, bytes option) outcome \<times> 'w coord" where
  "coord_get parse_str exec svc order ks key s =
     (case check_still_running (co_tx s) of
        Err e \<Rightarrow> (Err e, s)
      | Panic \<Rightarrow> (Panic, s)
      | Ok _ \<Rightarrow>
     (case resolve_full_record_key parse_str svc ks key s of
        (Err e, s1) \<Rightarrow> (Err e, s1)
      | (Panic, s1) \<Rightarrow> (Panic, s1)
      | (Ok i, s1) \<Rightarrow>
     (let (p, s2) = get_participant_range i s1
      in case pt_writeset p key of
           Some v \<Rightarrow> (Ok (Some v), s2)
         | None \<Rightarrow>
        (if key \<in> pt_deleteset p then (Ok None, s2)
         else
          (let (g, w) = svc_get svc (tn_info (co_tx s2)) i [key] (co_world s2); s3 = s2\<lparr>co_world := w\<rparr>
           in case g of
                Ok get_result \<Rightarrow>
                  (let current = cg_leader_sequence_number get_result;
                       (p3, s4) = get_participant_range i s3;
                       p4 = (if current \<noteq> INVALID_LEADER_SEQUENCE_NUMBER \<and>
                                pt_leader_sequence_number p3 = UNSET_LEADER_SEQUENCE_NUMBER
                             then p3\<lparr>pt_leader_sequence_number := current\<rparr> else p3);
                       s5 = set_participant_range i p4 s4
                   in if current \<noteq> pt_leader_sequence_number p4
                      then abort_with RangeLeadershipChanged (record_abort exec svc order s5)
                      else
                        (let s6 = set_participant_range i (p4\<lparr>pt_readset := insert key (pt_readset p4)\<rparr>) s5
                         in case cg_vals get_result of [] \<Rightarrow> (Panic, s6) | v # _ \<Rightarrow> (Ok v, s6)))
              | _ \<Rightarrow> (Panic, s3))))))"

definition coord_put ::
  "(string \<Rightarrow> uuid option) \<Rightarrow> 'w services \<Rightarrow> keyspace \<Rightarrow> bytes \<Rightarrow> bytes \<Rightarrow> 'w coord \<Rightarrow> (coord_error, unit) outcome \<times> 'w coord" where
  "coord_put parse_str svc ks key val s =
     (case check_still_running (co_tx s) of
        Err e \<Rightarrow> (Err e, s)
      | Panic \<Rightarrow> (Panic, s)
      | Ok _ \<Rightarrow>
     (case resolve_full_record_key parse_str svc ks key s of
        (Err e, s1) \<Rightarrow> (Err e, s1)
      | (Panic, s1) \<Rightarrow> (Panic, s1)
      | (Ok i, s1) \<Rightarrow>
          (let (p, s2) = get_participant_range i s1
           in (Ok (), set_participant_range i
                 (p\<lparr>pt_deleteset := pt_deleteset p - {key}, pt_writeset := (pt_writeset p)(key \<mapsto> val)\<rparr>) s2))))"

definition coord_del ::
  "(string \<Rightarrow> uuid option) \<Rightarrow> 'w services \<Rightarrow> keyspace \<Rightarrow> bytes \<Rightarrow> 'w coord \<Rightarrow> (coord_error, unit) outcome \<times> 'w coord" where
  "coord_del parse_str svc ks key s =
     (case check_still_running (co_tx s) of
        Err e \<Rightarrow> (Err e, s)
      | Panic \<Rightarrow> (Panic, s)
      | Ok _ \<Rightarrow>
     (case resolve_full_record_key parse_str svc ks key s of
        (Err e, s1) \<Rightarrow> (Err e, s1)
      | (Panic, s1) \<Rightarrow> (Panic, s1)
      | (Ok i, s1) \<Rightarrow>
          (let (p, s2) = get_participant_range i s1
           in (Ok (), set_participant_range i
                 (p\<lparr>pt_writeset := (pt_writeset p)(key := None), pt_deleteset := insert key (pt_deleteset p)\<rparr>) s2))))"

subsection \<open>Commit\<close>

text \<open>
  The prepare tasks that run before and after the epoch is read, the order in which they are joined, the
  order of the tasks that tell the ranges the outcome, and the order in which a hash set of keys is iterated.
\<close>

record schedule =
  sch_early :: "full_range_id list"
  sch_late :: "full_range_id list"
  sch_joined :: "full_range_id list"
  sch_finish :: "full_range_id set \<Rightarrow> full_range_id list"
  sch_keys :: "bytes set \<Rightarrow> bytes list"

definition prepare_task ::
  "'w services \<Rightarrow> (bytes set \<Rightarrow> bytes list) \<Rightarrow> transaction \<Rightarrow> full_range_id \<Rightarrow> 'w \<Rightarrow> (rs_error, prepare_ok) outcome \<times> 'w" where
  "prepare_task svc keys tx i w =
     (case tn_participants tx i of
        None \<Rightarrow> (Panic, w)
      | Some info \<Rightarrow>
          svc_prepare svc (tn_info tx) i (pt_readset info \<noteq> {})
            (map (\<lambda>k. (k, the (pt_writeset info k))) (keys (dom (pt_writeset info)))) (keys (pt_deleteset info)) w)"

datatype joined = JoinFailed | JoinPanicked | Prepared u64 "epoch_lease list"

fun join_prepares :: "(rs_error, prepare_ok) outcome list \<Rightarrow> u64 \<Rightarrow> epoch_lease list \<Rightarrow> joined" where
  "join_prepares [] epoch leases = Prepared epoch leases"
| "join_prepares (Panic # rs) epoch leases = JoinFailed"
| "join_prepares (Err _ # rs) epoch leases = JoinPanicked"
| "join_prepares (Ok p # rs) epoch leases =
     join_prepares rs (if pk_highest_known_epoch p > epoch then pk_highest_known_epoch p else epoch)
       (leases @ [pk_epoch_lease p])"

definition lease_covers :: "u64 \<Rightarrow> epoch_lease \<Rightarrow> bool" where
  "lease_covers epoch lease \<longleftrightarrow> el_lower_bound_inclusive lease \<le> epoch \<and> el_upper_bound_inclusive lease \<ge> epoch"

text \<open>The second phase, once all ranges are prepared.\<close>

definition commit_prepared ::
  "tx_session \<Rightarrow> 'w services \<Rightarrow> schedule \<Rightarrow> u64 \<Rightarrow> 'w coord \<Rightarrow> (coord_error, unit) outcome \<times> 'w coord" where
  "commit_prepared exec svc sch epoch s =
     (let (r, t) = commit_transaction exec (tn_id (co_tx s)) epoch (co_table s);
          s1 = s\<lparr>co_table := t\<rparr>
      in case r of
           Ok TransactionIsAborted \<Rightarrow> (Err (CoordTransactionAborted CoordOther), s1)
         | Ok (TransactionIsCommitted e) \<Rightarrow>
             (if e = epoch then
                (let s2 = s1\<lparr>co_tx := (co_tx s1)\<lparr>tn_state := TxCommitted\<rparr>\<rparr>;
                     (_, w) = run_tasks (\<lambda>i. svc_commit svc (tn_info (co_tx s2)) i epoch)
                       (sch_finish sch (dom (tn_participants (co_tx s2)))) (co_world s2)
                 in (Ok (), s2\<lparr>co_world := w\<rparr>))
              else (Panic, s1))
         | _ \<Rightarrow> (Panic, s1))"

definition coord_commit ::
  "tx_session \<Rightarrow> 'w services \<Rightarrow> schedule \<Rightarrow> 'w coord \<Rightarrow> (coord_error, unit) outcome \<times> 'w coord" where
  "coord_commit exec svc sch s =
     (case check_still_running (co_tx s) of
        Err e \<Rightarrow> (Err e, s)
      | Panic \<Rightarrow> (Panic, s)
      | Ok _ \<Rightarrow>
     (let s1 = s\<lparr>co_tx := (co_tx s)\<lparr>tn_state := TxPreparing\<rparr>\<rparr>;
          task = prepare_task svc (sch_keys sch) (co_tx s1);
          (early, w1) = run_tasks task (sch_early sch) (co_world s1);
          (e, w2) = svc_read_epoch svc w1
      in case e of
           Ok epoch \<Rightarrow>
             (let (late, w3) = run_tasks task (sch_late sch) w2;
                  s2 = s1\<lparr>co_world := w3\<rparr>
              in case join_prepares (map (the \<circ> (early ++ late)) (sch_joined sch)) epoch [] of
                   JoinFailed \<Rightarrow> abort_with PrepareFailed (record_abort exec svc (sch_finish sch) s2)
                 | JoinPanicked \<Rightarrow> (Panic, s2)
                 | Prepared commit_epoch leases \<Rightarrow>
                     (if list_all (lease_covers commit_epoch) leases then commit_prepared exec svc sch commit_epoch s2
                      else abort_with RangeLeaseExpired (record_abort exec svc (sch_finish sch) s2)))
         | _ \<Rightarrow> (Panic, s1\<lparr>co_world := w2\<rparr>)))"

subsection \<open>Histories\<close>

text \<open>
  To speak about what the ranges are told, the world is paired with the list of calls to them, and the operations
  record there every prepare with its result, and every request to abort or to commit.
\<close>

datatype event = Prepare_Result full_range_id "(rs_error, prepare_ok) outcome" | Told_Abort full_range_id | Told_Commit full_range_id u64

definition unlogged :: "('w \<Rightarrow> 'a \<times> 'w) \<Rightarrow> 'w \<times> event list \<Rightarrow> 'a \<times> 'w \<times> event list" where
  "unlogged f wl = (let (r, w) = f (fst wl) in (r, w, snd wl))"

definition logged :: "('a \<Rightarrow> event) \<Rightarrow> ('w \<Rightarrow> 'a \<times> 'w) \<Rightarrow> 'w \<times> event list \<Rightarrow> 'a \<times> 'w \<times> event list" where
  "logged ev f wl = (let (r, w) = f (fst wl) in (r, w, snd wl @ [ev r]))"

definition traced :: "'w services \<Rightarrow> ('w \<times> event list) services" where
  "traced svc =
     \<lparr>svc_get_keyspace_info = (\<lambda>ks. unlogged (svc_get_keyspace_info svc ks)),
      svc_full_range_id_of_key = (\<lambda>k key. unlogged (svc_full_range_id_of_key svc k key)),
      svc_get = (\<lambda>tx i keys. unlogged (svc_get svc tx i keys)),
      svc_prepare = (\<lambda>tx i has_reads writes deletes. logged (Prepare_Result i) (svc_prepare svc tx i has_reads writes deletes)),
      svc_abort = (\<lambda>tx i. logged (\<lambda>_. Told_Abort i) (svc_abort svc tx i)),
      svc_commit = (\<lambda>tx i e. logged (\<lambda>_. Told_Commit i e) (svc_commit svc tx i e)),
      svc_read_epoch = unlogged (svc_read_epoch svc)\<rparr>"

abbreviation participants :: "'w coord \<Rightarrow> full_range_id set" where
  "participants s \<equiv> dom (tn_participants (co_tx s))"

definition order_of :: "full_range_id list \<Rightarrow> full_range_id set \<Rightarrow> bool" where
  "order_of xs A \<longleftrightarrow> distinct xs \<and> set xs = A"

definition valid_schedule :: "schedule \<Rightarrow> 'w coord \<Rightarrow> bool" where
  "valid_schedule sch s \<longleftrightarrow> order_of (sch_early sch @ sch_late sch) (participants s) \<and>
     order_of (sch_joined sch) (participants s) \<and> order_of (sch_finish sch (participants s)) (participants s)"

text \<open>
  A transaction in use: its operations in any order and with any results, the other clients of
  the transaction state store, and everything else that happens in the world.
\<close>

inductive coord_step ::
  "(string \<Rightarrow> uuid option) \<Rightarrow> ('w \<times> event list) coord \<Rightarrow> ('w \<times> event list) coord \<Rightarrow> bool" for parse_str where
  co_get: "executes tx_sem exec \<Longrightarrow> coord_get parse_str exec (traced svc) order ks key s = (rg, s') \<Longrightarrow> coord_step parse_str s s'"
| co_put: "coord_put parse_str (traced svc) ks key v s = (r, s') \<Longrightarrow> coord_step parse_str s s'"
| co_del: "coord_del parse_str (traced svc) ks key s = (r, s') \<Longrightarrow> coord_step parse_str s s'"
| co_abort: "executes tx_sem exec \<Longrightarrow> coord_abort exec (traced svc) order s = (r, s') \<Longrightarrow> coord_step parse_str s s'"
| co_commit: "executes tx_sem exec \<Longrightarrow> valid_schedule sch s \<Longrightarrow> coord_commit exec (traced svc) sch s = (r, s') \<Longrightarrow>
    coord_step parse_str s s'"
| co_store: "cl_table c = co_table s \<Longrightarrow> tx_client_step c c' \<Longrightarrow> coord_step parse_str s (s\<lparr>co_table := cl_table c'\<rparr>)"
| co_others: "coord_step parse_str s (s\<lparr>co_world := (w, snd (co_world s))\<rparr>)"

definition coord_init :: "('w \<times> event list) coord \<Rightarrow> bool" where
  "coord_init s \<longleftrightarrow> (\<exists>info w c t' exec. reachable tx_store_init tx_client_step c \<and> executes tx_sem exec \<and>
     coord_start_transaction exec info (cl_table c) = (Ok (transaction_new info), t') \<and>
     s = \<lparr>co_tx = transaction_new info, co_world = (w, []), co_table = t'\<rparr>)"

section \<open>Lemmas\<close>

subsection \<open>Logged calls\<close>

abbreviation log :: "('w \<times> event list) coord \<Rightarrow> event list" where
  "log s \<equiv> snd (co_world s)"

lemma unlogged_log [simp]: "snd (snd (unlogged f wl)) = snd wl"
  by (simp add: unlogged_def Let_def split: prod.split)

lemma unloggedD: "unlogged f wl = (r, w, l) \<Longrightarrow> l = snd wl"
  using unlogged_log [of f wl] by simp

lemma logged_log [simp]: "snd (snd (logged ev f wl)) = snd wl @ [ev (fst (logged ev f wl))]"
  by (simp add: logged_def Let_def split: prod.split)

lemma run_tasks_logged:
  assumes "run_tasks task js wl = (rs, wl')" "distinct js"
    and "\<And>i wl. i \<in> set js \<Longrightarrow> snd (snd (task i wl)) = snd wl @ [ev i (fst (task i wl))]"
  shows "snd wl' = snd wl @ map (\<lambda>i. ev i (the (rs i))) js \<and> dom rs = set js"
  using assms
proof (induction js arbitrary: wl rs wl')
  case Nil
  then show ?case by simp
next
  case (Cons i js)
  obtain r wl1 where t: "task i wl = (r, wl1)" by (meson surj_pair)
  obtain rs1 wl2 where r: "run_tasks task js wl1 = (rs1, wl2)" by (meson surj_pair)
  have eq: "rs = rs1(i \<mapsto> r)" "wl' = wl2" using Cons.prems(1) t r by auto
  have "snd wl2 = snd wl1 @ map (\<lambda>i. ev i (the (rs1 i))) js \<and> dom rs1 = set js"
    using Cons.IH [OF r] Cons.prems(2,3) by simp
  moreover have "snd wl1 = snd wl @ [ev i r]" using Cons.prems(3) [of i wl] t by simp
  moreover have "map (\<lambda>j. ev j (the (rs j))) js = map (\<lambda>j. ev j (the (rs1 j))) js"
    using Cons.prems(2) eq by auto
  moreover have "dom rs = insert i (dom rs1)" "the (rs i) = r" using eq by simp_all
  ultimately show ?case using eq(2) by simp
qed

lemma run_tasks_log:
  assumes "\<And>i wl. snd (snd (task i wl)) = snd wl @ [ev i]"
  shows "snd (snd (run_tasks task js wl)) = snd wl @ map ev js"
proof (induction js arbitrary: wl)
  case (Cons i js)
  obtain r wl1 where t: "task i wl = (r, wl1)" by (meson surj_pair)
  then have "snd wl1 = snd wl @ [ev i]" using assms [of i wl] by simp
  then show ?case using t Cons.IH [of wl1] by (auto simp: Let_def split: prod.splits)
qed simp

lemma traced_abort_log:
  "run_tasks (svc_abort (traced svc) info) js wl = (rs, wl') \<Longrightarrow> snd wl' = snd wl @ map Told_Abort js"
  using run_tasks_log [where task = "svc_abort (traced svc) info" and ev = Told_Abort and js = js and wl = wl]
  by (simp add: traced_def)

lemma traced_commit_log:
  "run_tasks (\<lambda>i. svc_commit (traced svc) info i e) js wl = (rs, wl') \<Longrightarrow>
     snd wl' = snd wl @ map (\<lambda>i. Told_Commit i e) js"
  using run_tasks_log [where task = "\<lambda>i. svc_commit (traced svc) info i e" and ev = "\<lambda>i. Told_Commit i e" and js = js and wl = wl]
  by (simp add: traced_def)

lemma traced_prepare_log:
  assumes "run_tasks (prepare_task (traced svc) keys tx) js wl = (rs, wl')" "distinct js" "set js \<subseteq> dom (tn_participants tx)"
  shows "snd wl' = snd wl @ map (\<lambda>i. Prepare_Result i (the (rs i))) js \<and> dom rs = set js"
proof (rule run_tasks_logged [OF assms(1,2)])
  fix i wl assume "i \<in> set js"
  then obtain p where "tn_participants tx i = Some p" using assms(3) by blast
  then show "snd (snd (prepare_task (traced svc) keys tx i wl)) =
      snd wl @ [Prepare_Result i (fst (prepare_task (traced svc) keys tx i wl))]"
    by (simp add: prepare_task_def traced_def)
qed

subsection \<open>What the operations leave alone\<close>

text \<open>Everything of the state but the ranges used and the resolved keyspaces.\<close>

definition same_phase :: "('w \<times> event list) coord \<Rightarrow> ('w \<times> event list) coord \<Rightarrow> bool" where
  "same_phase s s' \<longleftrightarrow> tn_state (co_tx s') = tn_state (co_tx s) \<and> tn_id (co_tx s') = tn_id (co_tx s) \<and>
     tn_info (co_tx s') = tn_info (co_tx s) \<and> co_table s' = co_table s \<and> log s' = log s \<and>
     (finite (participants s) \<longrightarrow> finite (participants s'))"

lemma same_phase_refl [simp]: "same_phase s s"
  by (simp add: same_phase_def)

lemma same_phase_trans: "same_phase s t \<Longrightarrow> same_phase t u \<Longrightarrow> same_phase s u"
  by (simp add: same_phase_def)

lemma resolve_keyspace_phase: "resolve_keyspace parse_str (traced svc) ks s = (r, s') \<Longrightarrow> same_phase s s'"
  by (auto simp: resolve_keyspace_def same_phase_def traced_def Let_def dest: unloggedD
      split: option.splits outcome.splits prod.splits)

lemma resolve_phase: "resolve_full_record_key parse_str (traced svc) ks key s = (r, s') \<Longrightarrow> same_phase s s'"
proof -
  assume a: "resolve_full_record_key parse_str (traced svc) ks key s = (r, s')"
  obtain r1 s1 where r: "resolve_keyspace parse_str (traced svc) ks s = (r1, s1)" by (meson surj_pair)
  have "same_phase s1 s'"
    using a r by (auto simp: resolve_full_record_key_def same_phase_def traced_def Let_def dest: unloggedD
        split: option.splits outcome.splits prod.splits)
  then show ?thesis using resolve_keyspace_phase [OF r] same_phase_trans by blast
qed

lemma participant_phase [simp]:
  "same_phase s (set_participant_range i p s')  = same_phase s s'"
  "same_phase s (snd (get_participant_range i s')) = same_phase s s'"
  by (simp_all add: same_phase_def set_participant_range_def get_participant_range_def Let_def)

lemma get_participant_phase: "get_participant_range i s = (p, s') \<Longrightarrow> same_phase s s'"
  using participant_phase(2) [of s i s] by simp

lemma put_phase: "coord_put parse_str (traced svc) ks key v s = (r, s') \<Longrightarrow> same_phase s s' \<and> (tn_state (co_tx s) \<noteq> TxRunning \<longrightarrow> s' = s)"
  by (auto simp: coord_put_def Let_def split: tx_state.splits outcome.splits prod.splits
      dest!: resolve_phase get_participant_phase intro: same_phase_trans)

lemma del_phase: "coord_del parse_str (traced svc) ks key s = (r, s') \<Longrightarrow> same_phase s s' \<and> (tn_state (co_tx s) \<noteq> TxRunning \<longrightarrow> s' = s)"
  by (auto simp: coord_del_def Let_def split: tx_state.splits outcome.splits prod.splits
      dest!: resolve_phase get_participant_phase intro: same_phase_trans)

lemma record_abort_effect:
  assumes "record_abort exec (traced svc) order s = (r, s')"
  shows "tn_state (co_tx s') = TxAborted \<and> tn_id (co_tx s') = tn_id (co_tx s) \<and> participants s' = participants s \<and>
    log s' = log s @ map Told_Abort (order (participants s)) \<and>
    (\<exists>o'. abort_transaction exec (tn_id (co_tx s)) (co_table s) = (o', co_table s') \<and>
       (r = Ok () \<longleftrightarrow> o' = Ok TransactionIsAborted) \<and> (r = Ok () \<or> r = Panic))"
proof -
  let ?run = "run_tasks (svc_abort (traced svc) (tn_info (co_tx s))) (order (participants s)) (co_world s)"
  obtain rs w where run: "?run = (rs, w)" by (meson surj_pair)
  obtain oc t where ab: "abort_transaction exec (tn_id (co_tx s)) (co_table s) = (oc, t)" by (meson surj_pair)
  show ?thesis using assms run ab traced_abort_log [OF run]
    by (auto simp: record_abort_def Let_def split: outcome.splits op_result.splits)
qed

lemma abort_with_snd [simp]: "snd (abort_with reason rs) = snd rs"
  by (auto simp: abort_with_def split: prod.split outcome.split)

text \<open>A read either stays in its phase or ends the transaction with an abort.\<close>

lemma get_phase:
  assumes "coord_get parse_str exec (traced svc) order ks key s = (r, s')"
  shows "(same_phase s s' \<and> (tn_state (co_tx s) \<noteq> TxRunning \<longrightarrow> s' = s)) \<or>
    (tn_state (co_tx s) = TxRunning \<and> (\<exists>s1 ra. same_phase s s1 \<and> record_abort exec (traced svc) order s1 = (ra, s')))"
proof (cases "tn_state (co_tx s) = TxRunning")
  case False
  then show ?thesis using assms by (auto simp: coord_get_def split: tx_state.splits)
next
  case True
  obtain r1 s1 where res: "resolve_full_record_key parse_str (traced svc) ks key s = (r1, s1)" by (meson surj_pair)
  have p1: "same_phase s s1" by (rule resolve_phase [OF res])
  show ?thesis
  proof (cases r1)
    case (Ok i)
    obtain p s2 where g: "get_participant_range i s1 = (p, s2)" by (meson surj_pair)
    have p2: "same_phase s s2" using same_phase_trans [OF p1 get_participant_phase [OF g]] .
    obtain gr w where gw: "svc_get (traced svc) (tn_info (co_tx s2)) i [key] (co_world s2) = (gr, w)" by (meson surj_pair)
    have p3: "same_phase s (s2\<lparr>co_world := w\<rparr>)"
      using p2 gw by (cases w) (auto simp: same_phase_def traced_def dest!: unloggedD)
    obtain p3' s4 where g2: "get_participant_range i (s2\<lparr>co_world := w\<rparr>) = (p3', s4)" by (meson surj_pair)
    have p4: "same_phase s s4" using same_phase_trans [OF p3 get_participant_phase [OF g2]] .
    show ?thesis using assms True res Ok g gw g2 p2 p3 p4
      by (auto simp: coord_get_def Let_def abort_with_def split: option.splits outcome.splits if_splits list.splits prod.splits)
  qed (use assms True res p1 in \<open>auto simp: coord_get_def\<close>)
qed

subsection \<open>Commit\<close>

lemma join_prepares_Prepared:
  "join_prepares rs e ls = Prepared e' ls' \<Longrightarrow> e \<le> e' \<and> set ls \<subseteq> set ls' \<and>
     (\<forall>r \<in> set rs. \<exists>p. r = Ok p \<and> pk_highest_known_epoch p \<le> e' \<and> pk_epoch_lease p \<in> set ls')"
  by (induction rs e ls rule: join_prepares.induct) (auto split: if_splits)

definition prepared_at :: "u64 \<Rightarrow> full_range_id \<Rightarrow> event list \<Rightarrow> bool" where
  "prepared_at e i l \<longleftrightarrow> (\<exists>p. Prepare_Result i (Ok p) \<in> set l \<and> lease_covers e (pk_epoch_lease p) \<and> pk_highest_known_epoch p \<le> e)"

lemma prepared_at_append [simp]: "prepared_at e i l \<Longrightarrow> prepared_at e i (l @ l')"
  by (auto simp: prepared_at_def)

text \<open>The state after the prepare tasks: as before, but preparing, with the results of the ranges in the log.\<close>

definition preparing :: "('w \<times> event list) coord \<Rightarrow> ('w \<times> event list) coord \<Rightarrow> bool" where
  "preparing s s' \<longleftrightarrow> tn_state (co_tx s') = TxPreparing \<and> tn_id (co_tx s') = tn_id (co_tx s) \<and>
     tn_participants (co_tx s') = tn_participants (co_tx s) \<and> co_table s' = co_table s \<and>
     (\<exists>l. log s' = log s @ l \<and> (\<forall>ev \<in> set l. \<exists>i r. ev = Prepare_Result i r))"

lemma prepare_tasks:
  assumes "run_tasks (prepare_task (traced svc) keys tx) early w = (e, w1)"
    and "svc_read_epoch (traced svc) w1 = (r, w2)"
    and "run_tasks (prepare_task (traced svc) keys tx) late w2 = (l, w3)"
    and "order_of (early @ late) (dom (tn_participants tx))"
  shows "snd w3 = snd w @ map (\<lambda>i. Prepare_Result i (the ((e ++ l) i))) (early @ late)"
    and "snd w2 = snd w @ map (\<lambda>i. Prepare_Result i (the (e i))) early"
proof -
  have o: "distinct early" "distinct late" "set early \<inter> set late = {}" "set early \<subseteq> dom (tn_participants tx)"
    "set late \<subseteq> dom (tn_participants tx)"
    using assms(4) by (auto simp: order_of_def)
  note e = traced_prepare_log [OF assms(1) o(1,4)]
  note l = traced_prepare_log [OF assms(3) o(2,5)]
  have w2: "snd w2 = snd w1" using assms(2) unloggedD [of "svc_read_epoch svc" w1] by (cases w2) (auto simp: traced_def)
  have "the ((e ++ l) i) = the (e i)" if "i \<in> set early" for i
    using that o(3) l by (simp add: map_add_dom_app_simps(3) disjoint_iff)
  moreover have "the ((e ++ l) i) = the (l i)" if "i \<in> set late" for i
    using that l by (simp add: map_add_dom_app_simps(1))
  ultimately show "snd w3 = snd w @ map (\<lambda>i. Prepare_Result i (the ((e ++ l) i))) (early @ late)"
    using e l w2 by simp
  show "snd w2 = snd w @ map (\<lambda>i. Prepare_Result i (the (e i))) early" using e w2 by simp
qed

lemma commit_prepared_not_Ok:
  assumes "commit_prepared exec (traced svc) sch e s = (r, s')" "r \<noteq> Ok ()"
  shows "\<exists>rc t. s' = s\<lparr>co_table := t\<rparr> \<and> commit_transaction exec (tn_id (co_tx s)) e (co_table s) = (rc, t) \<and>
    (\<forall>a. r = Err a \<longrightarrow> a = CoordTransactionAborted CoordOther \<and> rc = Ok TransactionIsAborted)"
  using assms
  by (auto simp: commit_prepared_def Let_def split: outcome.splits op_result.splits if_splits prod.splits)

lemma commit_prepared_Ok:
  assumes "commit_prepared exec (traced svc) sch e s = (Ok (), s')"
  shows "tn_state (co_tx s') = TxCommitted \<and> tn_id (co_tx s') = tn_id (co_tx s) \<and>
    tn_participants (co_tx s') = tn_participants (co_tx s) \<and>
    log s' = log s @ map (\<lambda>i. Told_Commit i e) (sch_finish sch (participants s)) \<and>
    commit_transaction exec (tn_id (co_tx s)) e (co_table s) = (Ok (TransactionIsCommitted e), co_table s')"
  using assms
  by (auto simp: commit_prepared_def Let_def dest!: traced_commit_log split: outcome.splits op_result.splits if_splits prod.splits)

lemma commit_cases:
  assumes "coord_commit exec (traced svc) sch s = (r, s')" "valid_schedule sch s" "tn_state (co_tx s) = TxRunning"
  obtains (stuck) "preparing s s'" "r = Panic"
  | (aborted) reason s1 ra where "preparing s s1" "record_abort exec (traced svc) (sch_finish sch) s1 = (ra, s')"
      "(r, s') = abort_with reason (ra, s')"
  | (prepared) s1 e where "preparing s s1" "\<And>i. i \<in> participants s \<Longrightarrow> prepared_at e i (log s1)"
      "commit_prepared exec (traced svc) sch e s1 = (r, s')"
proof -
  let ?s1 = "s\<lparr>co_tx := (co_tx s)\<lparr>tn_state := TxPreparing\<rparr>\<rparr>"
  let ?task = "prepare_task (traced svc) (sch_keys sch) (co_tx ?s1)"
  obtain early w1 where e: "run_tasks ?task (sch_early sch) (co_world s) = (early, w1)" by (meson surj_pair)
  obtain re w2 where re: "svc_read_epoch (traced svc) w1 = (re, w2)" by (meson surj_pair)
  obtain late w3 where l: "run_tasks ?task (sch_late sch) w2 = (late, w3)" by (meson surj_pair)
  let ?s2 = "?s1\<lparr>co_world := w3\<rparr>"
  have ord: "order_of (sch_early sch @ sch_late sch) (dom (tn_participants (co_tx ?s1)))"
    "set (sch_early sch @ sch_late sch) = participants s" "set (sch_joined sch) = participants s"
    using assms(2) by (auto simp: valid_schedule_def order_of_def)
  note log3 = prepare_tasks(1) [OF e re l ord(1)] and log2 = prepare_tasks(2) [OF e re l ord(1)]
  have p2: "preparing s ?s2" "preparing s (?s1\<lparr>co_world := w2\<rparr>)"
    using log3 log2 by (auto simp: preparing_def)
  have c: "coord_commit exec (traced svc) sch s = (case re of
      Ok epoch \<Rightarrow>
        (case join_prepares (map (the \<circ> (early ++ late)) (sch_joined sch)) epoch [] of
           JoinFailed \<Rightarrow> abort_with PrepareFailed (record_abort exec (traced svc) (sch_finish sch) ?s2)
         | JoinPanicked \<Rightarrow> (Panic, ?s2)
         | Prepared commit_epoch leases \<Rightarrow>
             (if list_all (lease_covers commit_epoch) leases then commit_prepared exec (traced svc) sch commit_epoch ?s2
              else abort_with RangeLeaseExpired (record_abort exec (traced svc) (sch_finish sch) ?s2)))
    | _ \<Rightarrow> (Panic, ?s1\<lparr>co_world := w2\<rparr>))"
    using assms(3) e re l by (cases re) (simp_all add: coord_commit_def Let_def)
  have ab: thesis if "(r, s') = abort_with reason (record_abort exec (traced svc) (sch_finish sch) ?s2)" for reason
  proof -
    obtain ra s3 where ra: "record_abort exec (traced svc) (sch_finish sch) ?s2 = (ra, s3)" by (meson surj_pair)
    then have "s3 = s'" using that abort_with_snd [of reason "(ra, s3)"] by (metis snd_conv)
    then show ?thesis using aborted [OF p2(1)] ra that by metis
  qed
  show thesis
  proof (cases re)
    case (Ok epoch)
    let ?j = "join_prepares (map (the \<circ> (early ++ late)) (sch_joined sch)) epoch []"
    show ?thesis
    proof (cases ?j)
      case JoinFailed
      then show ?thesis using c Ok assms(1) ab by simp
    next
      case JoinPanicked
      then show ?thesis using c Ok assms(1) p2(1) stuck by simp
    next
      case (Prepared ce leases)
      show ?thesis
      proof (cases "list_all (lease_covers ce) leases")
        case False
        then show ?thesis using c Ok Prepared assms(1) ab by simp
      next
        case True
        have "prepared_at ce i (log ?s2)" if "i \<in> participants s" for i
        proof -
          have all: "\<forall>j \<in> participants s. \<exists>p. the ((early ++ late) j) = Ok p \<and> pk_highest_known_epoch p \<le> ce \<and>
              pk_epoch_lease p \<in> set leases"
            using join_prepares_Prepared [OF Prepared] ord(3) by simp
          from bspec [OF all that]
          obtain p where p: "the ((early ++ late) i) = Ok p" "pk_highest_known_epoch p \<le> ce" "pk_epoch_lease p \<in> set leases"
            by (elim exE conjE)
          have "Prepare_Result i (the ((early ++ late) i)) \<in> set (log ?s2)"
            using log3 that [folded ord(2)] by auto
          moreover have "lease_covers ce (pk_epoch_lease p)" using True p(3) by (simp add: list_all_iff)
          ultimately show ?thesis using p(1,2) unfolding prepared_at_def by (intro exI [of _ p]) simp
        qed
        then show ?thesis using c Ok Prepared True assms(1) by (intro prepared [OF p2(1)]) simp_all
      qed
    qed
  qed (use c assms(1) p2(2) stuck in simp_all)
qed

subsection \<open>Atomicity\<close>

definition committed_row :: "('w \<times> event list) coord \<Rightarrow> bool" where
  "committed_row s \<longleftrightarrow> (\<exists>w. co_table s (tn_id (co_tx s)) = Some w \<and> tx_status w = ''committed'')"

definition store_ok :: "('w \<times> event list) coord \<Rightarrow> bool" where
  "store_ok s \<longleftrightarrow> tx_rows_ok (co_table s) \<and> co_table s (tn_id (co_tx s)) \<noteq> None"

definition told_ok :: "('w \<times> event list) coord \<Rightarrow> bool" where
  "told_ok s \<longleftrightarrow>
     (case tn_state (co_tx s) of
        TxCommitted \<Rightarrow> committed_row s \<and> (\<forall>i. Told_Abort i \<notin> set (log s)) \<and>
          (\<exists>e. (\<forall>i e'. Told_Commit i e' \<in> set (log s) \<longrightarrow> e' = e) \<and>
               (\<forall>i \<in> participants s. Told_Commit i e \<in> set (log s) \<and> prepared_at e i (log s)))
      | TxAborted \<Rightarrow> \<forall>i e. Told_Commit i e \<notin> set (log s)
      | _ \<Rightarrow> \<forall>i e. Told_Commit i e \<notin> set (log s) \<and> Told_Abort i \<notin> set (log s))"

definition coord_inv :: "('w \<times> event list) coord \<Rightarrow> bool" where
  "coord_inv s \<longleftrightarrow> finite (participants s) \<and> store_ok s \<and> told_ok s"

lemma store_ok_keeps:
  assumes "store_ok s" "tx_keeps (co_table s) t" "tx_rows_ok t"
  shows "store_ok (s\<lparr>co_table := t\<rparr>)" "committed_row s \<Longrightarrow> committed_row (s\<lparr>co_table := t\<rparr>)"
  using assms by (fastforce simp: store_ok_def committed_row_def tx_keeps_def)+

lemma store_keeps_inv:
  assumes "coord_inv s" "tx_keeps (co_table s) t" "tx_rows_ok t"
  shows "coord_inv (s\<lparr>co_table := t\<rparr>)"
  using assms store_ok_keeps [of s t] by (auto simp: coord_inv_def told_ok_def split: tx_state.splits)

lemma same_phase_inv:
  assumes "coord_inv s" "same_phase s s'" "tn_state (co_tx s) \<noteq> TxRunning \<longrightarrow> s' = s"
  shows "coord_inv s'"
  using assms by (cases "tn_state (co_tx s)") (auto simp: coord_inv_def same_phase_def store_ok_def told_ok_def)

lemma record_abort_inv:
  assumes "record_abort exec (traced svc) order s = (r, s')" "executes tx_sem exec" "finite (participants s)" "store_ok s"
    and "\<forall>i e. Told_Commit i e \<notin> set (log s)"
  shows "coord_inv s'"
proof -
  note e = record_abort_effect [OF assms(1)]
  obtain o' where "abort_transaction exec (tn_id (co_tx s)) (co_table s) = (o', co_table s')" using e by blast
  moreover obtain w where "co_table s (tn_id (co_tx s)) = Some w" using assms(4) by (auto simp: store_ok_def)
  ultimately have k: "tx_keeps (co_table s) (co_table s') \<and> tx_rows_ok (co_table s')"
    using abort_keeps [OF assms(2)] assms(4) by (auto simp: store_ok_def)
  then have "store_ok s'" using assms(4) e by (fastforce simp: store_ok_def tx_keeps_def)
  then show ?thesis using e assms(3,5) by (auto simp: coord_inv_def told_ok_def)
qed

lemma preparing_inv:
  assumes "preparing s s'" "coord_inv s" "tn_state (co_tx s) = TxRunning"
  shows "coord_inv s'" "\<forall>i e. Told_Commit i e \<notin> set (log s') \<and> Told_Abort i \<notin> set (log s')" "store_ok s'"
proof -
  show n: "\<forall>i e. Told_Commit i e \<notin> set (log s') \<and> Told_Abort i \<notin> set (log s')"
    using assms by (auto simp: preparing_def coord_inv_def told_ok_def)
  show st: "store_ok s'" using assms by (auto simp: preparing_def coord_inv_def store_ok_def)
  show "coord_inv s'" using assms n st by (simp add: preparing_def coord_inv_def told_ok_def)
qed

lemma commit_prepared_inv:
  assumes "commit_prepared exec (traced svc) sch e s1 = (r, s')" "executes tx_sem exec"
    and "set (sch_finish sch (participants s1)) = participants s1"
    and "coord_inv s1" "tn_state (co_tx s1) = TxPreparing" "\<And>i. i \<in> participants s1 \<Longrightarrow> prepared_at e i (log s1)"
  shows "coord_inv s'"
proof (cases "r = Ok ()")
  case False
  then obtain rc t where "s' = s1\<lparr>co_table := t\<rparr>" "commit_transaction exec (tn_id (co_tx s1)) e (co_table s1) = (rc, t)"
    using commit_prepared_not_Ok [OF assms(1)] by blast
  then show ?thesis using store_keeps_inv [OF assms(4)] op_keeps(2) [OF assms(2)] assms(4)
    by (auto simp: coord_inv_def store_ok_def)
next
  case True
  note c = commit_prepared_Ok [OF assms(1) [unfolded True]]
  have "store_ok s1" "finite (participants s1)" and n: "\<forall>i e. Told_Commit i e \<notin> set (log s1) \<and> Told_Abort i \<notin> set (log s1)"
    using assms(4,5) by (auto simp: coord_inv_def told_ok_def)
  then obtain w where w: "co_table s1 (tn_id (co_tx s1)) = Some w" by (auto simp: store_ok_def)
  have "co_table s' = (co_table s1)(tn_id (co_tx s1) \<mapsto> w\<lparr>tx_status := ''committed'', tx_epoch := Some e\<rparr>)"
    using commit_transaction_cases [OF assms(2) conjunct2 [OF conjunct2 [OF conjunct2 [OF conjunct2 [OF c]]]] w] by simp
  then have row: "committed_row s'" using c by (simp add: committed_row_def)
  moreover have "tx_rows_ok (co_table s')" using op_keeps(2) [OF assms(2)] c \<open>store_ok s1\<close> by (auto simp: store_ok_def)
  ultimately have "store_ok s'" by (auto simp: store_ok_def committed_row_def)
  moreover have "(\<forall>i e'. Told_Commit i e' \<in> set (log s') \<longrightarrow> e' = e) \<and>
      (\<forall>i \<in> participants s'. Told_Commit i e \<in> set (log s') \<and> prepared_at e i (log s'))"
    using c n assms(3,6) by auto
  moreover have "\<forall>i. Told_Abort i \<notin> set (log s')" "finite (participants s')" and st: "tn_state (co_tx s') = TxCommitted"
    using c n \<open>finite (participants s1)\<close> by auto
  ultimately show ?thesis using row unfolding coord_inv_def told_ok_def st tx_state.case by blast
qed

lemma commit_inv:
  assumes "coord_commit exec (traced svc) sch s = (r, s')" "executes tx_sem exec" "valid_schedule sch s" "coord_inv s"
  shows "coord_inv s'"
proof (cases "tn_state (co_tx s) = TxRunning")
  case False
  then have "s' = s" using assms(1) by (auto simp: coord_commit_def split: tx_state.splits)
  then show ?thesis using assms(4) by simp
next
  case True
  from assms(1,3) True show ?thesis
  proof (cases rule: commit_cases)
    case stuck
    then show ?thesis using preparing_inv(1) assms(4) True by blast
  next
    case (aborted reason s1 ra)
    note p = preparing_inv [OF aborted(1) assms(4) True]
    show ?thesis using record_abort_inv [OF aborted(2) assms(2) _ p(3)] p(1,2) by (simp add: coord_inv_def)
  next
    case (prepared s1 e)
    have "participants s1 = participants s" "tn_state (co_tx s1) = TxPreparing" using prepared(1) by (simp_all add: preparing_def)
    then show ?thesis
      using commit_prepared_inv [OF prepared(3) assms(2) _ preparing_inv(1) [OF prepared(1) assms(4) True]] prepared(2) assms(3)
      by (auto simp: valid_schedule_def order_of_def)
  qed
qed

lemma running_abort_inv:
  assumes "record_abort exec (traced svc) order s = (r, s')" "executes tx_sem exec" "coord_inv s" "tn_state (co_tx s) = TxRunning"
  shows "coord_inv s'"
  using record_abort_inv [OF assms(1,2)] assms(3,4) by (simp add: coord_inv_def told_ok_def)

lemma coord_step_inv: "coord_step parse_str s s' \<Longrightarrow> coord_inv s \<Longrightarrow> coord_inv s'"
proof (induction rule: coord_step.induct)
  case (co_get exec svc order ks key s r s')
  from get_phase [OF co_get(2)] show ?case
  proof (elim disjE conjE exE)
    fix s1 ra assume a: "tn_state (co_tx s) = TxRunning" "same_phase s s1" "record_abort exec (traced svc) order s1 = (ra, s')"
    then have "coord_inv s1" "tn_state (co_tx s1) = TxRunning"
      using same_phase_inv [OF co_get(3)] by (auto simp: same_phase_def)
    then show ?thesis using running_abort_inv [OF a(3) co_get(1)] by blast
  qed (use same_phase_inv [OF co_get(3)] in blast)
next
  case (co_put svc ks key v s r s')
  then show ?case using put_phase same_phase_inv by blast
next
  case (co_del svc ks key s r s')
  then show ?case using del_phase same_phase_inv by blast
next
  case (co_abort exec svc order s r s')
  have "s' = s \<or> tn_state (co_tx s) = TxRunning \<and> (\<exists>ra. record_abort exec (traced svc) order s = (ra, s'))"
    using co_abort(2) by (auto simp: coord_abort_def split: tx_state.splits if_splits)
  then show ?case using running_abort_inv [OF _ co_abort(1)] co_abort(3) by blast
next
  case (co_commit exec sch s svc r s')
  then show ?case using commit_inv by blast
next
  case (co_store c s c')
  then show ?case using tx_client_step_keeps [OF co_store(2)] store_keeps_inv by (auto simp: coord_inv_def store_ok_def)
next
  case (co_others s w)
  then show ?case
    by (cases "tn_state (co_tx s)") (simp_all add: coord_inv_def store_ok_def told_ok_def committed_row_def)
qed

interpretation coord: invariant_system coord_init "coord_step parse_str" coord_inv for parse_str
proof
  fix s :: "('w \<times> event list) coord" assume "coord_init s"
  then obtain info w c t' exec where i: "reachable tx_store_init tx_client_step c" "executes tx_sem exec"
      "coord_start_transaction exec info (cl_table c) = (Ok (transaction_new info), t')"
      "s = \<lparr>co_tx = transaction_new info, co_world = (w, []), co_table = t'\<rparr>"
    unfolding coord_init_def by blast
  have ok: "tx_rows_ok (cl_table c)" using tx_store.reachable_inv [OF i(1)] by (simp add: tx_inv_def)
  have st: "start_transaction exec (tx_id info) (cl_table c) = (Ok (), t')"
    using i(3) by (auto simp: coord_start_transaction_def Let_def split: prod.splits elim: unwrap.elims)
  have "tx_rows_ok t'" using op_keeps(1) [OF i(2) st] ok by simp
  then show "coord_inv s" using i(4) start_transaction_row [OF i(2) st]
    by (simp add: coord_inv_def store_ok_def told_ok_def transaction_new_def)
qed (rule coord_step_inv)

lemma record_abort_row:
  assumes "record_abort exec (traced svc) order s = (Ok (), s')" "executes tx_sem exec" "store_ok s"
  shows "\<exists>w. co_table s' (tn_id (co_tx s')) = Some w \<and> tx_status w = ''aborted''"
proof -
  note e = record_abort_effect [OF assms(1)]
  then have "abort_transaction exec (tn_id (co_tx s)) (co_table s) = (Ok TransactionIsAborted, co_table s')" by auto
  moreover obtain w where "co_table s (tn_id (co_tx s)) = Some w" using assms(3) by (auto simp: store_ok_def)
  ultimately show ?thesis
    using Tx_State_Store.abort_answer [OF assms(2)] assms(3) e by (fastforce simp: store_ok_def decided_as_def)
qed

lemma running_commit_decides:
  assumes "executes tx_sem exec" "valid_schedule sch s" "tx_rows_ok (co_table s)"
    and "co_table s (tn_id (co_tx s)) \<noteq> None" "tn_state (co_tx s) = TxRunning"
    and "coord_commit exec (traced svc) sch s = (r, s')"
  shows "(r = Ok () \<longrightarrow> tn_state (co_tx s') = TxCommitted \<and>
      (\<exists>e w. co_table s' (tn_id (co_tx s)) = Some w \<and> tx_status w = ''committed'' \<and> tx_epoch w = Some e \<and>
         (\<forall>i \<in> participants s. prepared_at e i (log s') \<and> Told_Commit i e \<in> set (log s')))) \<and>
    (\<forall>a. r = Err a \<longrightarrow> (\<exists>reason w. a = CoordTransactionAborted reason \<and>
      co_table s' (tn_id (co_tx s)) = Some w \<and> tx_status w = ''aborted''))"
  using assms(6,2,5)
proof (cases rule: commit_cases)
  case stuck
  then show ?thesis by simp
next
  case (aborted reason s1 ra)
  have s1: "store_ok s1" "tn_id (co_tx s1) = tn_id (co_tx s)"
    using aborted(1) assms(3,4) by (auto simp: store_ok_def preparing_def)
  have id: "tn_id (co_tx s') = tn_id (co_tx s)" using record_abort_effect [OF aborted(2)] s1(2) by simp
  show ?thesis
  proof (cases "ra = Ok ()")
    case True
    then show ?thesis using aborted(3) record_abort_row [OF aborted(2) [unfolded True] assms(1) s1(1)] id
      by (auto simp: abort_with_def)
  next
    case False
    then have "ra = Panic" using record_abort_effect [OF aborted(2)] by blast
    then show ?thesis using aborted(3) by (simp add: abort_with_def)
  qed
next
  case (prepared s1 e)
  have s1: "co_table s1 = co_table s" "tn_id (co_tx s1) = tn_id (co_tx s)" "participants s1 = participants s"
    using prepared(1) by (auto simp: preparing_def)
  obtain w where w: "co_table s1 (tn_id (co_tx s1)) = Some w" using assms(4) s1 by auto
  show ?thesis
  proof (cases "r = Ok ()")
    case True
    note c = commit_prepared_Ok [OF prepared(3) [unfolded True]]
    then have ct: "commit_transaction exec (tn_id (co_tx s1)) e (co_table s1) = (Ok (TransactionIsCommitted e), co_table s')"
      by blast
    have "set (sch_finish sch (participants s)) = participants s"
      using assms(2) by (simp add: valid_schedule_def order_of_def)
    then have "\<forall>i \<in> participants s. prepared_at e i (log s') \<and> Told_Commit i e \<in> set (log s')"
      using c prepared(2) s1(3) by auto
    moreover have "co_table s' (tn_id (co_tx s)) = Some (w\<lparr>tx_status := ''committed'', tx_epoch := Some e\<rparr>)"
      using commit_transaction_cases [OF assms(1) ct w] s1(2) by simp
    ultimately show ?thesis using True c by (intro conjI impI exI [of _ e] exI [of _ "w\<lparr>tx_status := ''committed'', tx_epoch := Some e\<rparr>"]) simp_all
  next
    case False
    obtain rc t where n: "s' = s1\<lparr>co_table := t\<rparr>" "commit_transaction exec (tn_id (co_tx s1)) e (co_table s1) = (rc, t)"
        "\<forall>a. r = Err a \<longrightarrow> a = CoordTransactionAborted CoordOther \<and> rc = Ok TransactionIsAborted"
      using commit_prepared_not_Ok [OF prepared(3) False] by blast
    have "\<exists>w. t (tn_id (co_tx s)) = Some w \<and> tx_status w = ''aborted''" if "rc = Ok TransactionIsAborted"
      using Tx_State_Store.commit_answer [OF assms(1) n(2) [unfolded that] w] assms(3) s1 by (auto simp: decided_as_def)
    then show ?thesis using False n(1,3) by auto
  qed
qed

section \<open>Properties\<close>

text \<open>
  C1: a transaction is committed or aborted as a whole. Let a client use the transaction in any way, with ranges, epoch reader and
  the database failing at any point, and with other clients of the transaction state store. No range is told to commit if
  some range is told to abort. If a range is told to commit at an epoch, the outcome is recorded as
  committed in the store, and every range of the transaction is told to commit at the same epoch and has prepared, with a lease
  that covers the epoch and no knowledge of a later epoch.
\<close>

theorem coord_atomic:
  assumes "reachable coord_init (coord_step parse_str) s" "Told_Commit i e \<in> set (log s)"
  shows "Told_Abort j \<notin> set (log s) \<and>
    (\<exists>w. co_table s (tn_id (co_tx s)) = Some w \<and> tx_status w = ''committed'') \<and>
    (\<forall>k \<in> participants s. Told_Commit k e \<in> set (log s) \<and> prepared_at e k (log s))"
proof -
  have t: "told_ok s" using coord.reachable_inv [OF assms(1)] by (simp add: coord_inv_def)
  have c: "tn_state (co_tx s) = TxCommitted"
    using t assms(2) unfolding told_ok_def by (cases "tn_state (co_tx s)") simp_all
  then obtain e' where e': "\<forall>i e''. Told_Commit i e'' \<in> set (log s) \<longrightarrow> e'' = e'"
      "\<forall>k \<in> participants s. Told_Commit k e' \<in> set (log s) \<and> prepared_at e' k (log s)"
      "committed_row s" "\<forall>j. Told_Abort j \<notin> set (log s)"
    using t unfolding told_ok_def c tx_state.case by blast
  then have "e = e'" using assms(2) by blast
  then show ?thesis using e' unfolding committed_row_def by blast
qed

text \<open>
  C10: the answer to the client agrees with the record, for a transaction that has a row in the transaction state
  store. While the transaction is running: if commit succeeds, the store has it as committed at an epoch
  that every range prepared for, and all ranges are told; if commit fails with an error, the error says that the
  transaction is aborted, and the store has it as aborted. When it is not running any more, commit
  changes nothing: an aborted transaction is reported as aborted, and a second commit, of one that is
  committed or still preparing, fails with TransactionNoLongerRunning, which says nothing about the outcome.
\<close>

theorem coord_commit_decides:
  assumes "executes tx_sem exec" "valid_schedule sch s" "tx_rows_ok (co_table s)"
    and "co_table s (tn_id (co_tx s)) \<noteq> None"
    and "coord_commit exec (traced svc) sch s = (r, s')"
  shows "case tn_state (co_tx s) of
      TxRunning \<Rightarrow> (r = Ok () \<longrightarrow> tn_state (co_tx s') = TxCommitted \<and>
        (\<exists>e w. co_table s' (tn_id (co_tx s)) = Some w \<and> tx_status w = ''committed'' \<and> tx_epoch w = Some e \<and>
           (\<forall>i \<in> participants s. prepared_at e i (log s') \<and> Told_Commit i e \<in> set (log s')))) \<and>
        (\<forall>a. r = Err a \<longrightarrow> (\<exists>reason w. a = CoordTransactionAborted reason \<and>
          co_table s' (tn_id (co_tx s)) = Some w \<and> tx_status w = ''aborted''))
    | TxAborted \<Rightarrow> r = Err (CoordTransactionAborted CoordOther) \<and> s' = s
    | TxPreparing \<Rightarrow> r = Err TransactionNoLongerRunning \<and> s' = s
    | TxCommitted \<Rightarrow> r = Err TransactionNoLongerRunning \<and> s' = s"
  using running_commit_decides [OF assms(1-4) _ assms(5)] assms(5)
  by (cases "tn_state (co_tx s)") (simp_all add: coord_commit_def)

section \<open>Observations\<close>

text \<open>
  When the store refuses the commit because somebody else aborted the transaction, the coordinator tells the client,
  but not the ranges, which keep their locks; the transaction stays in the preparing state, and the client
  cannot abort it any more.
\<close>

lemma refused_commit_keeps_preparing:
  assumes "commit_transaction exec (tn_id (co_tx s)) e (co_table s) = (Ok TransactionIsAborted, t)"
    and "tn_state (co_tx s) = TxPreparing"
  shows "commit_prepared exec svc sch e s = (Err (CoordTransactionAborted CoordOther), s\<lparr>co_table := t\<rparr>)"
    "coord_abort exec svc order (s\<lparr>co_table := t\<rparr>) = (Err TransactionNoLongerRunning, s\<lparr>co_table := t\<rparr>)"
  using assms by (simp_all add: commit_prepared_def coord_abort_def)

text \<open>A range that refuses to prepare with an error makes the coordinator panic; nothing is aborted.\<close>

lemma refused_prepare_panics:
  assumes "tn_state (co_tx s) = TxRunning" "tn_participants (co_tx s) = [i \<mapsto> p]"
    and "sch_early sch = [i]" "sch_late sch = []" "sch_joined sch = [i]"
    and "\<And>tx has_reads writes deletes w. fst (svc_prepare svc tx i has_reads writes deletes w) = Err er"
    and "\<And>w. fst (svc_read_epoch svc w) = Ok epoch"
  shows "fst (coord_commit exec svc sch s) = Panic"
    "tn_state (co_tx (snd (coord_commit exec svc sch s))) = TxPreparing"
    "co_table (snd (coord_commit exec svc sch s)) = co_table s"
proof -
  let ?s1 = "s\<lparr>co_tx := (co_tx s)\<lparr>tn_state := TxPreparing\<rparr>\<rparr>"
  let ?task = "prepare_task svc (sch_keys sch) (co_tx ?s1)"
  have "fst (?task i (co_world s)) = Err er" using assms(2,6) by (simp add: prepare_task_def)
  then obtain w1 where t: "?task i (co_world s) = (Err er, w1)" by (cases "?task i (co_world s)") simp
  obtain w2 where e: "svc_read_epoch svc w1 = (Ok epoch, w2)" using assms(7) [of w1] by (cases "svc_read_epoch svc w1") simp
  have "coord_commit exec svc sch s = (Panic, ?s1\<lparr>co_world := w2\<rparr>)"
    using assms(1,3-5) t e by (simp add: coord_commit_def Let_def)
  then show "fst (coord_commit exec svc sch s) = Panic"
    "tn_state (co_tx (snd (coord_commit exec svc sch s))) = TxPreparing"
    "co_table (snd (coord_commit exec svc sch s)) = co_table s" by simp_all
qed

section \<open>Witnesses\<close>

definition ex_prepare_ok :: prepare_ok where
  "ex_prepare_ok = \<lparr>pk_highest_known_epoch = 9, pk_epoch_lease = \<lparr>el_lower_bound_inclusive = 5, el_upper_bound_inclusive = 15\<rparr>\<rparr>"

definition ex_svc :: "unit services" where
  "ex_svc =
     \<lparr>svc_get_keyspace_info = (\<lambda>ks w. (Ok (Some ''k''), w)),
      svc_full_range_id_of_key = (\<lambda>k key w. (Some ex_range, w)),
      svc_get = (\<lambda>tx i keys w. (Ok \<lparr>cg_vals = [None], cg_leader_sequence_number = 1\<rparr>, w)),
      svc_prepare = (\<lambda>tx i has_reads writes deletes w. (Ok ex_prepare_ok, w)),
      svc_abort = (\<lambda>tx i w. (Ok (), w)),
      svc_commit = (\<lambda>tx i e w. (Ok (), w)),
      svc_read_epoch = (\<lambda>w. (Ok 10, w))\<rparr>"

definition ex_keyspace :: keyspace where
  "ex_keyspace = \<lparr>ks_namespace = ''n'', ks_name = ''k''\<rparr>"

definition ex_participant :: participant_range where
  "ex_participant = new_participant\<lparr>pt_writeset := [[1] \<mapsto> [2]]\<rparr>"

definition ex_coord :: "tx_state \<Rightarrow> event list \<Rightarrow> tx_table \<Rightarrow> (unit \<times> event list) coord" where
  "ex_coord st l t = \<lparr>co_tx = \<lparr>tn_id = 5, tn_info = ex_client_tx, tn_state = st, tn_participants = [ex_range \<mapsto> ex_participant],
     tn_resolved = [ex_keyspace \<mapsto> \<lparr>ksid_id = 1\<rparr>]\<rparr>, co_world = ((), l), co_table = t\<rparr>"

definition ex_sched :: schedule where
  "ex_sched = \<lparr>sch_early = [ex_range], sch_late = [], sch_joined = [ex_range],
     sch_finish = (\<lambda>_. [ex_range]), sch_keys = (\<lambda>_. [])\<rparr>"

lemma ex_sched_valid: "valid_schedule ex_sched (ex_coord TxRunning l t)"
  by (simp add: valid_schedule_def ex_sched_def ex_coord_def order_of_def)

definition ex_row :: tx_table where
  "ex_row = [5 \<mapsto> \<lparr>tx_status = ''started'', tx_epoch = None\<rparr>]"

definition ex_row_committed :: tx_table where
  "ex_row_committed = [5 \<mapsto> \<lparr>tx_status = ''committed'', tx_epoch = Some 10\<rparr>]"

lemmas ex_coord_eval = ex_coord_def ex_svc_def traced_def unlogged_def logged_def ex_client_tx_def ex_participant_def new_participant_def

lemma ex_commit:
  "coord_commit (reliable tx_sem) (traced ex_svc) ex_sched (ex_coord TxRunning [] ex_row) =
     (Ok (), ex_coord TxCommitted [Prepare_Result ex_range (Ok ex_prepare_ok), Told_Commit ex_range 10] ex_row_committed)"
  by (simp add: coord_commit_def commit_prepared_def commit_transaction_def reliable_def prepare_task_def ex_sched_def
      ex_coord_eval ex_row_def ex_row_committed_def lease_covers_def ex_prepare_ok_def Let_def)

lemma ex_coord_reachable:
  "reachable coord_init (coord_step (\<lambda>_. Some 1))
     (ex_coord TxCommitted [Prepare_Result ex_range (Ok ex_prepare_ok), Told_Commit ex_range 10] ex_row_committed)"
proof -
  let ?step = "coord_step (\<lambda>_. Some 1) :: (unit \<times> event list) coord \<Rightarrow> _"
  let ?s0 = "\<lparr>co_tx = transaction_new ex_client_tx, co_world = ((), []), co_table = ex_row\<rparr>"
  have e: "reachable tx_store_init tx_client_step \<lparr>cl_table = Map.empty, cl_reads = [], cl_answers = []\<rparr>"
    by (rule reach_init) (simp add: tx_store_init_def)
  have "coord_start_transaction (reliable tx_sem) ex_client_tx
      (cl_table \<lparr>cl_table = Map.empty, cl_reads = [], cl_answers = []\<rparr>) = (Ok (transaction_new ex_client_tx), ex_row)"
    by (simp add: coord_start_transaction_def start_transaction_def reliable_def ex_client_tx_def ex_row_def)
  then have "coord_init ?s0" unfolding coord_init_def using e executes_reliable by blast
  then have r0: "reachable coord_init ?step ?s0" by (rule reach_init)
  have "coord_put (\<lambda>_. Some 1) (traced ex_svc) ex_keyspace [1] [2] ?s0 = (Ok (), ex_coord TxRunning [] ex_row)"
    by (simp add: coord_put_def transaction_new_def resolve_full_record_key_def resolve_keyspace_def keyspace_id_from_str_def
        get_participant_range_def set_participant_range_def ex_coord_eval Let_def)
  then have r1: "reachable coord_init ?step (ex_coord TxRunning [] ex_row)" by (rule reach_step [OF r0 co_put])
  show ?thesis by (rule reach_step [OF r1 co_commit [OF executes_reliable ex_sched_valid ex_commit]])
qed

lemma coord_atomic_witness:
  "Told_Abort ex_range \<notin> set [Prepare_Result ex_range (Ok ex_prepare_ok), Told_Commit ex_range 10] \<and>
   (\<exists>w. ex_row_committed 5 = Some w \<and> tx_status w = ''committed'')"
  using coord_atomic [OF ex_coord_reachable, of ex_range 10 ex_range] by (simp add: ex_coord_def)

lemma coord_commit_decides_witness:
  "\<exists>e w. ex_row_committed 5 = Some w \<and> tx_status w = ''committed'' \<and> tx_epoch w = Some e"
proof -
  have "tx_rows_ok ex_row" by (simp add: ex_row_def tx_rows_ok_def tx_row_ok_def)
  then have "tx_rows_ok (co_table (ex_coord TxRunning [] ex_row))" by (simp add: ex_coord_def)
  from coord_commit_decides [OF executes_reliable ex_sched_valid this _ ex_commit] show ?thesis
    by (auto simp: ex_coord_def ex_row_def)
qed

end
