(* ===== verification/Transaction_Writes.thy ===== *)
theory Transaction_Writes
  imports Coordinator
begin

text \<open>
  The writes a transaction buffers at the coordinator until it commits (coordinator/src/transaction.rs): what
  reads inside the transaction see of them, and what the ranges are sent when it prepares.
\<close>

section \<open>Definitions\<close>

subsection \<open>What a transaction means to write\<close>

text \<open>
  The writes of a client in the order it makes them, and the effect they should have: for each key of a
  keyspace the last value put there, or that it was deleted. \<open>nm\<close> names the keyspaces.
\<close>

datatype tx_op = OpPut keyspace bytes bytes | OpDel keyspace bytes | OpGet keyspace bytes

fun op_effect :: "(keyspace \<Rightarrow> keyspace_id) \<Rightarrow> tx_op \<Rightarrow> (keyspace_id \<times> bytes \<rightharpoonup> bytes option) \<Rightarrow> (keyspace_id \<times> bytes \<rightharpoonup> bytes option)" where
  "op_effect nm (OpPut ks key v) m = m((nm ks, key) \<mapsto> Some v)"
| "op_effect nm (OpDel ks key) m = m((nm ks, key) \<mapsto> None)"
| "op_effect nm (OpGet ks key) m = m"

definition effect :: "(keyspace \<Rightarrow> keyspace_id) \<Rightarrow> tx_op list \<Rightarrow> (keyspace_id \<times> bytes \<rightharpoonup> bytes option)" where
  "effect nm ops = fold (op_effect nm) ops Map.empty"

fun run_op ::
  "(string \<Rightarrow> uuid option) \<Rightarrow> tx_session \<Rightarrow> 'w services \<Rightarrow> (full_range_id set \<Rightarrow> full_range_id list) \<Rightarrow> tx_op \<Rightarrow> 'w coord
     \<Rightarrow> (coord_error, bytes option) outcome \<times> 'w coord" where
  "run_op parse_str exec svc order (OpPut ks key v) s =
     (let (r, s') = coord_put parse_str svc ks key v s in (and_then r (\<lambda>_. Ok None), s'))"
| "run_op parse_str exec svc order (OpDel ks key) s =
     (let (r, s') = coord_del parse_str svc ks key s in (and_then r (\<lambda>_. Ok None), s'))"
| "run_op parse_str exec svc order (OpGet ks key) s = coord_get parse_str exec svc order ks key s"

text \<open>The oracle places the keys of a keyspace in ranges of that keyspace, and does not change its mind.\<close>

definition stable_ranges :: "(keyspace_id \<Rightarrow> bytes \<Rightarrow> full_range_id) \<Rightarrow> 'w services \<Rightarrow> bool" where
  "stable_ranges rng svc \<longleftrightarrow> (\<forall>k key w. fst (svc_full_range_id_of_key svc k key w) \<in> {None, Some (rng k key)}) \<and>
     (\<forall>k key. frid_keyspace_id (rng k key) = k)"

inductive tx_run ::
  "(string \<Rightarrow> uuid option) \<Rightarrow> (keyspace_id \<Rightarrow> bytes \<Rightarrow> full_range_id) \<Rightarrow> tx_op list \<Rightarrow> 'w coord \<Rightarrow> 'w coord \<Rightarrow> bool"
  for parse_str rng where
  run_nil: "tx_run parse_str rng [] s s"
| run_snoc: "tx_run parse_str rng ops s s1 \<Longrightarrow> stable_ranges rng svc \<Longrightarrow>
    run_op parse_str exec svc order op s1 = (Ok v, s2) \<Longrightarrow> tx_run parse_str rng (ops @ [op]) s s2"

definition named :: "'w coord \<Rightarrow> keyspace \<Rightarrow> keyspace_id" where
  "named s ks = the (tn_resolved (co_tx s) ks)"

section \<open>Lemmas\<close>

definition pending :: "transaction \<Rightarrow> full_range_id \<Rightarrow> bytes \<Rightarrow> bytes option option" where
  "pending tx i key =
     (case tn_participants tx i of
        None \<Rightarrow> None
      | Some p \<Rightarrow> (case pt_writeset p key of
          Some v \<Rightarrow> Some (Some v)
        | None \<Rightarrow> if key \<in> pt_deleteset p then Some None else None))"

definition buffers_ok :: "transaction \<Rightarrow> bool" where
  "buffers_ok tx \<longleftrightarrow> (\<forall>i p. tn_participants tx i = Some p \<longrightarrow> dom (pt_writeset p) \<inter> pt_deleteset p = {})"

lemma resolve_frame:
  assumes "resolve_full_record_key parse_str svc ks key s = (r, s')" "stable_ranges rng svc"
  shows "tn_participants (co_tx s') = tn_participants (co_tx s) \<and> tn_state (co_tx s') = tn_state (co_tx s) \<and>
    tn_resolved (co_tx s) \<subseteq>\<^sub>m tn_resolved (co_tx s') \<and>
    (\<forall>i. r = Ok i \<longrightarrow> tn_resolved (co_tx s') ks \<noteq> None \<and> i = rng (named s' ks) key)"
proof -
  obtain r1 s1 where k: "resolve_keyspace parse_str svc ks s = (r1, s1)" by (meson surj_pair)
  have f1: "tn_participants (co_tx s1) = tn_participants (co_tx s) \<and> tn_state (co_tx s1) = tn_state (co_tx s) \<and>
      tn_resolved (co_tx s) \<subseteq>\<^sub>m tn_resolved (co_tx s1) \<and> (\<forall>k. r1 = Ok k \<longrightarrow> tn_resolved (co_tx s1) ks = Some k)"
    using k by (auto simp: resolve_keyspace_def Let_def map_le_def split: option.splits outcome.splits prod.splits)
  have "tn_participants (co_tx s') = tn_participants (co_tx s1) \<and> tn_state (co_tx s') = tn_state (co_tx s1) \<and>
      tn_resolved (co_tx s') = tn_resolved (co_tx s1) \<and> (\<forall>i. r = Ok i \<longrightarrow> (\<exists>k. r1 = Ok k \<and> i = rng k key))"
  proof (cases r1)
    case (Ok k)
    obtain ri w where ri: "svc_full_range_id_of_key svc k key (co_world s1) = (ri, w)" by (meson surj_pair)
    then have "ri = None \<or> ri = Some (rng k key)"
      using assms(2) unfolding stable_ranges_def by (metis fst_conv insert_iff singletonD)
    then show ?thesis using assms(1) k Ok ri by (auto simp: resolve_full_record_key_def)
  qed (use assms(1) k in \<open>auto simp: resolve_full_record_key_def\<close>)
  then show ?thesis using f1 by (auto simp: named_def)
qed

lemma new_participant_pending:
  "pt_writeset new_participant key = None" "key \<notin> pt_deleteset new_participant"
  by (simp_all add: new_participant_def)

text \<open>What a participant buffers for a key.\<close>

definition buffered :: "participant_range \<Rightarrow> bytes \<Rightarrow> bytes option option" where
  "buffered p key = (case pt_writeset p key of
     Some v \<Rightarrow> Some (Some v) | None \<Rightarrow> if key \<in> pt_deleteset p then Some None else None)"

lemma pending_buffered: "pending tx i = (case tn_participants tx i of None \<Rightarrow> Map.empty | Some p \<Rightarrow> buffered p)"
  by (auto simp: pending_def buffered_def fun_eq_iff split: option.splits)

lemma get_participant_pending:
  assumes "get_participant_range i s = (p, s')"
  shows "buffered p = pending (co_tx s) i" "pending (co_tx s') = pending (co_tx s)"
    "tn_participants (co_tx s') = (tn_participants (co_tx s))(i \<mapsto> p)" "tn_resolved (co_tx s') = tn_resolved (co_tx s)"
    "buffers_ok (co_tx s) \<Longrightarrow> buffers_ok (co_tx s')" "tn_info (co_tx s') = tn_info (co_tx s)"
    "buffers_ok (co_tx s) \<Longrightarrow> dom (pt_writeset p) \<inter> pt_deleteset p = {}"
proof -
  have p: "p = (case tn_participants (co_tx s) i of Some p \<Rightarrow> p | None \<Rightarrow> new_participant)"
    "s' = s\<lparr>co_tx := (co_tx s)\<lparr>tn_participants := (tn_participants (co_tx s))(i \<mapsto> p)\<rparr>\<rparr>"
    using assms by (auto simp: get_participant_range_def Let_def)
  have n: "buffered new_participant = Map.empty" by (auto simp: buffered_def new_participant_pending)
  show b: "buffered p = pending (co_tx s) i" by (simp add: p(1) pending_buffered n split: option.splits)
  show "pending (co_tx s') = pending (co_tx s)"
    using b by (auto simp: p(2) pending_buffered fun_eq_iff)
  show "tn_participants (co_tx s') = (tn_participants (co_tx s))(i \<mapsto> p)" "tn_resolved (co_tx s') = tn_resolved (co_tx s)"
    "tn_info (co_tx s') = tn_info (co_tx s)"
    by (simp_all add: p(2))
  assume ok: "buffers_ok (co_tx s)"
  then show d: "dom (pt_writeset p) \<inter> pt_deleteset p = {}"
    by (auto simp: p(1) buffers_ok_def new_participant_def split: option.splits)
  show "buffers_ok (co_tx s')" using ok d by (auto simp: p(2) buffers_ok_def)
qed

lemma set_participant_pending:
  assumes "s' = set_participant_range i p s"
  shows "pending (co_tx s') = (pending (co_tx s))(i := buffered p)" "tn_resolved (co_tx s') = tn_resolved (co_tx s)"
    "buffers_ok (co_tx s) \<Longrightarrow> dom (pt_writeset p) \<inter> pt_deleteset p = {} \<Longrightarrow> buffers_ok (co_tx s')"
    "tn_info (co_tx s') = tn_info (co_tx s)"
  using assms by (auto simp: set_participant_range_def pending_buffered buffers_ok_def fun_eq_iff)

lemma resolve_info:
  "resolve_full_record_key parse_str svc ks key s = (r, s') \<Longrightarrow> tn_info (co_tx s') = tn_info (co_tx s)"
  by (auto simp: resolve_full_record_key_def resolve_keyspace_def Let_def split: option.splits outcome.splits prod.splits)

text \<open>The outcome of a successful operation on a key, with \<open>upd\<close> what it does to the buffer of the key.\<close>

definition op_result_ok ::
  "(keyspace_id \<Rightarrow> bytes \<Rightarrow> full_range_id) \<Rightarrow> keyspace \<Rightarrow> bytes \<Rightarrow> (bytes option option \<Rightarrow> bytes option option)
     \<Rightarrow> 'w coord \<Rightarrow> 'w coord \<Rightarrow> bool" where
  "op_result_ok rng ks key upd s s' \<longleftrightarrow>
     tn_resolved (co_tx s) \<subseteq>\<^sub>m tn_resolved (co_tx s') \<and> tn_resolved (co_tx s') ks \<noteq> None \<and>
     tn_info (co_tx s') = tn_info (co_tx s) \<and> (buffers_ok (co_tx s) \<longrightarrow> buffers_ok (co_tx s')) \<and>
     (let i = rng (named s' ks) key in
      pending (co_tx s') = (pending (co_tx s))(i := (pending (co_tx s) i)(key := upd (pending (co_tx s) i key))))"

lemma put_effect:
  assumes "coord_put parse_str svc ks key v s = (Ok (), s')" "stable_ranges rng svc"
  shows "op_result_ok rng ks key (\<lambda>_. Some (Some v)) s s'"
proof -
  obtain r1 s1 where res: "resolve_full_record_key parse_str svc ks key s = (r1, s1)" by (meson surj_pair)
  then obtain i where i: "r1 = Ok i" using assms(1) by (cases r1) (auto simp: coord_put_def split: outcome.splits)
  obtain p s2 where g: "get_participant_range i s1 = (p, s2)" by (meson surj_pair)
  let ?p = "p\<lparr>pt_deleteset := pt_deleteset p - {key}, pt_writeset := (pt_writeset p)(key \<mapsto> v)\<rparr>"
  have s': "s' = set_participant_range i ?p s2"
    using assms(1) res i g by (auto simp: coord_put_def split: outcome.splits)
  note f = resolve_frame [OF res assms(2)] and f' = resolve_info [OF res]
  have pend1: "pending (co_tx s1) = pending (co_tx s)" using f by (simp add: pending_def fun_eq_iff)
  have ok1: "buffers_ok (co_tx s1) = buffers_ok (co_tx s)" using f by (simp add: buffers_ok_def)
  note gp = get_participant_pending [OF g] and sp = set_participant_pending [OF s']
  have b: "buffered ?p = (buffered p)(key \<mapsto> Some v)" by (auto simp: buffered_def fun_eq_iff)
  have "i = rng (named s' ks) key" using f i gp(4) sp(2) by (simp add: named_def)
  moreover have "buffers_ok (co_tx s) \<Longrightarrow> buffers_ok (co_tx s')"
    using gp(5,7) sp(3) ok1 by auto
  ultimately show ?thesis unfolding op_result_ok_def Let_def
    using f i f' gp(1,2,4,6) sp(1,2,4) pend1 b by simp
qed

lemma del_effect:
  assumes "coord_del parse_str svc ks key s = (Ok (), s')" "stable_ranges rng svc"
  shows "op_result_ok rng ks key (\<lambda>_. Some None) s s'"
proof -
  obtain r1 s1 where res: "resolve_full_record_key parse_str svc ks key s = (r1, s1)" by (meson surj_pair)
  then obtain i where i: "r1 = Ok i" using assms(1) by (cases r1) (auto simp: coord_del_def split: outcome.splits)
  obtain p s2 where g: "get_participant_range i s1 = (p, s2)" by (meson surj_pair)
  let ?p = "p\<lparr>pt_writeset := (pt_writeset p)(key := None), pt_deleteset := insert key (pt_deleteset p)\<rparr>"
  have s': "s' = set_participant_range i ?p s2"
    using assms(1) res i g by (auto simp: coord_del_def split: outcome.splits)
  note f = resolve_frame [OF res assms(2)] and f' = resolve_info [OF res]
  have pend1: "pending (co_tx s1) = pending (co_tx s)" using f by (simp add: pending_def fun_eq_iff)
  have ok1: "buffers_ok (co_tx s1) = buffers_ok (co_tx s)" using f by (simp add: buffers_ok_def)
  note gp = get_participant_pending [OF g] and sp = set_participant_pending [OF s']
  have b: "buffered ?p = (buffered p)(key \<mapsto> None)" by (auto simp: buffered_def fun_eq_iff)
  have "i = rng (named s' ks) key" using f i gp(4) sp(2) by (simp add: named_def)
  moreover have "buffers_ok (co_tx s) \<Longrightarrow> buffers_ok (co_tx s')"
    using gp(5,7) sp(3) ok1 by auto
  ultimately show ?thesis unfolding op_result_ok_def Let_def
    using f i f' gp(1,2,4,6) sp(1,2,4) pend1 b by simp
qed

lemma abort_with_not_Ok: "abort_with reason x \<noteq> (Ok v, s)"
  by (auto simp: abort_with_def split: prod.splits outcome.splits)

lemma get_effect:
  assumes "coord_get parse_str exec svc order ks key s = (Ok v, s')" "stable_ranges rng svc"
  shows "op_result_ok rng ks key id s s' \<and>
    (\<forall>x. pending (co_tx s) (rng (named s' ks) key) key = Some x \<longrightarrow> v = x)"
proof -
  obtain r1 s1 where res: "resolve_full_record_key parse_str svc ks key s = (r1, s1)" by (meson surj_pair)
  then obtain i where i: "r1 = Ok i" using assms(1) by (cases r1) (auto simp: coord_get_def split: outcome.splits)
  obtain p s2 where g: "get_participant_range i s1 = (p, s2)" by (meson surj_pair)
  note f = resolve_frame [OF res assms(2)] and f' = resolve_info [OF res] and gp = get_participant_pending [OF g]
  have pend1: "pending (co_tx s1) = pending (co_tx s)" using f by (simp add: pending_def fun_eq_iff)
  have ok1: "buffers_ok (co_tx s1) = buffers_ok (co_tx s)" using f by (simp add: buffers_ok_def)
  have i1: "i = rng (named s1 ks) key" "tn_resolved (co_tx s1) ks \<noteq> None" using f i by auto
  have keep: "op_result_ok rng ks key id s s3" if "tn_resolved (co_tx s3) = tn_resolved (co_tx s1)"
      "tn_info (co_tx s3) = tn_info (co_tx s1)" "pending (co_tx s3) = pending (co_tx s1)"
      "buffers_ok (co_tx s1) \<Longrightarrow> buffers_ok (co_tx s3)" for s3 :: "'a coord"
    using that f f' i1(2) pend1 ok1 by (simp add: op_result_ok_def Let_def)
  have same: "named s3 ks = named s1 ks" if "tn_resolved (co_tx s3) = tn_resolved (co_tx s1)" for s3 :: "'a coord"
    using that by (simp add: named_def)
  show ?thesis
  proof (cases "buffered p key")
    case (Some x)
    then have "v = x" "s' = s2" using assms(1) res i g
      by (auto simp: coord_get_def buffered_def split: outcome.splits option.splits if_splits)
    then show ?thesis
      using keep [of s2] same [of s2] gp(1,2,4,5,6) i1(1) pend1 Some by auto
  next
    case None
    then have n: "pt_writeset p key = None" "key \<notin> pt_deleteset p" by (auto simp: buffered_def split: option.splits if_splits)
    obtain gr w where gw: "svc_get svc (tn_info (co_tx s2)) i [key] (co_world s2) = (gr, w)" by (meson surj_pair)
    obtain p3 s4 where g2: "get_participant_range i (s2\<lparr>co_world := w\<rparr>) = (p3, s4)" by (meson surj_pair)
    note gp2 = get_participant_pending [OF g2]
    have b: "buffered (q\<lparr>pt_readset := A\<rparr>) = buffered q" "buffered (q\<lparr>pt_leader_sequence_number := l\<rparr>) = buffered q" for q A l
      by (auto simp: buffered_def fun_eq_iff)
    obtain get_result where gr: "gr = Ok get_result"
      using assms(1) res i g n gw by (cases gr) (auto simp: coord_get_def Let_def split: outcome.splits)
    let ?cur = "cg_leader_sequence_number get_result"
    let ?p4 = "if ?cur \<noteq> INVALID_LEADER_SEQUENCE_NUMBER \<and> pt_leader_sequence_number p3 = UNSET_LEADER_SEQUENCE_NUMBER
      then p3\<lparr>pt_leader_sequence_number := ?cur\<rparr> else p3"
    let ?s5 = "set_participant_range i ?p4 s4"
    have s': "s' = set_participant_range i (?p4\<lparr>pt_readset := insert key (pt_readset ?p4)\<rparr>) ?s5"
      using assms(1) res i g n gw gr g2
      by (auto simp: coord_get_def Let_def abort_with_not_Ok split: outcome.splits if_splits list.splits)
    have p4: "buffered ?p4 = buffered p3" "pt_writeset ?p4 = pt_writeset p3" "pt_deleteset ?p4 = pt_deleteset p3"
      using b by simp_all
    note s5 = set_participant_pending [OF refl, where i = i and p = ?p4 and s = s4]
    note s6 = set_participant_pending [OF s']
    have "tn_resolved (co_tx s') = tn_resolved (co_tx s1)" "tn_info (co_tx s') = tn_info (co_tx s1)"
      using s6(2,4) s5(2,4) gp2(4,6) gp(4,6) by simp_all
    moreover have "pending (co_tx s') = pending (co_tx s1)"
      using s6(1) s5(1) p4(1) gp2(1,2) gp(2) b by simp
    moreover have "buffers_ok (co_tx s')" if "buffers_ok (co_tx s1)"
      using s6(3) s5(3) gp2(5,7) gp(5) that p4 by simp
    ultimately show ?thesis using keep [of s'] same [of s'] None gp(1) i1(1) pend1 by simp
  qed
qed

subsection \<open>Sequences of operations\<close>

fun op_keyspace :: "tx_op \<Rightarrow> keyspace" where
  "op_keyspace (OpPut ks key v) = ks"
| "op_keyspace (OpDel ks key) = ks"
| "op_keyspace (OpGet ks key) = ks"

lemma effect_snoc: "effect nm (ops @ [op]) = op_effect nm op (effect nm ops)"
  by (simp add: effect_def)

lemma effect_cong:
  "(\<And>op. op \<in> set ops \<Longrightarrow> nm (op_keyspace op) = nm' (op_keyspace op)) \<Longrightarrow> effect nm ops = effect nm' ops"
proof (induction ops rule: rev_induct)
  case (snoc op ops)
  have "effect nm ops = effect nm' ops" using snoc by simp
  moreover have "nm (op_keyspace op) = nm' (op_keyspace op)" using snoc.prems by simp
  ultimately show ?case by (cases op) (simp_all add: effect_snoc)
qed (simp add: effect_def)

text \<open>The buffers hold the effect of the operations so far, and every key in the range the oracle gives for it.\<close>

definition run_inv ::
  "(keyspace_id \<Rightarrow> bytes \<Rightarrow> full_range_id) \<Rightarrow> transaction_info \<Rightarrow> tx_op list \<Rightarrow> 'w coord \<Rightarrow> bool" where
  "run_inv rng info ops s \<longleftrightarrow>
     (\<forall>op \<in> set ops. tn_resolved (co_tx s) (op_keyspace op) \<noteq> None) \<and> buffers_ok (co_tx s) \<and> tn_info (co_tx s) = info \<and>
     (\<forall>i key. pending (co_tx s) i key =
        (if rng (frid_keyspace_id i) key = i then effect (named s) ops (frid_keyspace_id i, key) else None))"

lemma run_inv_op:
  assumes "run_inv rng info ops s" "op_result_ok rng (op_keyspace op) key upd s s'" "\<And>k key. frid_keyspace_id (rng k key) = k"
    and "op = OpPut (op_keyspace op) key v \<and> upd = (\<lambda>_. Some (Some v)) \<or> op = OpDel (op_keyspace op) key \<and> upd = (\<lambda>_. Some None) \<or>
      op = OpGet (op_keyspace op) key \<and> upd = id"
  shows "run_inv rng info (ops @ [op]) s'"
proof -
  let ?k = "named s' (op_keyspace op)"
  have le: "tn_resolved (co_tx s) \<subseteq>\<^sub>m tn_resolved (co_tx s')" "tn_resolved (co_tx s') (op_keyspace op) \<noteq> None"
    and p: "pending (co_tx s') = (pending (co_tx s))(rng ?k key := (pending (co_tx s) (rng ?k key))(key := upd (pending (co_tx s) (rng ?k key) key)))"
    and rest: "buffers_ok (co_tx s')" "tn_info (co_tx s') = info"
    using assms(1,2) by (auto simp: op_result_ok_def Let_def run_inv_def)
  have old: "tn_resolved (co_tx s) (op_keyspace op') \<noteq> None" if "op' \<in> set ops" for op'
    using assms(1) that by (auto simp: run_inv_def)
  have keep: "tn_resolved (co_tx s') (op_keyspace op') = tn_resolved (co_tx s) (op_keyspace op')" if "op' \<in> set ops" for op'
    using le(1) old [OF that] by (metis domIff map_le_def)
  have eff: "effect (named s') ops = effect (named s) ops"
    by (rule effect_cong) (simp add: named_def keep)
  have "pending (co_tx s') i key' = (if rng (frid_keyspace_id i) key' = i
      then effect (named s') (ops @ [op]) (frid_keyspace_id i, key') else None)" for i key'
    using assms(1,3,4) p by (cases op) (auto simp: run_inv_def effect_snoc eff)
  then show ?thesis using le(2) old keep rest by (auto simp: run_inv_def)
qed

lemma tx_run_inv:
  assumes "tx_run parse_str rng ops s s'" "co_tx s = transaction_new info"
  shows "run_inv rng info ops s'"
  using assms
proof (induction rule: tx_run.induct)
  case (run_nil s)
  then show ?case
    by (simp add: run_inv_def transaction_new_def buffers_ok_def pending_def effect_def)
next
  case (run_snoc ops s s1 svc exec order op v s2)
  have k: "frid_keyspace_id (rng k key) = k" for k key using run_snoc(2) by (simp add: stable_ranges_def)
  have inv: "run_inv rng info ops s1" using run_snoc by simp
  show ?case
  proof (cases op)
    case (OpPut ks key v')
    then have "coord_put parse_str svc ks key v' s1 = (Ok (), s2)" using run_snoc(3) by (auto split: prod.splits)
    from run_inv_op [OF inv _ k, of op key _ s2 v'] put_effect [OF this run_snoc(2)] show ?thesis using OpPut by auto
  next
    case (OpDel ks key)
    then have "coord_del parse_str svc ks key s1 = (Ok (), s2)" using run_snoc(3) by (auto split: prod.splits)
    from run_inv_op [OF inv _ k, of op key _ s2] del_effect [OF this run_snoc(2)] show ?thesis using OpDel by auto
  next
    case (OpGet ks key)
    then have "coord_get parse_str exec svc order ks key s1 = (Ok v, s2)" using run_snoc(3) by simp
    from run_inv_op [OF inv _ k, of op key _ s2] get_effect [OF this run_snoc(2)] show ?thesis using OpGet by auto
  qed
qed

section \<open>Properties\<close>

text \<open>
  C14: a transaction reads its own writes. After any sequence of successful puts, deletes and gets in a new transaction, with
  the universe free to change what the names of keyspaces mean, a get of a key the transaction has written returns
  the value put last, and nothing if the key was deleted last. The oracle keeps the keys in their ranges meanwhile.
\<close>

theorem transaction_reads_own_writes:
  assumes "tx_run parse_str rng ops s0 s" "co_tx s0 = transaction_new info" "stable_ranges rng svc"
    and "coord_get parse_str exec svc order ks key s = (Ok v, s')"
    and "effect (named s') ops (named s' ks, key) = Some x"
  shows "v = x"
proof -
  have inv: "run_inv rng info ops s" by (rule tx_run_inv [OF assms(1,2)])
  note g = get_effect [OF assms(4,3)]
  then have le: "tn_resolved (co_tx s) \<subseteq>\<^sub>m tn_resolved (co_tx s')" by (simp add: op_result_ok_def)
  have "effect (named s') ops = effect (named s) ops"
  proof (rule effect_cong)
    fix op assume "op \<in> set ops"
    then have "tn_resolved (co_tx s) (op_keyspace op) \<noteq> None" using inv by (auto simp: run_inv_def)
    then show "named s' (op_keyspace op) = named s (op_keyspace op)"
      using le unfolding named_def by (metis domIff map_le_def)
  qed
  then have "pending (co_tx s) (rng (named s' ks) key) key = Some x"
    using inv assms(3,5) by (simp add: run_inv_def stable_ranges_def)
  then show ?thesis using g by blast
qed

text \<open>
  C15: what a range is sent when the transaction prepares is the net effect of the operations on its keys. The
  request has one write for each key whose last operation is a put, with that value, one delete for each key that was
  deleted last, and nothing for keys of other ranges.
\<close>

theorem prepare_sends_net_effect:
  assumes "tx_run parse_str rng ops s0 s" "co_tx s0 = transaction_new info"
    and "tn_participants (co_tx s) i = Some p"
    and "set (keys (dom (pt_writeset p))) = dom (pt_writeset p)" "set (keys (pt_deleteset p)) = pt_deleteset p"
  shows "\<exists>writes deletes. prepare_task svc keys (co_tx s) i w = svc_prepare svc info i (pt_readset p \<noteq> {}) writes deletes w \<and>
    (\<forall>key. map_of writes key =
       (if rng (frid_keyspace_id i) key = i then Option.bind (effect (named s) ops (frid_keyspace_id i, key)) id else None)) \<and>
    (\<forall>key. key \<in> set deletes \<longleftrightarrow> rng (frid_keyspace_id i) key = i \<and> effect (named s) ops (frid_keyspace_id i, key) = Some None)"
proof -
  let ?writes = "map (\<lambda>k. (k, the (pt_writeset p k))) (keys (dom (pt_writeset p)))"
  have inv: "run_inv rng info ops s" by (rule tx_run_inv [OF assms(1,2)])
  have ok: "dom (pt_writeset p) \<inter> pt_deleteset p = {}" using inv assms(3) by (auto simp: run_inv_def buffers_ok_def)
  have pb: "pending (co_tx s) i = buffered p" using assms(3) by (simp add: pending_buffered)
  have pend: "buffered p key = (if rng (frid_keyspace_id i) key = i then effect (named s) ops (frid_keyspace_id i, key) else None)" for key
    using inv by (simp add: run_inv_def pb [symmetric])
  have "map_of ?writes key = pt_writeset p key" for key
    using assms(4) by (auto simp: map_of_map_restrict restrict_map_def)
  moreover have "pt_writeset p key = Option.bind (buffered p key) id" for key
    by (auto simp: buffered_def split: option.splits)
  moreover have "key \<in> set (keys (pt_deleteset p)) \<longleftrightarrow> buffered p key = Some None" for key
    using ok assms(5) by (auto simp: buffered_def split: option.splits)
  moreover have "prepare_task svc keys (co_tx s) i w =
      svc_prepare svc info i (pt_readset p \<noteq> {}) ?writes (keys (pt_deleteset p)) w"
    using assms(3) inv by (simp add: prepare_task_def run_inv_def)
  ultimately show ?thesis
    by (intro exI [of _ ?writes] exI [of _ "keys (pt_deleteset p)"]) (auto simp: pend)
qed

section \<open>Witnesses\<close>

definition ex_rng :: "keyspace_id \<Rightarrow> bytes \<Rightarrow> full_range_id" where
  "ex_rng k key = \<lparr>frid_keyspace_id = k, frid_range_id = 2\<rparr>"

definition ex_wsvc :: "unit services" where
  "ex_wsvc = ex_svc\<lparr>svc_full_range_id_of_key := (\<lambda>k key w. (Some (ex_rng k key), w))\<rparr>"

definition ex_wstart :: "unit coord" where
  "ex_wstart = \<lparr>co_tx = transaction_new ex_client_tx, co_world = (), co_table = Map.empty\<rparr>"

definition ex_wstate :: "unit coord" where
  "ex_wstate = ex_wstart\<lparr>co_tx := (transaction_new ex_client_tx)\<lparr>tn_participants := [ex_rng \<lparr>ksid_id = 1\<rparr> [1] \<mapsto> ex_participant],
     tn_resolved := [ex_keyspace \<mapsto> \<lparr>ksid_id = 1\<rparr>]\<rparr>\<rparr>"

lemma ex_stable: "stable_ranges ex_rng ex_wsvc"
  by (simp add: stable_ranges_def ex_wsvc_def ex_rng_def)

lemmas ex_weval = ex_wstart_def ex_wstate_def ex_wsvc_def ex_svc_def transaction_new_def resolve_full_record_key_def resolve_keyspace_def
  keyspace_id_from_str_def get_participant_range_def set_participant_range_def ex_participant_def new_participant_def

lemma ex_run: "tx_run (\<lambda>_. Some 1) ex_rng [OpPut ex_keyspace [1] [2]] ex_wstart ex_wstate"
proof -
  have "run_op (\<lambda>_. Some 1) (reliable tx_sem) ex_wsvc (\<lambda>_. []) (OpPut ex_keyspace [1] [2]) ex_wstart = (Ok None, ex_wstate)"
    by (simp add: coord_put_def ex_weval Let_def)
  from run_snoc [OF run_nil ex_stable this] show ?thesis by simp
qed

lemma transaction_reads_own_writes_witness:
  "\<exists>s'. coord_get (\<lambda>_. Some 1) (reliable tx_sem) ex_wsvc (\<lambda>_. []) ex_keyspace [1] ex_wstate = (Ok (Some [2]), s')"
proof -
  obtain v s' where g: "coord_get (\<lambda>_. Some 1) (reliable tx_sem) ex_wsvc (\<lambda>_. []) ex_keyspace [1] ex_wstate = (Ok v, s')"
      "s' = ex_wstate"
    by (simp add: coord_get_def ex_weval Let_def)
  have "effect (named s') [OpPut ex_keyspace [1] [2]] (named s' ex_keyspace, [1]) = Some (Some [2])"
    by (simp add: effect_def)
  then have "v = Some [2]"
    using transaction_reads_own_writes [OF ex_run _ ex_stable g(1)] by (simp add: ex_wstart_def)
  then show ?thesis using g by blast
qed

lemma prepare_sends_net_effect_witness:
  "\<exists>writes deletes. map_of writes [1] = Some [2] \<and> [1] \<notin> set deletes \<and>
     prepare_task ex_wsvc (\<lambda>A. if A = {} then [] else [[1]]) (co_tx ex_wstate) (ex_rng \<lparr>ksid_id = 1\<rparr> [1]) () =
       svc_prepare ex_wsvc ex_client_tx (ex_rng \<lparr>ksid_id = 1\<rparr> [1]) False writes deletes ()"
proof -
  have e: "effect (named ex_wstate) [OpPut ex_keyspace [1] [2]] (\<lparr>ksid_id = 1\<rparr>, [1]) = Some (Some [2])"
    by (simp add: effect_def named_def ex_wstate_def)
  have "tn_participants (co_tx ex_wstate) (ex_rng \<lparr>ksid_id = 1\<rparr> [1]) = Some ex_participant"
    by (simp add: ex_wstate_def)
  from prepare_sends_net_effect [where keys = "\<lambda>A. if A = {} then [] else [[1]]" and svc = ex_wsvc and w = "()" and info = ex_client_tx,
      OF ex_run _ this]
  obtain writes deletes where wd: "prepare_task ex_wsvc (\<lambda>A. if A = {} then [] else [[1]]) (co_tx ex_wstate) (ex_rng \<lparr>ksid_id = 1\<rparr> [1]) () =
      svc_prepare ex_wsvc ex_client_tx (ex_rng \<lparr>ksid_id = 1\<rparr> [1]) False writes deletes ()"
      "map_of writes [1] = Option.bind (effect (named ex_wstate) [OpPut ex_keyspace [1] [2]] (\<lparr>ksid_id = 1\<rparr>, [1])) id"
      "[1] \<in> set deletes \<longleftrightarrow> effect (named ex_wstate) [OpPut ex_keyspace [1] [2]] (\<lparr>ksid_id = 1\<rparr>, [1]) = Some None"
    by (auto simp: ex_wstart_def ex_participant_def new_participant_def ex_rng_def)
  then show ?thesis by (intro exI [of _ writes] exI [of _ deletes]) (simp add: e)
qed

end
