(* ===== verification/Universe.thy ===== *)
theory Universe
  imports Cql
begin

text \<open>
  The universe manager: the table of keyspaces (universe/src/storage/cassandra.rs) and the service in front of
  it (universe/src/server.rs). The database session, the driver's decoding of a row, the text form of
  uuids and the freshly drawn uuids are arguments.
\<close>

section \<open>Definitions\<close>

subsection \<open>Messages\<close>

record proto_keyspace_info =
  pki_keyspace_id :: string
  pki_namespace :: string
  pki_name :: string
  pki_primary_zone :: "proto_zone option"
  pki_base_key_ranges :: "proto_key_range list"

record proto_key_range_request =
  krr_lower_bound_inclusive :: bytes
  krr_upper_bound_exclusive :: bytes

record create_keyspace_request =
  ck_namespace :: string
  ck_name :: string
  ck_primary_zone :: "proto_zone option"
  ck_base_key_ranges :: "proto_key_range_request list"

datatype proto_search_field = ProtoKeyspace string string | ProtoKeyspaceId string

subsection \<open>The storage interface (universe/src/storage.rs)\<close>

datatype universe_error =
    UniverseTimeout | KeyspaceAlreadyExists | UniverseInternalError "string option" | UniverseKeyspaceDoesNotExist

fun universe_error_text :: "universe_error \<Rightarrow> string" where
  "universe_error_text UniverseTimeout = ''Timeout Error''"
| "universe_error_text KeyspaceAlreadyExists = ''Keyspace already exists''"
| "universe_error_text (UniverseInternalError e) =
     ''Storage Layer error: '' @ (case e of Some t \<Rightarrow> t | None \<Rightarrow> ''Unknown error'')"
| "universe_error_text UniverseKeyspaceDoesNotExist = ''Keyspace does not exist''"

datatype search_field = SearchKeyspace string string | SearchKeyspaceId string

fun search_field_from_proto :: "proto_search_field \<Rightarrow> search_field" where
  "search_field_from_proto (ProtoKeyspace ns n) = SearchKeyspace ns n"
| "search_field_from_proto (ProtoKeyspaceId i) = SearchKeyspaceId i"

fun search_field_to_proto :: "search_field \<Rightarrow> proto_search_field" where
  "search_field_to_proto (SearchKeyspace ns n) = ProtoKeyspace ns n"
| "search_field_to_proto (SearchKeyspaceId i) = ProtoKeyspaceId i"

subsection \<open>Rows\<close>

record serialized_region =
  sr_name :: string
  sr_cloud :: "string option"

record serialized_zone =
  sz_region :: "serialized_region option"
  sz_name :: string

record serialized_key_range =
  sk_base_range_uuid :: uuid
  sk_lower_bound_inclusive :: "bytes option"
  sk_upper_bound_exclusive :: "bytes option"

record serialized_keyspace_info =
  si_keyspace_id :: uuid
  si_name :: string
  si_namespace :: string
  si_primary_zone :: serialized_zone
  si_base_key_ranges :: "serialized_key_range list"

text \<open>The name of a cloud of the protocol; a number that is none of them is an error that is unwrapped.\<close>

definition cloud_str_name :: "32 word \<Rightarrow> string option" where
  "cloud_str_name c = (if c = 0 then Some ''AWS'' else if c = 1 then Some ''AZURE'' else if c = 2 then Some ''GCP'' else None)"

definition serialize_region :: "proto_region \<Rightarrow> (universe_error, serialized_region) outcome" where
  "serialize_region region =
     (case pr_cloud region of
        Some (PublicCloud c) \<Rightarrow>
          (case cloud_str_name c of None \<Rightarrow> Panic | Some n \<Rightarrow> Ok \<lparr>sr_name = pr_name region, sr_cloud = Some n\<rparr>)
      | Some (OtherCloud other) \<Rightarrow> Ok \<lparr>sr_name = pr_name region, sr_cloud = Some other\<rparr>
      | None \<Rightarrow> Ok \<lparr>sr_name = pr_name region, sr_cloud = None\<rparr>)"

definition serialize_key_range ::
  "(string \<Rightarrow> uuid option) \<Rightarrow> proto_key_range \<Rightarrow> (universe_error, serialized_key_range) outcome" where
  "serialize_key_range parse_str r =
     (case parse_str (base_range_uuid r) of
        None \<Rightarrow> Panic
      | Some i \<Rightarrow> Ok \<lparr>sk_base_range_uuid = i, sk_lower_bound_inclusive = Some (pkr_lower_bound_inclusive r),
                      sk_upper_bound_exclusive = Some (pkr_upper_bound_exclusive r)\<rparr>)"

fun serialize_key_ranges ::
  "(string \<Rightarrow> uuid option) \<Rightarrow> proto_key_range list \<Rightarrow> (universe_error, serialized_key_range list) outcome" where
  "serialize_key_ranges parse_str [] = Ok []"
| "serialize_key_ranges parse_str (r # rs) =
     and_then (serialize_key_range parse_str r)
       (\<lambda>s. and_then (serialize_key_ranges parse_str rs) (\<lambda>ss. Ok (s # ss)))"

definition construct_from_parts ::
  "(string \<Rightarrow> uuid option) \<Rightarrow> uuid \<Rightarrow> string \<Rightarrow> string \<Rightarrow> proto_zone \<Rightarrow> proto_key_range list
     \<Rightarrow> (universe_error, serialized_keyspace_info) outcome" where
  "construct_from_parts parse_str keyspace_id name namespace primary_zone ranges =
     and_then (case pz_region primary_zone of
                 None \<Rightarrow> Ok None
               | Some r \<Rightarrow> and_then (serialize_region r) (\<lambda>s. Ok (Some s)))
       (\<lambda>region. and_then (serialize_key_ranges parse_str ranges)
         (\<lambda>rs. Ok \<lparr>si_keyspace_id = keyspace_id, si_name = name, si_namespace = namespace,
                   si_primary_zone = \<lparr>sz_region = region, sz_name = pz_name primary_zone\<rparr>, si_base_key_ranges = rs\<rparr>))"

definition proto_cloud_of :: "string \<Rightarrow> proto_cloud" where
  "proto_cloud_of c =
     (if c = ''AWS'' then PublicCloud 0 else if c = ''AZURE'' then PublicCloud 1
      else if c = ''GCP'' then PublicCloud 2 else OtherCloud c)"

definition read_key_range :: "(uuid \<Rightarrow> string) \<Rightarrow> serialized_key_range \<Rightarrow> proto_key_range" where
  "read_key_range to_str r = \<lparr>base_range_uuid = to_str (sk_base_range_uuid r),
     pkr_lower_bound_inclusive = (case sk_lower_bound_inclusive r of None \<Rightarrow> [] | Some b \<Rightarrow> b),
     pkr_upper_bound_exclusive = (case sk_upper_bound_exclusive r of None \<Rightarrow> [] | Some b \<Rightarrow> b)\<rparr>"

definition into_keyspace_info :: "(uuid \<Rightarrow> string) \<Rightarrow> serialized_keyspace_info \<Rightarrow> proto_keyspace_info" where
  "into_keyspace_info to_str s =
     \<lparr>pki_keyspace_id = to_str (si_keyspace_id s), pki_namespace = si_namespace s, pki_name = si_name s,
      pki_primary_zone = Some \<lparr>pz_region = map_option (\<lambda>r. \<lparr>pr_cloud = map_option proto_cloud_of (sr_cloud r), pr_name = sr_name r\<rparr>)
                                              (sz_region (si_primary_zone s)),
                               pz_name = sz_name (si_primary_zone s)\<rparr>,
      pki_base_key_ranges = map (read_key_range to_str) (si_base_key_ranges s)\<rparr>"

subsection \<open>The table of keyspaces\<close>

text \<open>
  Rows are kept in the order in which the database returns them, given by the argument \<open>place\<close> on the
  primary key: the partition key is the namespace and the clustering column the name.
\<close>

type_synonym keyspace_table = "serialized_keyspace_info list"

datatype universe_stmt =
    CREATE_KEYSPACE_QUERY serialized_keyspace_info
  | LIST_KEYSPACES_QUERY
  | GET_KEYSPACE_INFO_BY_KEYSPACE_QUERY string string
  | GET_KEYSPACE_INFO_BY_KEYSPACE_ID_QUERY uuid

datatype universe_rows = KsApplied "bool option" | KsRows "serialized_keyspace_info list"

definition row_key :: "serialized_keyspace_info \<Rightarrow> string \<times> string" where
  "row_key s = (si_namespace s, si_name s)"

fun universe_sem :: "(string \<times> string \<Rightarrow> nat) \<Rightarrow> universe_stmt \<Rightarrow> keyspace_table \<Rightarrow> universe_rows \<times> keyspace_table" where
  "universe_sem place (CREATE_KEYSPACE_QUERY s) t =
     (if row_key s \<in> set (map row_key t) then (KsApplied (Some False), t)
      else (KsApplied (Some True), insort_key (place \<circ> row_key) s t))"
| "universe_sem place LIST_KEYSPACES_QUERY t = (KsRows t, t)"
| "universe_sem place (GET_KEYSPACE_INFO_BY_KEYSPACE_QUERY ns n) t = (KsRows (filter (\<lambda>s. row_key s = (ns, n)) t), t)"
| "universe_sem place (GET_KEYSPACE_INFO_BY_KEYSPACE_ID_QUERY i) t = (KsRows (filter (\<lambda>s. si_keyspace_id s = i) t), t)"

type_synonym universe_session = "(universe_stmt, keyspace_table, universe_rows) session"

fun scylla_query_error_to_universe_error :: "query_error \<Rightarrow> universe_error" where
  "scylla_query_error_to_universe_error TimeoutError = UniverseTimeout"
| "scylla_query_error_to_universe_error DbWriteTimeout = UniverseTimeout"
| "scylla_query_error_to_universe_error (OtherQueryError e) = UniverseInternalError (Some e)"

text \<open>
  The conversion of a row by the driver: the error's text, or the value. The code relies on getting
  back what it wrote when there is at least one range; on a row without ranges nothing is assumed.
\<close>

type_synonym row_decoder = "serialized_keyspace_info \<Rightarrow> (string, serialized_keyspace_info) outcome"

definition decodes_written_rows :: "row_decoder \<Rightarrow> bool" where
  "decodes_written_rows into_typed \<longleftrightarrow> (\<forall>s. si_base_key_ranges s \<noteq> [] \<longrightarrow> into_typed s = Ok s)"

subsection \<open>Storage operations\<close>

definition storage_create_keyspace ::
  "(string \<Rightarrow> uuid option) \<Rightarrow> universe_session \<Rightarrow> string \<Rightarrow> string \<Rightarrow> string \<Rightarrow> proto_zone \<Rightarrow> proto_key_range list
     \<Rightarrow> keyspace_table \<Rightarrow> (universe_error, string) outcome \<times> keyspace_table" where
  "storage_create_keyspace parse_str exec keyspace_id name namespace primary_zone ranges t =
     (case parse_str keyspace_id of
        None \<Rightarrow> (Panic, t)
      | Some i \<Rightarrow>
     (case construct_from_parts parse_str i name namespace primary_zone ranges of
        Err e \<Rightarrow> (Err e, t)
      | Panic \<Rightarrow> (Panic, t)
      | Ok info \<Rightarrow>
     (case exec 0 (CREATE_KEYSPACE_QUERY info) t of
        (Ok (KsApplied (Some b)), t') \<Rightarrow> (if b then Ok keyspace_id else Err KeyspaceAlreadyExists, t')
      | (Ok (KsApplied None), t') \<Rightarrow> (Err (UniverseInternalError None), t')
      | (Ok (KsRows _), t') \<Rightarrow> (Panic, t')
      | (Err qe, t') \<Rightarrow> (Err (scylla_query_error_to_universe_error qe), t')
      | (Panic, t') \<Rightarrow> (Panic, t'))))"

definition rows_of :: "universe_rows \<Rightarrow> serialized_keyspace_info list" where
  "rows_of r = (case r of KsRows rs \<Rightarrow> rs | _ \<Rightarrow> [])"

fun typed_rows ::
  "row_decoder \<Rightarrow> (uuid \<Rightarrow> string) \<Rightarrow> serialized_keyspace_info list \<Rightarrow> (universe_error, proto_keyspace_info list) outcome" where
  "typed_rows into_typed to_str [] = Ok []"
| "typed_rows into_typed to_str (row # rows) =
     and_then (map_err (\<lambda>e. UniverseInternalError (Some e)) (into_typed row))
       (\<lambda>s. and_then (typed_rows into_typed to_str rows) (\<lambda>ks. Ok (into_keyspace_info to_str s # ks)))"

definition in_region :: "proto_region option \<Rightarrow> proto_keyspace_info \<Rightarrow> bool" where
  "in_region region k =
     (case region of None \<Rightarrow> True | Some r \<Rightarrow> Option.bind (pki_primary_zone k) pz_region = Some r)"

definition storage_list_keyspaces ::
  "row_decoder \<Rightarrow> (uuid \<Rightarrow> string) \<Rightarrow> universe_session \<Rightarrow> proto_region option \<Rightarrow> keyspace_table
     \<Rightarrow> (universe_error, proto_keyspace_info list) outcome \<times> keyspace_table" where
  "storage_list_keyspaces into_typed to_str exec region t =
     (case exec 0 LIST_KEYSPACES_QUERY t of
        (Ok r, t') \<Rightarrow> (and_then (typed_rows into_typed to_str (rows_of r)) (\<lambda>ks. Ok (filter (in_region region) ks)), t')
      | (Err qe, t') \<Rightarrow> (Err (scylla_query_error_to_universe_error qe), t')
      | (Panic, t') \<Rightarrow> (Panic, t'))"

definition storage_get_keyspace_info ::
  "row_decoder \<Rightarrow> (string \<Rightarrow> uuid option) \<Rightarrow> (uuid \<Rightarrow> string) \<Rightarrow> universe_session \<Rightarrow> search_field \<Rightarrow> keyspace_table
     \<Rightarrow> (universe_error, proto_keyspace_info) outcome \<times> keyspace_table" where
  "storage_get_keyspace_info into_typed parse_str to_str exec field t =
     (let query = (case field of
          SearchKeyspace ns n \<Rightarrow> Some (GET_KEYSPACE_INFO_BY_KEYSPACE_QUERY ns n)
        | SearchKeyspaceId i \<Rightarrow> map_option GET_KEYSPACE_INFO_BY_KEYSPACE_ID_QUERY (parse_str i))
      in case query of
           None \<Rightarrow> (Panic, t)
         | Some q \<Rightarrow>
             (case exec 0 q t of
                (Ok r, t') \<Rightarrow>
                  (case rows_of r of
                     [] \<Rightarrow> (Err UniverseKeyspaceDoesNotExist, t')
                   | row # _ \<Rightarrow> (and_then (unwrap (into_typed row)) (\<lambda>s. Ok (into_keyspace_info to_str s)), t'))
              | (Err qe, t') \<Rightarrow> (Err (scylla_query_error_to_universe_error qe), t')
              | (Panic, t') \<Rightarrow> (Panic, t')))"

subsection \<open>The service\<close>

text \<open>\<open>ids\<close> are the uuids drawn for the ranges, in order, and \<open>kid\<close> the one drawn for the keyspace.\<close>

definition request_ranges :: "(uuid \<Rightarrow> string) \<Rightarrow> (nat \<Rightarrow> uuid) \<Rightarrow> proto_key_range_request list \<Rightarrow> proto_key_range list" where
  "request_ranges to_str ids requests =
     (let ranges = map (\<lambda>(n, kr). \<lparr>base_range_uuid = to_str (ids n),
                          pkr_lower_bound_inclusive = krr_lower_bound_inclusive kr,
                          pkr_upper_bound_exclusive = krr_upper_bound_exclusive kr\<rparr>) (enumerate 0 requests)
      in if ranges = [] then [\<lparr>base_range_uuid = to_str (ids 0), pkr_lower_bound_inclusive = [], pkr_upper_bound_exclusive = []\<rparr>]
         else ranges)"

definition universe_create_keyspace ::
  "(string \<Rightarrow> uuid option) \<Rightarrow> (uuid \<Rightarrow> string) \<Rightarrow> universe_session \<Rightarrow> (nat \<Rightarrow> uuid) \<Rightarrow> uuid \<Rightarrow> create_keyspace_request
     \<Rightarrow> keyspace_table \<Rightarrow> (string, string) outcome \<times> keyspace_table" where
  "universe_create_keyspace parse_str to_str exec ids kid req t =
     (case ck_primary_zone req of
        None \<Rightarrow> (Panic, t)
      | Some zone \<Rightarrow>
          (let (r, t') = storage_create_keyspace parse_str exec (to_str kid) (ck_name req) (ck_namespace req) zone
                           (request_ranges to_str ids (ck_base_key_ranges req)) t
           in (map_err (\<lambda>e. ''Failed to create keyspace: '' @ universe_error_text e) r, t')))"

definition universe_list_keyspaces ::
  "row_decoder \<Rightarrow> (uuid \<Rightarrow> string) \<Rightarrow> universe_session \<Rightarrow> proto_region option \<Rightarrow> keyspace_table
     \<Rightarrow> (string, proto_keyspace_info list) outcome \<times> keyspace_table" where
  "universe_list_keyspaces into_typed to_str exec region t =
     (let (r, t') = storage_list_keyspaces into_typed to_str exec region t
      in (map_err (\<lambda>e. ''Failed to list keyspaces: '' @ universe_error_text e) r, t'))"

definition universe_get_keyspace_info ::
  "row_decoder \<Rightarrow> (string \<Rightarrow> uuid option) \<Rightarrow> (uuid \<Rightarrow> string) \<Rightarrow> universe_session \<Rightarrow> proto_search_field option \<Rightarrow> keyspace_table
     \<Rightarrow> (string, proto_keyspace_info option) outcome \<times> keyspace_table" where
  "universe_get_keyspace_info into_typed parse_str to_str exec field t =
     (case field of
        None \<Rightarrow> (Panic, t)
      | Some f \<Rightarrow>
          (let (r, t') = storage_get_keyspace_info into_typed parse_str to_str exec (search_field_from_proto f) t
           in (map_err (\<lambda>e. ''Failed to get keyspace info: '' @ universe_error_text e) (and_then r (\<lambda>k. Ok (Some k))), t')))"

text \<open>
  What a row keeps of a request. The name of a cloud is all that is stored, so another cloud that is called
  like a public one is read back as that public cloud.
\<close>

fun stored_cloud :: "proto_cloud \<Rightarrow> proto_cloud" where
  "stored_cloud (PublicCloud c) = PublicCloud c"
| "stored_cloud (OtherCloud n) = proto_cloud_of n"

definition stored_zone :: "proto_zone \<Rightarrow> proto_zone" where
  "stored_zone z = z\<lparr>pz_region := map_option (\<lambda>r. r\<lparr>pr_cloud := map_option stored_cloud (pr_cloud r)\<rparr>) (pz_region z)\<rparr>"

definition zone_cloud :: "proto_zone \<Rightarrow> proto_cloud option" where
  "zone_cloud z = Option.bind (pz_region z) pr_cloud"

definition stored_info ::
  "(uuid \<Rightarrow> string) \<Rightarrow> (nat \<Rightarrow> uuid) \<Rightarrow> uuid \<Rightarrow> create_keyspace_request \<Rightarrow> proto_keyspace_info" where
  "stored_info to_str ids kid req =
     \<lparr>pki_keyspace_id = to_str kid, pki_namespace = ck_namespace req, pki_name = ck_name req,
      pki_primary_zone = map_option stored_zone (ck_primary_zone req),
      pki_base_key_ranges = request_ranges to_str ids (ck_base_key_ranges req)\<rparr>"

section \<open>Rows and messages\<close>

lemma stored_cloud_same: "stored_cloud c = c \<longleftrightarrow> c \<notin> OtherCloud ` {''AWS'', ''AZURE'', ''GCP''}"
  by (cases c) (auto simp: proto_cloud_of_def)

lemma stored_zone_same: "stored_zone z = z \<longleftrightarrow> zone_cloud z \<notin> Some ` OtherCloud ` {''AWS'', ''AZURE'', ''GCP''}"
proof (cases "zone_cloud z")
  case None
  then show ?thesis by (cases z; cases "pz_region z") (auto simp: stored_zone_def zone_cloud_def)
next
  case (Some c)
  then obtain r where "pz_region z = Some r" "pr_cloud r = Some c"
    by (cases "pz_region z") (auto simp: zone_cloud_def)
  then have "stored_zone z = z \<longleftrightarrow> stored_cloud c = c" by (cases z; cases r) (simp add: stored_zone_def)
  then show ?thesis using Some by (simp add: stored_cloud_same image_image)
qed

lemma serialize_region_read_back:
  assumes "serialize_region r = Ok s"
  shows "\<lparr>pr_cloud = map_option proto_cloud_of (sr_cloud s), pr_name = sr_name s\<rparr> =
    r\<lparr>pr_cloud := map_option stored_cloud (pr_cloud r)\<rparr>"
proof (cases "pr_cloud r")
  case None
  then show ?thesis using assms by (cases r) (auto simp: serialize_region_def)
next
  case (Some c)
  show ?thesis
  proof (cases c)
    case (PublicCloud w)
    obtain n where n: "cloud_str_name w = Some n" "s = \<lparr>sr_name = pr_name r, sr_cloud = Some n\<rparr>"
      using assms Some PublicCloud by (cases "cloud_str_name w") (auto simp: serialize_region_def)
    have "proto_cloud_of n = PublicCloud w"
      using n(1) by (auto simp: cloud_str_name_def proto_cloud_of_def split: if_splits)
    then show ?thesis using Some PublicCloud n(2) by (cases r) simp
  next
    case (OtherCloud n)
    then show ?thesis using Some assms by (cases r) (auto simp: serialize_region_def)
  qed
qed

lemma serialize_region_no_Err: "serialize_region r \<noteq> Err e"
  by (auto simp: serialize_region_def split: option.splits proto_cloud.splits)

lemma serialize_key_ranges_read_back:
  assumes "\<And>u. parse_str (to_str u) = Some u" "\<forall>r\<in>set rs. \<exists>u. base_range_uuid r = to_str u"
  shows "\<exists>ss. serialize_key_ranges parse_str rs = Ok ss \<and> map (read_key_range to_str) ss = rs"
  using assms(2)
proof (induction rs)
  case (Cons r rs)
  then obtain u ss where "base_range_uuid r = to_str u" "serialize_key_ranges parse_str rs = Ok ss"
    "map (read_key_range to_str) ss = rs" by auto
  moreover from this(1) obtain k where "serialize_key_range parse_str r = Ok k" "read_key_range to_str k = r"
    using assms(1) by (simp add: serialize_key_range_def read_key_range_def)
  ultimately show ?case by simp
qed simp

lemma request_ranges_printed: "r \<in> set (request_ranges to_str ids reqs) \<Longrightarrow> \<exists>u. base_range_uuid r = to_str u"
  by (auto simp: request_ranges_def Let_def split: if_splits)

lemma request_ranges_not_Nil: "request_ranges to_str ids reqs \<noteq> []"
  by (simp add: request_ranges_def Let_def)

text \<open>The row written for a request has its key, and reads back as \<^const>\<open>stored_info\<close>; an unknown public cloud is a panic.\<close>

lemma construct_from_request:
  assumes rt: "\<And>u. parse_str (to_str u) = Some u" and z: "ck_primary_zone req = Some z"
    and written: "written = construct_from_parts parse_str kid (ck_name req) (ck_namespace req) z
       (request_ranges to_str ids (ck_base_key_ranges req))"
  obtains (panic) "written = Panic"
  | (row) s where "written = Ok s" "row_key s = (ck_namespace req, ck_name req)" "si_keyspace_id s = kid"
      "si_base_key_ranges s \<noteq> []" "into_keyspace_info to_str s = stored_info to_str ids kid req"
proof -
  let ?rs = "request_ranges to_str ids (ck_base_key_ranges req)"
  obtain ss where ss: "serialize_key_ranges parse_str ?rs = Ok ss" "map (read_key_range to_str) ss = ?rs"
    using serialize_key_ranges_read_back [OF rt] request_ranges_printed by blast
  have ne: "ss \<noteq> []" using ss(2) request_ranges_not_Nil [of to_str ids "ck_base_key_ranges req"] by auto
  let ?s = "\<lambda>rg. \<lparr>si_keyspace_id = kid, si_name = ck_name req, si_namespace = ck_namespace req,
      si_primary_zone = \<lparr>sz_region = rg, sz_name = pz_name z\<rparr>, si_base_key_ranges = ss\<rparr>"
  show thesis
  proof (cases "pz_region z")
    case None
    then have "stored_zone z = \<lparr>pz_region = None, pz_name = pz_name z\<rparr>" by (simp add: stored_zone_def)
    then show thesis
      by (intro row [of "?s None"])
        (use ss ne z None in \<open>simp_all add: written construct_from_parts_def row_key_def into_keyspace_info_def
           stored_info_def\<close>)
  next
    case (Some r)
    show thesis
    proof (cases "serialize_region r")
      case (Ok s)
      have "stored_zone z = \<lparr>pz_region = Some (r\<lparr>pr_cloud := map_option stored_cloud (pr_cloud r)\<rparr>), pz_name = pz_name z\<rparr>"
        using Some by (simp add: stored_zone_def)
      then show thesis
        by (intro row [of "?s (Some s)"])
          (use ss ne z Some Ok serialize_region_read_back [OF Ok] in \<open>simp_all add: written construct_from_parts_def row_key_def
             into_keyspace_info_def stored_info_def\<close>)
    next
      case (Err e)
      then show thesis using serialize_region_no_Err by blast
    next
      case Panic
      then show thesis by (intro panic) (simp add: written construct_from_parts_def Some)
    qed
  qed
qed

section \<open>The table\<close>

lemma filter_insort_only: "P x \<Longrightarrow> \<forall>y\<in>set ys. \<not> P y \<Longrightarrow> filter P (insort_key f x ys) = [x]"
  by (induction ys) auto

lemma storage_create_keyspace_row:
  assumes "parse_str kid = Some i" "construct_from_parts parse_str i name namespace zone ranges = Ok s"
    and "executes (universe_sem place) exec"
  shows "case storage_create_keyspace parse_str exec kid name namespace zone ranges t of (r, t') \<Rightarrow>
     (t' = t \<or> row_key s \<notin> set (map row_key t) \<and> t' = insort_key (place \<circ> row_key) s t) \<and>
     (r = Ok j \<longrightarrow> j = kid \<and> row_key s \<notin> set (map row_key t) \<and> t' = insort_key (place \<circ> row_key) s t)"
  using executes_at [OF assms(3), where i = 0 and s = "CREATE_KEYSPACE_QUERY s" and db = t] assms(1,2)
  by (auto simp: storage_create_keyspace_def split: prod.splits outcome.splits universe_rows.splits
      option.splits if_splits)

lemma universe_create_keyspace_row:
  assumes "\<And>u. parse_str (to_str u) = Some u" "ck_primary_zone req = Some z"
    and "construct_from_parts parse_str kid (ck_name req) (ck_namespace req) z
           (request_ranges to_str ids (ck_base_key_ranges req)) = Ok s"
    and "executes (universe_sem place) exec"
    and "universe_create_keyspace parse_str to_str exec ids kid req t = (r, t')"
  shows "t' = t \<or> row_key s \<notin> set (map row_key t) \<and> t' = insort_key (place \<circ> row_key) s t"
    and "r = Ok j \<Longrightarrow> j = to_str kid \<and> row_key s \<notin> set (map row_key t) \<and> t' = insort_key (place \<circ> row_key) s t"
  using storage_create_keyspace_row [OF assms(1,3,4), where t = t and j = j] assms(2,5)
  by (auto simp: universe_create_keyspace_def split: prod.splits)

text \<open>A name that is taken is refused, whatever the session does.\<close>

lemma create_taken:
  assumes rt: "\<And>u. parse_str (to_str u) = Some u" and ex: "executes (universe_sem place) exec"
    and "(ck_namespace req, ck_name req) \<in> set (map row_key t)"
  shows "\<exists>r. universe_create_keyspace parse_str to_str exec ids kid req t = (r, t) \<and> (\<forall>i. r \<noteq> Ok i)"
proof (cases "ck_primary_zone req")
  case None
  then show ?thesis by (simp add: universe_create_keyspace_def)
next
  case (Some z)
  show ?thesis
  proof (rule construct_from_request [OF rt Some refl, of kid ids])
    fix s assume s: "construct_from_parts parse_str kid (ck_name req) (ck_namespace req) z
         (request_ranges to_str ids (ck_base_key_ranges req)) = Ok s" "row_key s = (ck_namespace req, ck_name req)"
    then have sem: "universe_sem place (CREATE_KEYSPACE_QUERY s) t = (KsApplied (Some False), t)" using assms(3) by simp
    have "exec 0 (CREATE_KEYSPACE_QUERY s) t = (Ok (KsApplied (Some False)), t) \<or>
        (\<exists>e. exec 0 (CREATE_KEYSPACE_QUERY s) t = (Err e, t))"
      using executes_at [OF ex, where i = 0 and s = "CREATE_KEYSPACE_QUERY s" and db = t]
      unfolding sem by (auto split: prod.splits outcome.splits)
    then show ?thesis using s(1) Some rt
      by (auto simp: universe_create_keyspace_def storage_create_keyspace_def)
  qed (use Some rt in \<open>simp add: universe_create_keyspace_def storage_create_keyspace_def\<close>)
qed

lemma get_by_name:
  "universe_get_keyspace_info into_typed parse_str to_str (reliable (universe_sem place)) (Some (ProtoKeyspace ns n)) t =
     (case filter (\<lambda>s. row_key s = (ns, n)) t of
        [] \<Rightarrow> Err (''Failed to get keyspace info: Keyspace does not exist'')
      | s # _ \<Rightarrow> and_then (unwrap (into_typed s)) (\<lambda>s. Ok (Some (into_keyspace_info to_str s))), t)"
  by (cases "filter (\<lambda>s. row_key s = (ns, n)) t"; cases "into_typed (hd (filter (\<lambda>s. row_key s = (ns, n)) t))")
    (simp_all add: universe_get_keyspace_info_def storage_get_keyspace_info_def reliable_def rows_of_def)

lemma get_by_id:
  assumes "parse_str i = Some u"
  shows "universe_get_keyspace_info into_typed parse_str to_str (reliable (universe_sem place)) (Some (ProtoKeyspaceId i)) t =
     (case filter (\<lambda>s. si_keyspace_id s = u) t of
        [] \<Rightarrow> Err (''Failed to get keyspace info: Keyspace does not exist'')
      | s # _ \<Rightarrow> and_then (unwrap (into_typed s)) (\<lambda>s. Ok (Some (into_keyspace_info to_str s))), t)"
  using assms
  by (cases "filter (\<lambda>s. si_keyspace_id s = u) t"; cases "into_typed (hd (filter (\<lambda>s. si_keyspace_id s = u) t))")
    (simp_all add: universe_get_keyspace_info_def storage_get_keyspace_info_def reliable_def rows_of_def)

lemma get_by_bad_id:
  "parse_str i = None \<Longrightarrow> universe_get_keyspace_info into_typed parse_str to_str exec (Some (ProtoKeyspaceId i)) t = (Panic, t)"
  by (simp add: universe_get_keyspace_info_def storage_get_keyspace_info_def)

text \<open>
  C24: A keyspace that was created is found. When the service answers a request to create a keyspace with
  success, the name was free and the answer is the id drawn. A lookup by namespace and name then returns the
  information that was stored, and so does a lookup by the id if no row had that id: its names and ranges
  are those requested, and its zone is the requested one, except that another cloud that is called AWS, AZURE or GCP is
  read back as the public cloud of that name. Lookups of other names and of other ids answer as before,
  and every further request to create the same name, with any session, is refused and changes nothing.
\<close>

theorem keyspace_create_get:
  assumes rt: "\<And>u. parse_str (to_str u) = Some u" and dec: "decodes_written_rows into_typed"
    and ex: "executes (universe_sem place) exec"
    and create: "universe_create_keyspace parse_str to_str exec ids kid req t = (Ok i, t')"
  defines "get \<equiv> universe_get_keyspace_info into_typed parse_str to_str (reliable (universe_sem place))"
  shows "i = to_str kid
    \<and> (ck_namespace req, ck_name req) \<notin> set (map row_key t)
    \<and> get (Some (ProtoKeyspace (ck_namespace req) (ck_name req))) t' = (Ok (Some (stored_info to_str ids kid req)), t')
    \<and> (kid \<notin> set (map si_keyspace_id t) \<longrightarrow>
         get (Some (ProtoKeyspaceId i)) t' = (Ok (Some (stored_info to_str ids kid req)), t'))
    \<and> (\<exists>z. ck_primary_zone req = Some z \<and> (pki_primary_zone (stored_info to_str ids kid req) = Some z \<longleftrightarrow>
         zone_cloud z \<notin> Some ` OtherCloud ` {''AWS'', ''AZURE'', ''GCP''}))
    \<and> (\<forall>ns n. (ns, n) \<noteq> (ck_namespace req, ck_name req) \<longrightarrow>
         fst (get (Some (ProtoKeyspace ns n)) t') = fst (get (Some (ProtoKeyspace ns n)) t))
    \<and> (\<forall>j. parse_str j \<noteq> Some kid \<longrightarrow> fst (get (Some (ProtoKeyspaceId j)) t') = fst (get (Some (ProtoKeyspaceId j)) t))
    \<and> (\<forall>exec2 ids2 kid2 req2. executes (universe_sem place) exec2 \<longrightarrow>
         ck_namespace req2 = ck_namespace req \<longrightarrow> ck_name req2 = ck_name req \<longrightarrow>
         (\<exists>r2. universe_create_keyspace parse_str to_str exec2 ids2 kid2 req2 t' = (r2, t') \<and> (\<forall>j. r2 \<noteq> Ok j)))"
proof -
  obtain z where z: "ck_primary_zone req = Some z"
    using create by (cases "ck_primary_zone req") (simp_all add: universe_create_keyspace_def)
  obtain s where s: "construct_from_parts parse_str kid (ck_name req) (ck_namespace req) z
       (request_ranges to_str ids (ck_base_key_ranges req)) = Ok s"
    "row_key s = (ck_namespace req, ck_name req)" "si_keyspace_id s = kid" "si_base_key_ranges s \<noteq> []"
    "into_keyspace_info to_str s = stored_info to_str ids kid req"
    by (rule construct_from_request [OF rt z refl, of kid ids])
      (use create z rt in \<open>auto simp: universe_create_keyspace_def storage_create_keyspace_def\<close>)
  note row = universe_create_keyspace_row(2) [OF rt z s(1) ex create refl]
  have typed: "into_typed s = Ok s" using dec s(4) by (simp add: decodes_written_rows_def)
  have free: "(ck_namespace req, ck_name req) \<notin> set (map row_key t)" using row s(2) by simp
  have t': "t' = insort_key (place \<circ> row_key) s t" using row by simp
  have name: "filter (\<lambda>x. row_key x = (ck_namespace req, ck_name req)) t' = [s]"
    unfolding t' by (rule filter_insort_only) (use s(2) free in force)+
  have ident: "filter (\<lambda>x. si_keyspace_id x = kid) t' = [s]" if "kid \<notin> set (map si_keyspace_id t)"
    unfolding t' by (rule filter_insort_only) (use s(3) that in \<open>auto simp: image_iff\<close>)
  have other: "filter (\<lambda>x. row_key x = (ns, n)) t' = filter (\<lambda>x. row_key x = (ns, n)) t"
    if "(ns, n) \<noteq> (ck_namespace req, ck_name req)" for ns n
    unfolding t' by (rule filter_insort_triv) (use s(2) that in auto)
  have other_id: "filter (\<lambda>x. si_keyspace_id x = u) t' = filter (\<lambda>x. si_keyspace_id x = u) t" if "u \<noteq> kid" for u
    unfolding t' by (rule filter_insort_triv) (use s(3) that in auto)
  have i: "i = to_str kid" using row by simp
  show ?thesis
  proof (intro conjI allI impI)
    show "i = to_str kid" by (rule i)
    show "(ck_namespace req, ck_name req) \<notin> set (map row_key t)" by (rule free)
    show "get (Some (ProtoKeyspace (ck_namespace req) (ck_name req))) t' = (Ok (Some (stored_info to_str ids kid req)), t')"
      by (simp add: get_def get_by_name name typed s(5))
    show "get (Some (ProtoKeyspaceId i)) t' = (Ok (Some (stored_info to_str ids kid req)), t')"
      if "kid \<notin> set (map si_keyspace_id t)"
      by (simp add: i get_def get_by_id [of parse_str, OF rt [of kid]] ident [OF that] typed s(5))
    show "\<exists>z. ck_primary_zone req = Some z \<and> (pki_primary_zone (stored_info to_str ids kid req) = Some z \<longleftrightarrow>
         zone_cloud z \<notin> Some ` OtherCloud ` {''AWS'', ''AZURE'', ''GCP''})"
      unfolding stored_zone_same [symmetric] by (simp add: stored_info_def z)
    show "fst (get (Some (ProtoKeyspace ns n)) t') = fst (get (Some (ProtoKeyspace ns n)) t)"
      if "(ns, n) \<noteq> (ck_namespace req, ck_name req)" for ns n
      by (simp add: get_def get_by_name other [OF that])
    show "fst (get (Some (ProtoKeyspaceId j)) t') = fst (get (Some (ProtoKeyspaceId j)) t)" if "parse_str j \<noteq> Some kid" for j
      using that other_id by (cases "parse_str j") (auto simp: get_def get_by_bad_id get_by_id)
    show "\<exists>r2. universe_create_keyspace parse_str to_str exec2 ids2 kid2 req2 t' = (r2, t') \<and> (\<forall>j. r2 \<noteq> Ok j)"
      if "executes (universe_sem place) exec2" "ck_namespace req2 = ck_namespace req" "ck_name req2 = ck_name req"
      for exec2 ids2 kid2 req2
      by (rule create_taken [OF rt that(1)]) (use that t' s(2) in \<open>simp add: set_insort_key\<close>)
  qed
qed

text \<open>An example: uuids written as decimal numerals, and a first keyspace with the default range.\<close>

definition ex_parse_uuid :: "string \<Rightarrow> uuid option" where
  "ex_parse_uuid s = (case parse_unsigned (2 ^ LENGTH(128)) s of Ok n \<Rightarrow> Some (of_nat n) | _ \<Rightarrow> None)"

definition ex_print_uuid :: "uuid \<Rightarrow> string" where
  "ex_print_uuid u = show_nat (unat u)"

lemma ex_uuid_text: "ex_parse_uuid (ex_print_uuid u) = Some u"
  using parse_unsigned_show_nat [OF unsigned_less [of u]] by (simp only: ex_parse_uuid_def ex_print_uuid_def) simp

definition ex_keyspace_request :: create_keyspace_request where
  "ex_keyspace_request = \<lparr>ck_namespace = ''ns'', ck_name = ''ks'',
     ck_primary_zone = Some \<lparr>pz_region = Some \<lparr>pr_cloud = Some (PublicCloud 1), pr_name = ''east''\<rparr>, pz_name = ''a''\<rparr>,
     ck_base_key_ranges = []\<rparr>"

lemma ex_keyspace_created:
  "\<exists>t'. universe_create_keyspace ex_parse_uuid ex_print_uuid (reliable (universe_sem (\<lambda>_. 0))) (\<lambda>_. 7) 9
     ex_keyspace_request [] = (Ok (ex_print_uuid 9), t')"
  by (simp add: universe_create_keyspace_def ex_keyspace_request_def storage_create_keyspace_def ex_uuid_text
      construct_from_parts_def serialize_region_def cloud_str_name_def request_ranges_def serialize_key_range_def
      reliable_def)

theorem keyspace_create_get_witness:
  "\<exists>t'. universe_create_keyspace ex_parse_uuid ex_print_uuid (reliable (universe_sem (\<lambda>_. 0))) (\<lambda>_. 7) 9
      ex_keyspace_request [] = (Ok (ex_print_uuid 9), t')
    \<and> universe_get_keyspace_info Ok ex_parse_uuid ex_print_uuid (reliable (universe_sem (\<lambda>_. 0)))
        (Some (ProtoKeyspace ''ns'' ''ks'')) t'
      = (Ok (Some (stored_info ex_print_uuid (\<lambda>_. 7) 9 ex_keyspace_request)), t')"
proof -
  obtain t' where c: "universe_create_keyspace ex_parse_uuid ex_print_uuid (reliable (universe_sem (\<lambda>_. 0))) (\<lambda>_. 7) 9
     ex_keyspace_request [] = (Ok (ex_print_uuid 9), t')"
    using ex_keyspace_created by blast
  have z: "ck_namespace ex_keyspace_request = ''ns''" "ck_name ex_keyspace_request = ''ks''"
    by (simp_all add: ex_keyspace_request_def)
  have d: "decodes_written_rows Ok" by (simp add: decodes_written_rows_def)
  show ?thesis
    using keyspace_create_get [OF ex_uuid_text d executes_reliable c] c z by auto
qed

end
