(* ===== verification/Warden.thy ===== *)
theory Warden
  imports Universe Warden_Handler RS_Storage "HOL-Library.Char_ord" "HOL-Library.Product_Lexorder" "HOL-Library.Multiset"
begin

text \<open>
  The warden, which assigns the base ranges of the keyspaces of its region to the registered range servers:
  its tables (warden/src/persistence.rs, warden/src/persistence/cassandra.rs), the
  computation of assignments (warden/src/assignment\_computation.rs) and the service with its stream of updates
  (warden/src/server.rs). Hash sets and maps are lists in some order; where the source iterates over one, the order
  is an argument (\<open>iteration\<close>). Only the loop of the computation writes the ranges, the
  assignments and the version, and it reads the registered servers once, at the start of a
  round: a round is one step.
\<close>

section \<open>Definitions\<close>

subsection \<open>Persistence\<close>

record base_range =
  br_keyspace_id :: keyspace_id
  br_id :: uuid
  br_key_range :: key_range

record range_assignment =
  ra_range :: base_range
  ra_assignee :: string

datatype warden_persistence_error = WardenInternalError query_error

record serialized_range_assignment =
  sa_keyspace_id :: uuid
  sa_range_id :: uuid
  sa_key_lower_bound_inclusive :: "bytes option"
  sa_key_upper_bound_exclusive :: "bytes option"
  sa_assignee :: string

record warden_db =
  wd_storage :: storage_db
  wd_range_map :: "uuid \<times> uuid \<rightharpoonup> serialized_range_assignment"

datatype warden_stmt =
    INSERT_INTO_RANGE_LEASE_QUERY uuid "bytes option" "bytes option" i64 "i64 \<times> i64" "i64 \<times> i64"
  | PREPARE_RANGE_ASSIGNMENT
  | INSERT_OR_UPDATE_RANGE_ASSIGNMENT_QUERY serialized_range_assignment

fun warden_sem :: "warden_stmt \<Rightarrow> warden_db \<Rightarrow> unit \<times> warden_db" where
  "warden_sem (INSERT_INTO_RANGE_LEASE_QUERY i lower upper leader lease snapshot) db =
     (case db_range_leases (wd_storage db) i of
        Some _ \<Rightarrow> ((), db)
      | None \<Rightarrow> ((), db\<lparr>wd_storage := (wd_storage db)\<lparr>db_range_leases := (db_range_leases (wd_storage db))
          (i \<mapsto> \<lparr>cl_range_id = i, cl_epoch_lease = lease, cl_key_lower_bound_inclusive = lower,
                cl_key_upper_bound_exclusive = upper, cl_leader_sequence_number = leader,
                cl_safe_snapshot_epochs = snapshot\<rparr>)\<rparr>\<rparr>))"
| "warden_sem PREPARE_RANGE_ASSIGNMENT db = ((), db)"
| "warden_sem (INSERT_OR_UPDATE_RANGE_ASSIGNMENT_QUERY a) db =
     ((), db\<lparr>wd_range_map := (wd_range_map db)((sa_keyspace_id a, sa_range_id a) \<mapsto> a)\<rparr>)"

type_synonym warden_session = "(warden_stmt, warden_db, unit) session"

definition serialize_assignment :: "range_assignment \<Rightarrow> serialized_range_assignment" where
  "serialize_assignment a =
     \<lparr>sa_keyspace_id = ksid_id (br_keyspace_id (ra_range a)), sa_range_id = br_id (ra_range a),
      sa_key_lower_bound_inclusive = lower_bound_inclusive (br_key_range (ra_range a)),
      sa_key_upper_bound_exclusive = upper_bound_exclusive (br_key_range (ra_range a)), sa_assignee = ra_assignee a\<rparr>"

fun write_assignments ::
  "warden_session \<Rightarrow> nat \<Rightarrow> range_assignment list \<Rightarrow> warden_db \<Rightarrow> (warden_persistence_error, unit) outcome \<times> warden_db" where
  "write_assignments exec n [] db = (Ok (), db)"
| "write_assignments exec n (a # as) db =
     (case exec n (INSERT_OR_UPDATE_RANGE_ASSIGNMENT_QUERY (serialize_assignment a)) db of
        (Ok _, db') \<Rightarrow> write_assignments exec (Suc n) as db'
      | (Err qe, db') \<Rightarrow> (Err (WardenInternalError qe), db')
      | (Panic, db') \<Rightarrow> (Panic, db'))"

definition update_range_assignments ::
  "warden_session \<Rightarrow> i64 \<Rightarrow> range_assignment list \<Rightarrow> warden_db \<Rightarrow> (warden_persistence_error, unit) outcome \<times> warden_db" where
  "update_range_assignments exec version assignments db =
     (case exec 0 PREPARE_RANGE_ASSIGNMENT db of
        (Ok _, db') \<Rightarrow> write_assignments exec 1 assignments db'
      | (Err qe, db') \<Rightarrow> (Err (WardenInternalError qe), db')
      | (Panic, db') \<Rightarrow> (Panic, db'))"

definition insert_range_stmt :: "base_range \<Rightarrow> warden_stmt" where
  "insert_range_stmt r = INSERT_INTO_RANGE_LEASE_QUERY (br_id r) (lower_bound_inclusive (br_key_range r))
     (upper_bound_exclusive (br_key_range r)) 0 (0, 0) (0, 0)"

fun insert_new_ranges ::
  "warden_session \<Rightarrow> nat \<Rightarrow> base_range list \<Rightarrow> warden_db \<Rightarrow> (warden_persistence_error, unit) outcome \<times> warden_db" where
  "insert_new_ranges exec n [] db = (Ok (), db)"
| "insert_new_ranges exec n (r # rs) db =
     (case exec n (insert_range_stmt r) db of
        (Ok _, db') \<Rightarrow> insert_new_ranges exec (Suc n) rs db'
      | (Err qe, db') \<Rightarrow> (Err (WardenInternalError qe), db')
      | (Panic, db') \<Rightarrow> (Panic, db'))"

subsection \<open>State of the computation\<close>

definition MIN_NUM_RANGE_SERVERS :: nat where
  "MIN_NUM_RANGE_SERVERS = 1"

definition MAX_VERSIONS_TO_KEEP :: nat where
  "MAX_VERSIONS_TO_KEEP = 5"

text \<open>Servers are compared by identity.\<close>

definition same_server :: "host_info \<Rightarrow> host_info \<Rightarrow> bool" where
  "same_server a b \<longleftrightarrow> identity a = identity b"

definition server_difference :: "host_info list \<Rightarrow> host_info list \<Rightarrow> host_info list" where
  "server_difference as bs = filter (\<lambda>a. \<not> list_ex (same_server a) bs) as"

record warden =
  wa_base_ranges :: "base_range list"
  wa_region :: region
  wa_range_assignments :: "(i64 \<times> range_assignment list) list"
  wa_current_version :: i64
  wa_ready_range_servers :: "host_info list"
  wa_unassigned_base_ranges :: "base_range list"

definition warden_new :: "i64 \<Rightarrow> region \<Rightarrow> warden" where
  "warden_new millis reg =
     \<lparr>wa_base_ranges = [], wa_region = reg, wa_range_assignments = [], wa_current_version = millis,
      wa_ready_range_servers = [], wa_unassigned_base_ranges = []\<rparr>"

subsection \<open>Reading the base ranges\<close>

datatype read_ranges_error =
    UniverseFailed string | InvalidUuid string | BaseRangeNotReported base_range | InsertFailed warden_persistence_error

definition bound_of :: "bytes \<Rightarrow> bytes option" where
  "bound_of b = (if b = [] then None else Some b)"

definition base_range_of ::
  "(string \<Rightarrow> uuid option) \<Rightarrow> string \<Rightarrow> proto_key_range \<Rightarrow> (read_ranges_error, base_range) outcome" where
  "base_range_of parse_str ks r =
     (case parse_str ks of
        None \<Rightarrow> Err (InvalidUuid ks)
      | Some k \<Rightarrow> (case parse_str (base_range_uuid r) of
          None \<Rightarrow> Err (InvalidUuid (base_range_uuid r))
        | Some i \<Rightarrow> Ok \<lparr>br_keyspace_id = \<lparr>ksid_id = k\<rparr>, br_id = i,
            br_key_range = \<lparr>lower_bound_inclusive = bound_of (pkr_lower_bound_inclusive r),
                            upper_bound_exclusive = bound_of (pkr_upper_bound_exclusive r)\<rparr>\<rparr>))"

fun reported_ranges ::
  "(string \<Rightarrow> uuid option) \<Rightarrow> (string \<times> proto_key_range) list \<Rightarrow> (read_ranges_error, base_range list) outcome" where
  "reported_ranges parse_str [] = Ok []"
| "reported_ranges parse_str ((ks, r) # rs) =
     and_then (base_range_of parse_str ks r) (\<lambda>b. and_then (reported_ranges parse_str rs) (\<lambda>bs. Ok (b # bs)))"

definition keyspace_ranges :: "proto_keyspace_info list \<Rightarrow> (string \<times> proto_key_range) list" where
  "keyspace_ranges ks = concat (map (\<lambda>k. map (Pair (pki_keyspace_id k)) (pki_base_key_ranges k)) ks)"

text \<open>The comparison of the ranges known with those reported: the ranges to add.\<close>

definition new_base_ranges :: "base_range list \<Rightarrow> base_range list \<Rightarrow> (read_ranges_error, base_range list) outcome" where
  "new_base_ranges known reported =
     (case find (\<lambda>r. br_id r \<notin> br_id ` set reported) known of
        Some r \<Rightarrow> Err (BaseRangeNotReported r)
      | None \<Rightarrow> Ok (filter (\<lambda>r. br_id r \<notin> br_id ` set known) reported))"

text \<open>\<open>universe\<close> is the call of the universe manager, with the region asked for.\<close>

definition read_base_ranges ::
  "(string \<Rightarrow> uuid option) \<Rightarrow> (proto_region option \<Rightarrow> (string, proto_keyspace_info list) outcome) \<Rightarrow> warden_session
     \<Rightarrow> warden \<Rightarrow> warden_db \<Rightarrow> (read_ranges_error, unit) outcome \<times> warden \<times> warden_db" where
  "read_base_ranges parse_str universe exec w db =
     (case and_then (map_err UniverseFailed (universe (Some (region_to_proto (wa_region w)))))
             (\<lambda>ks. and_then (reported_ranges parse_str (keyspace_ranges ks)) (new_base_ranges (wa_base_ranges w))) of
        Err e \<Rightarrow> (Err e, w, db)
      | Panic \<Rightarrow> (Panic, w, db)
      | Ok new \<Rightarrow>
          (case insert_new_ranges exec 0 new db of
             (Ok _, db') \<Rightarrow> (Ok (), w\<lparr>wa_base_ranges := wa_base_ranges w @ new,
                                   wa_unassigned_base_ranges := wa_unassigned_base_ranges w @ new\<rparr>, db')
           | (Err e, db') \<Rightarrow> (Err (InsertFailed e), w, db')
           | (Panic, db') \<Rightarrow> (Panic, w, db')))"

subsection \<open>The computation\<close>

text \<open>A map from servers to their ranges, as the list of its entries.\<close>

type_synonym assignee_map = "(string \<times> base_range list) list"

fun push_range :: "string \<Rightarrow> base_range \<Rightarrow> assignee_map \<Rightarrow> assignee_map" where
  "push_range s r [] = [(s, [r])]"
| "push_range s r ((s', rs) # m) = (if s = s' then (s', rs @ [r]) # m else (s', rs) # push_range s r m)"

definition assignee_to_range_info :: "range_assignment list \<Rightarrow> assignee_map" where
  "assignee_to_range_info as = fold (\<lambda>a. push_range (ra_assignee a) (ra_range a)) as []"

fun remove_servers :: "host_info list \<Rightarrow> assignee_map \<Rightarrow> base_range list \<times> assignee_map" where
  "remove_servers [] m = ([], m)"
| "remove_servers (h # hs) m =
     (let n = hid_name (identity h);
          (rs, m') = remove_servers hs (filter (\<lambda>(s, _). s \<noteq> n) m)
      in (case map_of m n of None \<Rightarrow> rs | Some ranges \<Rightarrow> ranges @ rs, m'))"

text \<open>The binary heap, whose least element is popped: the sorted list of its elements.\<close>

type_synonym server_heap = "(nat \<times> string) list"

definition heap_of :: "assignee_map \<Rightarrow> host_info list \<Rightarrow> host_info list \<Rightarrow> server_heap" where
  "heap_of m added ready =
     (let entries = map (\<lambda>(s, rs). (length rs, s)) m @ map (\<lambda>h. (0, hid_name (identity h))) added
      in sort (if entries = [] then map (\<lambda>h. (0, hid_name (identity h))) ready else entries))"

text \<open>The loop over the ranges to assign; \<^term>\<open>None\<close> is a pop from an empty heap, which is unwrapped.\<close>

fun assign_ranges ::
  "base_range list \<Rightarrow> server_heap \<Rightarrow> assignee_map \<Rightarrow> (range_assignment list \<times> server_heap \<times> assignee_map) option" where
  "assign_ranges [] heap m = Some ([], heap, m)"
| "assign_ranges (r # rs) [] m = None"
| "assign_ranges (r # rs) ((n, s) # heap) m =
     (case assign_ranges rs (insort (n + 1, s) heap) (push_range s r m) of
        None \<Rightarrow> None
      | Some (as, heap', m') \<Rightarrow> Some (\<lparr>ra_range = r, ra_assignee = s\<rparr> # as, heap', m'))"

definition flatten_assignments :: "assignee_map \<Rightarrow> range_assignment list" where
  "flatten_assignments m = concat (map (\<lambda>(s, rs). map (\<lambda>r. \<lparr>ra_range = r, ra_assignee = s\<rparr>) rs) m)"

text \<open>The cache of versions: the oldest one is dropped when there are too many.\<close>

definition oldest_version :: "(i64 \<times> 'a) list \<Rightarrow> i64" where
  "oldest_version m = fold (\<lambda>v u. if v <s u then v else u) (map fst m) (fst (hd m))"

definition make_room :: "(i64 \<times> 'a) list \<Rightarrow> (i64 \<times> 'a) list" where
  "make_room m = (if length m > MAX_VERSIONS_TO_KEEP then filter (\<lambda>(v, _). v \<noteq> oldest_version m) m else m)"

record iteration =
  it_servers :: "host_info list \<Rightarrow> host_info list"
  it_assignees :: "assignee_map \<Rightarrow> assignee_map"

text \<open>
  The result of a round: the servers that were ready and the version broadcast, if any. The
  sum of the version wraps, as in a release build.
\<close>

definition run_assignment_computation ::
  "iteration \<Rightarrow> warden_session \<Rightarrow> host_info list \<Rightarrow> warden \<Rightarrow> warden_db
     \<Rightarrow> (unit, host_info list \<times> i64 option) outcome \<times> warden \<times> warden_db" where
  "run_assignment_computation it exec prev w db =
     (let ready = wa_ready_range_servers w;
          added = server_difference ready prev;
          removed = it_servers it (server_difference prev ready);
          unassigned = wa_unassigned_base_ranges w
      in if length ready < MIN_NUM_RANGE_SERVERS then (Ok (ready, None), w, db)
         else if added = [] \<and> removed = [] \<and> unassigned = [] then (Ok (ready, None), w, db)
         else case (if wa_range_assignments w = [] then Some []
                    else map_of (wa_range_assignments w) (wa_current_version w)) of
           None \<Rightarrow> (Panic, w, db)
         | Some current \<Rightarrow>
             (let m = assignee_to_range_info current;
                  heap = heap_of m added ready;
                  new_version = wa_current_version w + 1;
                  (orphans, m1) = remove_servers removed m
              in case assign_ranges (unassigned @ orphans) heap m1 of
                   None \<Rightarrow> (Panic, w, db)
                 | Some (updated, _, m2) \<Rightarrow>
                     (case update_range_assignments exec new_version updated db of
                        (Err e, db') \<Rightarrow> (Ok (ready, None), w, db')
                      | (Panic, db') \<Rightarrow> (Panic, w, db')
                      | (Ok _, db') \<Rightarrow>
                          (let assigned = set (map br_id (unassigned @ orphans));
                               w1 = w\<lparr>wa_unassigned_base_ranges := filter (\<lambda>r. br_id r \<notin> assigned) unassigned\<rparr>;
                               cache = make_room (wa_range_assignments w)
                           in if new_version \<in> set (map fst cache) then (Panic, w1\<lparr>wa_range_assignments := cache\<rparr>, db')
                              else (Ok (ready, Some new_version),
                                    w1\<lparr>wa_range_assignments := (new_version, flatten_assignments (it_assignees it m2)) # cache,
                                       wa_current_version := new_version\<rparr>, db')))))"

subsection \<open>Registration and updates\<close>

definition warden_register :: "host_info \<Rightarrow> warden \<Rightarrow> (string, unit) outcome \<times> warden" where
  "warden_register host w =
     (let rest = filter (\<lambda>h. \<not> same_server host h) (wa_ready_range_servers w);
          w' = w\<lparr>wa_ready_range_servers := host # rest\<rparr>
      in case find (same_server host) (wa_ready_range_servers w) of
           Some existing \<Rightarrow>
             (if warden_connection_epoch existing \<ge> warden_connection_epoch host
              then (Err ''Connection with a newer epoch already exists'', w) else (Ok (), w'))
         | None \<Rightarrow> (Ok (), w'))"

definition notify_range_server_unavailable :: "host_info \<Rightarrow> warden \<Rightarrow> warden" where
  "notify_range_server_unavailable host w =
     (case find (same_server host) (wa_ready_range_servers w) of
        Some existing \<Rightarrow>
          (if warden_connection_epoch existing \<le> warden_connection_epoch host
           then w\<lparr>wa_ready_range_servers := filter (\<lambda>h. \<not> same_server host h) (wa_ready_range_servers w)\<rparr> else w)
      | None \<Rightarrow> w)"

definition get_assignment_update ::
  "(uuid \<Rightarrow> string) \<Rightarrow> host_info \<Rightarrow> i64 \<Rightarrow> bool \<Rightarrow> warden \<Rightarrow> proto_warden_update option" where
  "get_assignment_update to_str host version full_update w =
     (case map_of (wa_range_assignments w) version of
        None \<Rightarrow> None
      | Some as \<Rightarrow> Some \<lparr>pwu_update = Some (FullAssignment (wa_current_version w)
          (map (\<lambda>a. \<lparr>prid_keyspace_id = to_str (ksid_id (br_keyspace_id (ra_range a))), prid_range_id = to_str (br_id (ra_range a))\<rparr>)
             (filter (\<lambda>a. ra_assignee a = hid_name (identity host)) as)))\<rparr>)"

subsection \<open>The service\<close>

record proto_host_info =
  phi_identity :: string
  phi_zone :: string
  phi_epoch :: u64

record assignment_update_stream =
  us_sent_full_update :: bool
  us_host_info :: host_info

definition host_of_request :: "proto_host_info \<Rightarrow> host_info" where
  "host_of_request p =
     \<lparr>identity = \<lparr>hid_name = phi_identity p, hid_zone = \<lparr>zone_region = \<lparr>reg_cloud = None, reg_name = ''''\<rparr>, zone_name = phi_zone p\<rparr>\<rparr>,
      address = \<lparr>hp_host = ''0.0.0.0'', hp_port = 0\<rparr>, warden_connection_epoch = phi_epoch p\<rparr>"

definition register_range_server ::
  "proto_host_info option \<Rightarrow> warden \<Rightarrow> (string, assignment_update_stream) outcome \<times> warden" where
  "register_range_server req w =
     (case req of
        None \<Rightarrow> (Err ''range_server field is not set in the request'', w)
      | Some p \<Rightarrow>
          (let (r, w') = warden_register (host_of_request p) w
           in (and_then r (\<lambda>_. Ok \<lparr>us_sent_full_update = False, us_host_info = host_of_request p\<rparr>), w')))"

text \<open>What the broadcast channel delivers when it is polled, and what the stream makes of it.\<close>

datatype polled = PollPending | PollEnd | PollVersion i64 | PollLagged u64

datatype stream_error = NoSuchVersion i64 | Lagged u64

datatype stream_poll = StreamPending | StreamEnd | StreamItem "(stream_error, proto_warden_update) outcome"

definition poll_next ::
  "(uuid \<Rightarrow> string) \<Rightarrow> polled \<Rightarrow> warden \<Rightarrow> assignment_update_stream \<Rightarrow> stream_poll \<times> assignment_update_stream" where
  "poll_next to_str p w st =
     (case p of
        PollPending \<Rightarrow> (StreamPending, st)
      | PollEnd \<Rightarrow> (StreamEnd, st)
      | PollLagged n \<Rightarrow> (StreamItem (Err (Lagged n)), st)
      | PollVersion v \<Rightarrow>
          (StreamItem (case get_assignment_update to_str (us_host_info st) v (\<not> us_sent_full_update st) w of
                         Some u \<Rightarrow> Ok u | None \<Rightarrow> Err (NoSuchVersion v)),
           st\<lparr>us_sent_full_update := True\<rparr>))"

definition stream_drop :: "assignment_update_stream \<Rightarrow> warden \<Rightarrow> warden" where
  "stream_drop st w = notify_range_server_unavailable (us_host_info st) w"

subsection \<open>The steps of the warden\<close>

text \<open>
  The state of the system: the warden, the servers that were ready in the last round, and the database. The universe
  manager reports ranges with distinct ids, and the version does not overflow.
\<close>

type_synonym warden_system = "warden \<times> host_info list \<times> warden_db"

definition wf_iteration :: "iteration \<Rightarrow> bool" where
  "wf_iteration it \<longleftrightarrow> (\<forall>hs. mset (it_servers it hs) = mset hs) \<and> (\<forall>m. mset (it_assignees it m) = mset m)"

definition distinct_reports ::
  "(string \<Rightarrow> uuid option) \<Rightarrow> (proto_region option \<Rightarrow> (string, proto_keyspace_info list) outcome) \<Rightarrow> bool" where
  "distinct_reports parse_str universe \<longleftrightarrow>
     (\<forall>reg ks rs. universe reg = Ok ks \<longrightarrow> reported_ranges parse_str (keyspace_ranges ks) = Ok rs \<longrightarrow> distinct (map br_id rs))"

inductive warden_init :: "warden_system \<Rightarrow> bool" where
  "warden_init (warden_new millis reg, [], db)"

inductive warden_step :: "(string \<Rightarrow> uuid option) \<Rightarrow> warden_system \<Rightarrow> warden_system \<Rightarrow> bool" for parse_str where
  ws_read: "distinct_reports parse_str universe \<Longrightarrow> read_base_ranges parse_str universe exec w db = (r, w', db')
     \<Longrightarrow> warden_step parse_str (w, prev, db) (w', prev, db')"
| ws_run: "wf_iteration it \<Longrightarrow> wa_current_version w \<noteq> 0x7FFFFFFFFFFFFFFF
     \<Longrightarrow> run_assignment_computation it exec prev w db = (Ok (prev', v), w', db')
     \<Longrightarrow> warden_step parse_str (w, prev, db) (w', prev', db')"
| ws_register: "register_range_server req w = (r, w') \<Longrightarrow> warden_step parse_str (w, prev, db) (w', prev, db)"
| ws_drop: "warden_step parse_str (w, prev, db) (stream_drop st w, prev, db)"

definition current_assignments :: "warden \<Rightarrow> range_assignment list" where
  "current_assignments w =
     (case map_of (wa_range_assignments w) (wa_current_version w) of None \<Rightarrow> [] | Some as \<Rightarrow> as)"

definition versions_ok :: "i64 \<Rightarrow> (i64 \<times> 'a) list \<Rightarrow> bool" where
  "versions_ok v m \<longleftrightarrow> distinct (map fst m) \<and> (\<forall>u \<in> set (map fst m). u \<le>s v) \<and> (m \<noteq> [] \<longrightarrow> v \<in> set (map fst m))
     \<and> length m \<le> MAX_VERSIONS_TO_KEEP + 1"

definition warden_inv :: "warden_system \<Rightarrow> bool" where
  "warden_inv = (\<lambda>(w, prev, db). distinct (map br_id (wa_base_ranges w)) \<and>
     mset (wa_unassigned_base_ranges w) + mset (map ra_range (current_assignments w)) = mset (wa_base_ranges w) \<and>
     versions_ok (wa_current_version w) (wa_range_assignments w))"

section \<open>Lemmas\<close>

subsection \<open>Maps from servers to ranges\<close>

fun ranges_in :: "assignee_map \<Rightarrow> base_range multiset" where
  "ranges_in [] = {#}"
| "ranges_in ((s, rs) # m) = mset rs + ranges_in m"

lemma ranges_in_push [simp]: "ranges_in (push_range s r m) = add_mset r (ranges_in m)"
  by (induction s r m rule: push_range.induct) auto

lemma keys_push: "fst ` set (push_range s r m) = insert s (fst ` set m)"
  by (induction s r m rule: push_range.induct) auto

lemma distinct_push [simp]: "distinct (map fst m) \<Longrightarrow> distinct (map fst (push_range s r m))"
  by (induction s r m rule: push_range.induct) (auto simp: keys_push)

lemma fold_push:
  "ranges_in (fold (\<lambda>a. push_range (ra_assignee a) (ra_range a)) as m) = mset (map ra_range as) + ranges_in m"
  "distinct (map fst m) \<Longrightarrow> distinct (map fst (fold (\<lambda>a. push_range (ra_assignee a) (ra_range a)) as m))"
  by (induction as arbitrary: m) auto

lemma assignee_to_range_info_ranges:
  "ranges_in (assignee_to_range_info as) = mset (map ra_range as)" "distinct (map fst (assignee_to_range_info as))"
  by (simp_all only: assignee_to_range_info_def fold_push) (simp_all add: fold_push(2))

lemma ranges_in_remove:
  "distinct (map fst m) \<Longrightarrow>
     ranges_in m = (case map_of m n of None \<Rightarrow> {#} | Some rs \<Rightarrow> mset rs) + ranges_in (filter (\<lambda>(s, _). s \<noteq> n) m)"
proof (induction m)
  case (Cons x m)
  obtain s rs where x: "x = (s, rs)" by (cases x)
  have "s = n \<Longrightarrow> map_of m n = None" using Cons.prems x by (simp add: map_of_eq_None_iff)
  moreover have "s = n \<Longrightarrow> filter (\<lambda>(s, _). s \<noteq> n) m = m" using Cons.prems x by (force simp: filter_id_conv)
  ultimately show ?case using Cons.IH Cons.prems unfolding x by (cases "s = n") (simp_all add: ac_simps)
qed simp

lemma distinct_filter_keys: "distinct (map fst m) \<Longrightarrow> distinct (map fst (filter P m))"
  by (induction m) auto

lemma remove_servers_ranges:
  "distinct (map fst m) \<Longrightarrow> remove_servers hs m = (rs, m') \<Longrightarrow> mset rs + ranges_in m' = ranges_in m"
proof (induction hs arbitrary: m rs m')
  case (Cons h hs)
  let ?n = "hid_name (identity h)"
  obtain rs1 where "remove_servers hs (filter (\<lambda>(s, _). s \<noteq> ?n) m) = (rs1, m')"
    "rs = (case map_of m ?n of None \<Rightarrow> rs1 | Some ranges \<Rightarrow> ranges @ rs1)"
    using Cons.prems(2) by (auto simp: Let_def split: prod.splits)
  moreover from this(1) have "mset rs1 + ranges_in m' = ranges_in (filter (\<lambda>(s, _). s \<noteq> ?n) m)"
    using Cons.IH distinct_filter_keys Cons.prems(1) by blast
  ultimately show ?case unfolding ranges_in_remove [OF Cons.prems(1), of ?n]
    by (cases "map_of m ?n") (simp_all add: add.assoc)
qed simp

lemma assign_ranges_ranges:
  "assign_ranges rs heap m = Some (as, heap', m') \<Longrightarrow> ranges_in m' = ranges_in m + mset rs \<and> map ra_range as = rs"
  by (induction rs heap m arbitrary: as heap' m' rule: assign_ranges.induct) (auto split: option.splits)

lemma assign_ranges_total: "heap \<noteq> [] \<Longrightarrow> \<exists>as heap' m'. assign_ranges rs heap m = Some (as, heap', m')"
proof (induction rs heap m rule: assign_ranges.induct)
  case (3 r rs n s heap m)
  then have "insort (n + 1, s) heap \<noteq> []" by (metis insort_not_Nil)
  then show ?case using 3 by (auto split: option.splits)
qed auto

lemma flatten_ranges: "mset (map ra_range (flatten_assignments m)) = ranges_in m"
  by (induction m rule: ranges_in.induct) (simp_all add: flatten_assignments_def comp_def)

lemma ranges_in_sum: "ranges_in m = sum_mset (image_mset (mset \<circ> snd) (mset m))"
  by (induction m rule: ranges_in.induct) simp_all

lemma ranges_in_permuted: "mset m = mset m' \<Longrightarrow> ranges_in m = ranges_in m'"
  by (simp add: ranges_in_sum)

lemma sort_Nil_iff: "sort xs = [] \<longleftrightarrow> xs = []"
  by (metis length_sort length_0_conv)

lemma heap_of_not_Nil: "ready \<noteq> [] \<Longrightarrow> heap_of m added ready \<noteq> []"
  by (simp add: heap_of_def Let_def sort_Nil_iff)

subsection \<open>Versions\<close>

lemma sint_succ:
  assumes "v \<noteq> (0x7FFFFFFFFFFFFFFF :: i64)"
  shows "sint (v + 1) = sint v + 1"
proof -
  have "sint v \<noteq> sint (0x7FFFFFFFFFFFFFFF :: i64)" using assms by (metis signed_word_eqI)
  moreover have "sint (0x7FFFFFFFFFFFFFFF :: i64) = 0x7FFFFFFFFFFFFFFF" by simp
  ultimately have "sint v \<noteq> 0x7FFFFFFFFFFFFFFF" by simp
  then have "- (2 ^ 63) \<le> sint v + 1" "sint v + 1 < 2 ^ 63"
    using sint_greater_eq [of v] sint_less [of v] by simp_all
  then have "signed_take_bit 63 (sint v + 1) = sint v + 1" by (intro signed_take_bit_int_eq_self)
  then show ?thesis using sint_word_ariths(1) [of v 1] by simp
qed

lemma signed_succ: "v \<noteq> 0x7FFFFFFFFFFFFFFF \<Longrightarrow> u \<le>s (v :: i64) \<Longrightarrow> u <s v + 1"
  unfolding word_sless_alt word_sle_eq by (simp add: sint_succ)

lemma make_room_keys: "set (map fst (make_room m)) \<subseteq> set (map fst m)"
  by (auto simp: make_room_def)

lemma oldest_in: "m \<noteq> [] \<Longrightarrow> oldest_version m \<in> set (map fst m)"
proof -
  have "fold (\<lambda>v u. if v <s u then v else u) vs x \<in> insert x (set vs)" for vs and x :: i64
    by (induction vs arbitrary: x) auto
  moreover assume "m \<noteq> []"
  ultimately show ?thesis unfolding oldest_version_def by (cases m) fastforce+
qed

lemma make_room_length: "length m \<le> MAX_VERSIONS_TO_KEEP + 1 \<Longrightarrow> length (make_room m) \<le> MAX_VERSIONS_TO_KEEP"
proof (cases "length m > MAX_VERSIONS_TO_KEEP")
  case True
  assume len: "length m \<le> MAX_VERSIONS_TO_KEEP + 1"
  have "m \<noteq> []" using True by auto
  then have "length (filter (\<lambda>(v, _). v \<noteq> oldest_version m) m) < length m"
    using oldest_in [of m] length_filter_less [of _ m "\<lambda>(v, _). v \<noteq> oldest_version m"] by fastforce
  then show ?thesis using True len by (simp add: make_room_def)
qed (simp add: make_room_def)

lemma versions_ok_new:
  assumes "versions_ok v m" "v \<noteq> 0x7FFFFFFFFFFFFFFF"
  shows "v + 1 \<notin> set (map fst (make_room m))" "versions_ok (v + 1) ((v + 1, as) # make_room m)"
proof -
  have less: "u <s v + 1" if "u \<in> set (map fst (make_room m))" for u
  proof (rule signed_succ [OF assms(2)])
    show "u \<le>s v" using that assms(1) make_room_keys [of m] unfolding versions_ok_def by blast
  qed
  then show new: "v + 1 \<notin> set (map fst (make_room m))" by (metis signed.less_irrefl)
  have "distinct (map fst (make_room m))"
    using assms(1) by (simp add: versions_ok_def make_room_def distinct_filter_keys)
  then show "versions_ok (v + 1) ((v + 1, as) # make_room m)"
    using new less assms(1) make_room_length [of m] by (auto simp: versions_ok_def signed.less_imp_le)
qed

subsection \<open>A round\<close>

text \<open>The rounds that compute a new assignment.\<close>

definition round_due :: "host_info list \<Rightarrow> warden \<Rightarrow> bool" where
  "round_due prev w \<longleftrightarrow> wa_ready_range_servers w \<noteq> [] \<and>
     (server_difference (wa_ready_range_servers w) prev \<noteq> [] \<or> server_difference prev (wa_ready_range_servers w) \<noteq> [] \<or>
      wa_unassigned_base_ranges w \<noteq> [])"

text \<open>The new assignment of a round: what is written to the database and the map from servers to ranges.\<close>

definition new_assignment ::
  "iteration \<Rightarrow> host_info list \<Rightarrow> warden \<Rightarrow> (base_range list \<times> range_assignment list \<times> assignee_map) option" where
  "new_assignment it prev w =
     (let ready = wa_ready_range_servers w;
          m = assignee_to_range_info (current_assignments w);
          (orphans, m1) = remove_servers (it_servers it (server_difference prev ready)) m
      in map_option (\<lambda>(as, _, m2). (orphans, as, m2))
           (assign_ranges (wa_unassigned_base_ranges w @ orphans) (heap_of m (server_difference ready prev) ready) m1))"

lemma new_assignment_ranges:
  assumes "wa_ready_range_servers w \<noteq> []"
  obtains orphans as m where "new_assignment it prev w = Some (orphans, as, m)"
    "ranges_in m = mset (wa_unassigned_base_ranges w) + mset (map ra_range (current_assignments w))"
    "map ra_range as = wa_unassigned_base_ranges w @ orphans"
proof -
  let ?m = "assignee_to_range_info (current_assignments w)"
  let ?heap = "heap_of ?m (server_difference (wa_ready_range_servers w) prev) (wa_ready_range_servers w)"
  obtain orphans m1 where rem:
    "remove_servers (it_servers it (server_difference prev (wa_ready_range_servers w))) ?m = (orphans, m1)"
    by (meson surj_pair)
  obtain as heap m2 where asg: "assign_ranges (wa_unassigned_base_ranges w @ orphans) ?heap m1 = Some (as, heap, m2)"
    using assign_ranges_total [OF heap_of_not_Nil [OF assms]] by blast
  show ?thesis
  proof (rule that)
    show "new_assignment it prev w = Some (orphans, as, m2)" by (simp add: new_assignment_def rem asg)
    show "ranges_in m2 = mset (wa_unassigned_base_ranges w) + mset (map ra_range (current_assignments w))"
      using assign_ranges_ranges [OF asg] remove_servers_ranges [OF assignee_to_range_info_ranges(2) rem]
        assignee_to_range_info_ranges(1) [of "current_assignments w"] by (simp add: ac_simps)
    show "map ra_range as = wa_unassigned_base_ranges w @ orphans" using assign_ranges_ranges [OF asg] by simp
  qed
qed

lemma filter_all_in: "(\<And>r. r \<in> set xs \<Longrightarrow> f r \<in> S) \<Longrightarrow> filter (\<lambda>r. f r \<notin> S) xs = []"
  by (simp add: filter_empty_conv)

lemma current_known:
  assumes "versions_ok (wa_current_version w) (wa_range_assignments w)"
  shows "(if wa_range_assignments w = [] then Some []
          else map_of (wa_range_assignments w) (wa_current_version w)) = Some (current_assignments w)"
proof (cases "wa_range_assignments w = []")
  case False
  then have "wa_current_version w \<in> fst ` set (wa_range_assignments w)" using assms by (simp add: versions_ok_def)
  then have "map_of (wa_range_assignments w) (wa_current_version w) \<noteq> None" by (simp add: map_of_eq_None_iff)
  then show ?thesis using False by (auto simp: current_assignments_def)
qed (simp add: current_assignments_def)

lemma it_servers_Nil: "wf_iteration it \<Longrightarrow> it_servers it hs = [] \<longleftrightarrow> hs = []"
  by (metis mset_zero_iff_right wf_iteration_def)

lemma round_not_due:
  "wf_iteration it \<Longrightarrow> \<not> round_due prev w \<Longrightarrow>
     run_assignment_computation it exec prev w db = (Ok (wa_ready_range_servers w, None), w, db)"
  by (auto simp: run_assignment_computation_def round_due_def MIN_NUM_RANGE_SERVERS_def it_servers_Nil Let_def)

lemma round_run:
  assumes "wf_iteration it" "round_due prev w" "versions_ok (wa_current_version w) (wa_range_assignments w)"
    and "wa_current_version w \<noteq> 0x7FFFFFFFFFFFFFFF" "new_assignment it prev w = Some (orphans, as, m)"
  shows "run_assignment_computation it exec prev w db =
     (case update_range_assignments exec (wa_current_version w + 1) as db of
        (Err e, db') \<Rightarrow> (Ok (wa_ready_range_servers w, None), w, db')
      | (Panic, db') \<Rightarrow> (Panic, w, db')
      | (Ok _, db') \<Rightarrow> (Ok (wa_ready_range_servers w, Some (wa_current_version w + 1)),
          w\<lparr>wa_unassigned_base_ranges := [],
            wa_range_assignments := (wa_current_version w + 1, flatten_assignments (it_assignees it m)) # make_room (wa_range_assignments w),
            wa_current_version := wa_current_version w + 1\<rparr>, db'))"
proof -
  obtain orphans' m1 where rem: "remove_servers (it_servers it (server_difference prev (wa_ready_range_servers w)))
      (assignee_to_range_info (current_assignments w)) = (orphans', m1)"
    by (meson surj_pair)
  obtain heap where asg: "assign_ranges (wa_unassigned_base_ranges w @ orphans)
      (heap_of (assignee_to_range_info (current_assignments w)) (server_difference (wa_ready_range_servers w) prev)
        (wa_ready_range_servers w)) m1 = Some (as, heap, m)" "orphans' = orphans"
    using assms(5) rem by (auto simp: new_assignment_def Let_def)
  have unassigned: "filter (\<lambda>r. br_id r \<notin> set (map br_id (wa_unassigned_base_ranges w @ orphans)))
      (wa_unassigned_base_ranges w) = []"
    by (rule filter_all_in) simp
  have due: "\<not> length (wa_ready_range_servers w) < MIN_NUM_RANGE_SERVERS"
    "\<not> (server_difference (wa_ready_range_servers w) prev = [] \<and>
        it_servers it (server_difference prev (wa_ready_range_servers w)) = [] \<and> wa_unassigned_base_ranges w = [])"
    using assms(1,2) by (auto simp: round_due_def it_servers_Nil MIN_NUM_RANGE_SERVERS_def Suc_le_eq)
  show ?thesis
    unfolding run_assignment_computation_def Let_def if_not_P [OF due(1)] if_not_P [OF due(2)] current_known [OF assms(3)]
      rem option.case prod.case asg unassigned
    using versions_ok_new(1) [OF assms(3,4)]
    by (simp split: prod.splits outcome.splits)
qed

subsection \<open>Every step keeps the invariant\<close>

lemma image_disjoint: "\<forall>x \<in> A. f x \<notin> B \<Longrightarrow> B \<inter> f ` A = {}"
  by auto

lemma read_base_ranges_inv:
  assumes "distinct_reports parse_str universe" "read_base_ranges parse_str universe exec w db = (r, w', db')"
    and "warden_inv (w, prev, db)"
  shows "warden_inv (w', prev, db')"
proof (cases "w' = w")
  case True
  then show ?thesis using assms(3) by (simp add: warden_inv_def)
next
  case False
  then obtain ks rs new where n: "universe (Some (region_to_proto (wa_region w))) = Ok ks"
    "reported_ranges parse_str (keyspace_ranges ks) = Ok rs" "new_base_ranges (wa_base_ranges w) rs = Ok new"
    "w' = w\<lparr>wa_base_ranges := wa_base_ranges w @ new, wa_unassigned_base_ranges := wa_unassigned_base_ranges w @ new\<rparr>"
    using assms(2) by (auto simp: read_base_ranges_def split: outcome.splits prod.splits)
  have new: "new = filter (\<lambda>r. br_id r \<notin> br_id ` set (wa_base_ranges w)) rs"
    using n(3) by (auto simp: new_base_ranges_def split: option.splits)
  have "distinct (map br_id rs)" using assms(1) n(1,2) unfolding distinct_reports_def by blast
  then have "distinct (map br_id new)" unfolding new by (rule distinct_map_filter)
  moreover have "\<forall>r \<in> set new. br_id r \<notin> br_id ` set (wa_base_ranges w)" by (simp add: new)
  then have "br_id ` set (wa_base_ranges w) \<inter> br_id ` set new = {}" by (rule image_disjoint)
  ultimately have "distinct (map br_id (wa_base_ranges w @ new))" using assms(3) by (simp add: warden_inv_def)
  then show ?thesis using assms(3) n(4) by (simp add: warden_inv_def current_assignments_def)
qed

lemma run_inv:
  assumes "wf_iteration it" "wa_current_version w \<noteq> 0x7FFFFFFFFFFFFFFF"
    and "run_assignment_computation it exec prev w db = (r, w', db')" "warden_inv (w, prev, db)"
  shows "warden_inv (w', prev', db')"
proof (cases "round_due prev w")
  case False
  then show ?thesis using round_not_due [OF assms(1)] assms(3,4) by (simp add: warden_inv_def)
next
  case True
  have v: "versions_ok (wa_current_version w) (wa_range_assignments w)" using assms(4) by (simp add: warden_inv_def)
  obtain orphans as m where n: "new_assignment it prev w = Some (orphans, as, m)"
    "ranges_in m = mset (wa_unassigned_base_ranges w) + mset (map ra_range (current_assignments w))"
    using new_assignment_ranges True unfolding round_due_def by metis
  have m: "mset (map ra_range (flatten_assignments (it_assignees it m))) = ranges_in m"
    using assms(1) ranges_in_permuted unfolding flatten_ranges wf_iteration_def by blast
  show ?thesis
    using assms(3,4) n(2) m versions_ok_new(2) [OF v assms(2)]
    unfolding round_run [OF assms(1) True v assms(2) n(1)]
    by (auto simp: warden_inv_def current_assignments_def split: prod.splits outcome.splits)
qed

text \<open>Registrations and disconnects only change the servers that are ready.\<close>

definition same_ranges :: "warden \<Rightarrow> warden \<Rightarrow> bool" where
  "same_ranges w w' \<longleftrightarrow> wa_base_ranges w' = wa_base_ranges w \<and> wa_range_assignments w' = wa_range_assignments w \<and>
     wa_current_version w' = wa_current_version w \<and> wa_unassigned_base_ranges w' = wa_unassigned_base_ranges w"

lemma registration_keeps:
  "register_range_server req w = (r, w') \<Longrightarrow> same_ranges w w'" "same_ranges w (stream_drop st w)"
  by (auto simp: same_ranges_def register_range_server_def warden_register_def stream_drop_def
      notify_range_server_unavailable_def Let_def split: option.splits if_splits)

lemma same_ranges_inv: "same_ranges w w' \<Longrightarrow> warden_inv (w, prev, db) \<Longrightarrow> warden_inv (w', prev, db)"
  by (simp add: same_ranges_def warden_inv_def current_assignments_def)

lemma warden_step_inv: "warden_inv s \<Longrightarrow> warden_step parse_str s t \<Longrightarrow> warden_inv t"
proof (erule warden_step.cases)
  fix universe exec w db r w' db' prev
  assume "warden_inv s" "s = (w, prev, db)" "t = (w', prev, db')" "distinct_reports parse_str universe"
    "read_base_ranges parse_str universe exec w db = (r, w', db')"
  then show "warden_inv t" using read_base_ranges_inv by blast
next
  fix it w exec prev db prev' v w' db'
  assume "warden_inv s" "s = (w, prev, db)" "t = (w', prev', db')" "wf_iteration it"
    "wa_current_version w \<noteq> 0x7FFFFFFFFFFFFFFF" "run_assignment_computation it exec prev w db = (Ok (prev', v), w', db')"
  then show "warden_inv t" using run_inv by blast
qed (use registration_keeps same_ranges_inv in blast)+

interpretation warden_sys: invariant_system warden_init "warden_step parse_str" warden_inv for parse_str
proof
  show "warden_init s \<Longrightarrow> warden_inv s" for s
    by (auto simp: warden_init.simps warden_inv_def warden_new_def current_assignments_def versions_ok_def)
qed (rule warden_step_inv)

subsection \<open>Assignments are unique\<close>

lemma inv_distinct:
  assumes "warden_inv (w, prev, db)"
  shows "distinct (map (br_id \<circ> ra_range) (current_assignments w))"
proof -
  have "mset (wa_base_ranges w) = mset (wa_unassigned_base_ranges w @ map ra_range (current_assignments w))"
    using assms by (simp add: warden_inv_def)
  then have "mset (map br_id (wa_base_ranges w)) =
      mset (map br_id (wa_unassigned_base_ranges w @ map ra_range (current_assignments w)))"
    by (simp only: mset_map)
  then have "distinct (map br_id (wa_unassigned_base_ranges w @ map ra_range (current_assignments w)))"
    using assms mset_eq_imp_distinct_iff unfolding warden_inv_def by blast
  then show ?thesis by simp
qed

lemma inv_unique:
  assumes "warden_inv (w, prev, db)" "a \<in> set (current_assignments w)" "b \<in> set (current_assignments w)"
    and "br_id (ra_range a) = br_id (ra_range b)"
  shows "a = b"
  using inv_distinct [OF assms(1)] assms(2-4) by (auto simp: distinct_map inj_on_def)

subsection \<open>The updates a server receives\<close>

definition range_of_assignment :: "range_assignment \<Rightarrow> full_range_id" where
  "range_of_assignment a = \<lparr>frid_keyspace_id = br_keyspace_id (ra_range a), frid_range_id = br_id (ra_range a)\<rparr>"

definition assigned_to :: "host_info \<Rightarrow> warden \<Rightarrow> full_range_id set" where
  "assigned_to host w = range_of_assignment ` {a \<in> set (current_assignments w). ra_assignee a = hid_name (identity host)}"

lemma ids_of_assignments:
  assumes "\<And>u. parse_str (to_str u) = Some u"
  shows "ids_from_proto parse_str (map (\<lambda>a. \<lparr>prid_keyspace_id = to_str (ksid_id (br_keyspace_id (ra_range a))),
      prid_range_id = to_str (br_id (ra_range a))\<rparr>) as) = Ok (map range_of_assignment as)"
  by (induction as) (simp_all add: full_range_id_from_proto_def assms range_of_assignment_def)

lemma assigned_toE:
  assumes "i \<in> assigned_to h w"
  obtains a where "a \<in> set (current_assignments w)" "ra_assignee a = hid_name (identity h)"
    "frid_range_id i = br_id (ra_range a)" "frid_keyspace_id i = br_keyspace_id (ra_range a)"
  using assms by (auto simp: assigned_to_def range_of_assignment_def)

lemma assigned_disjoint:
  assumes "warden_inv (w, prev, db)" "hid_name (identity h1) \<noteq> hid_name (identity h2)"
    and "i \<in> assigned_to h1 w" "j \<in> assigned_to h2 w"
  shows "frid_range_id i \<noteq> frid_range_id j"
  using inv_unique [OF assms(1)] assms(2-4) by (metis assigned_toE)

subsection \<open>Balance\<close>

definition load :: "string \<Rightarrow> assignee_map \<Rightarrow> nat" where
  "load s m = (case map_of m s of None \<Rightarrow> 0 | Some rs \<Rightarrow> length rs)"

lemma load_push: "load t (push_range s r m) = load t m + (if t = s then 1 else 0)"
  by (induction s r m rule: push_range.induct) (auto simp: load_def)

definition heap_balanced :: "server_heap \<Rightarrow> assignee_map \<Rightarrow> bool" where
  "heap_balanced heap m \<longleftrightarrow> sorted heap \<and> distinct (map snd heap) \<and> (\<forall>n s. (n, s) \<in> set heap \<longrightarrow> n = load s m) \<and>
     (\<forall>n s k t. (n, s) \<in> set heap \<longrightarrow> (k, t) \<in> set heap \<longrightarrow> n \<le> k + 1)"

lemma sorted_head_least:
  "sorted ((n, s) # heap :: server_heap) \<Longrightarrow> (k, t) \<in> set heap \<Longrightarrow> n \<le> k"
  by (auto simp: less_eq_prod_def dest: bspec)

lemma heap_balanced_pop:
  assumes "heap_balanced ((n, s) # heap) m"
  shows "heap_balanced (insort (n + 1, s) heap) (push_range s r m)"
proof -
  have h: "sorted heap" "s \<notin> snd ` set heap" "distinct (map snd heap)" "n = load s m"
    "\<And>k t. (k, t) \<in> set heap \<Longrightarrow> k = load t m" "\<And>k t. (k, t) \<in> set heap \<Longrightarrow> k \<le> n + 1"
    "\<And>k t k' t'. (k, t) \<in> set heap \<Longrightarrow> (k', t') \<in> set heap \<Longrightarrow> k \<le> k' + 1"
    using assms unfolding heap_balanced_def by simp_all
  have least: "n \<le> k" if "(k, t) \<in> set heap" for k t
    using assms sorted_head_least that unfolding heap_balanced_def by blast
  have "mset (map snd (insort (n + 1, s) heap)) = mset (s # map snd heap)" by simp
  then have "distinct (map snd (insort (n + 1, s) heap))"
    using h(2,3) mset_eq_imp_distinct_iff by fastforce
  moreover have "t \<noteq> s" if "(k, t) \<in> set heap" for k t using that h(2) by force
  moreover have "k \<le> k' + 1" if "(k, t) \<in> insert (n + 1, s) (set heap)" "(k', t') \<in> insert (n + 1, s) (set heap)"
    for k t k' t'
    using that h(6,7) least [of k' t'] by fastforce
  ultimately show ?thesis using h(1,4,5)
    unfolding heap_balanced_def by (auto simp: sorted_insort set_insort_key load_push)
qed

lemma assign_ranges_balanced:
  "heap_balanced heap m \<Longrightarrow> assign_ranges rs heap m = Some (as, heap', m') \<Longrightarrow>
     heap_balanced heap' m' \<and> snd ` set heap' = snd ` set heap"
proof (induction rs heap m arbitrary: as heap' m' rule: assign_ranges.induct)
  case (3 r rs n s heap m)
  then obtain as' where inner: "assign_ranges rs (insort (n + 1, s) heap) (push_range s r m) = Some (as', heap', m')"
    by (auto split: option.splits)
  have "snd ` set (insort (n + 1, s) heap) = snd ` set ((n, s) # heap)" by (simp add: set_insort_key)
  then show ?case using "3.IH" [OF heap_balanced_pop [OF "3.prems"(1)] inner] by simp
qed auto

lemma flatten_load:
  "distinct (map fst m) \<Longrightarrow> length (filter (\<lambda>a. ra_assignee a = s) (flatten_assignments m)) = load s m"
proof (induction m)
  case (Cons x m)
  obtain t rs where x: "x = (t, rs)" by (cases x)
  have "t = s \<Longrightarrow> load s m = 0" using Cons.prems x by (auto simp: load_def map_of_eq_None_iff [THEN iffD2])
  moreover have "load s (x # m) = (if t = s then length rs else load s m)" by (simp add: x load_def)
  moreover have "flatten_assignments (x # m) = map (\<lambda>r. \<lparr>ra_range = r, ra_assignee = t\<rparr>) rs @ flatten_assignments m"
    by (simp add: x flatten_assignments_def)
  ultimately show ?case using Cons by (simp add: comp_def)
qed (simp add: flatten_assignments_def load_def)

lemma assign_ranges_keys:
  "assign_ranges rs heap m = Some (as, heap', m') \<Longrightarrow> distinct (map fst m) \<Longrightarrow> distinct (map fst m')"
  by (induction rs heap m arbitrary: as heap' m' rule: assign_ranges.induct) (auto split: option.splits)

lemma load_permuted: "mset m = mset m' \<Longrightarrow> distinct (map fst m) \<Longrightarrow> distinct (map fst m')"
  by (metis mset_eq_imp_distinct_iff mset_map)

lemma load_map_eq: "mset m = mset m' \<Longrightarrow> distinct (map fst m) \<Longrightarrow> load s m = load s m'"
  unfolding load_def using load_permuted map_of_inject_set mset_eq_setD by metis

lemma first_heap_balanced:
  assumes "distinct (map (hid_name \<circ> identity) ready)"
  shows "heap_balanced (heap_of [] ready ready) []" "snd ` set (heap_of [] ready ready) = (hid_name \<circ> identity) ` set ready"
proof -
  let ?es = "map (\<lambda>h. (0 :: nat, hid_name (identity h))) ready"
  have heap: "heap_of [] ready ready = sort ?es" by (simp add: heap_of_def Let_def)
  have "mset (map snd (sort ?es)) = mset (map (hid_name \<circ> identity) ready)"
    by (simp add: image_mset.compositionality comp_def)
  then have "distinct (map snd (sort ?es))" using assms mset_eq_imp_distinct_iff by blast
  then show "heap_balanced (heap_of [] ready ready) []" unfolding heap by (auto simp: heap_balanced_def load_def)
  show "snd ` set (heap_of [] ready ready) = (hid_name \<circ> identity) ` set ready" unfolding heap by force
qed

lemma first_assignment_balanced:
  assumes "distinct (map (hid_name \<circ> identity) (wa_ready_range_servers w))" "current_assignments w = []"
    and "new_assignment it [] w = Some (orphans, as, m)" "wf_iteration it"
    and "h \<in> set (wa_ready_range_servers w)" "k \<in> set (wa_ready_range_servers w)"
  shows "load (hid_name (identity h)) m \<le> load (hid_name (identity k)) m + 1" "distinct (map fst m)"
proof -
  let ?ready = "wa_ready_range_servers w"
  have d: "server_difference ?ready [] = ?ready" "it_servers it (server_difference [] ?ready) = []"
    using it_servers_Nil [OF assms(4)] by (simp_all add: server_difference_def)
  obtain rs heap where asg: "assign_ranges rs (heap_of [] ?ready ?ready) [] = Some (as, heap, m)"
    using assms(3) by (auto simp: new_assignment_def d assms(2) assignee_to_range_info_def Let_def)
  note b = assign_ranges_balanced [OF first_heap_balanced(1) [OF assms(1)] asg]
  obtain n1 n2 where "(n1, hid_name (identity h)) \<in> set heap" "(n2, hid_name (identity k)) \<in> set heap"
    using b first_heap_balanced(2) [OF assms(1)] assms(5,6) by (metis (no_types, lifting) comp_apply image_iff prod.collapse)
  then show "load (hid_name (identity h)) m \<le> load (hid_name (identity k)) m + 1"
    using b unfolding heap_balanced_def by metis
  show "distinct (map fst m)" using assign_ranges_keys [OF asg] by simp
qed

subsection \<open>Leases of new ranges\<close>

definition new_lease :: "base_range \<Rightarrow> cql_range_lease" where
  "new_lease r = \<lparr>cl_range_id = br_id r, cl_epoch_lease = (0, 0),
     cl_key_lower_bound_inclusive = lower_bound_inclusive (br_key_range r),
     cl_key_upper_bound_exclusive = upper_bound_exclusive (br_key_range r), cl_leader_sequence_number = 0,
     cl_safe_snapshot_epochs = (0, 0)\<rparr>"

abbreviation leases :: "warden_db \<Rightarrow> uuid \<Rightarrow> cql_range_lease option" where
  "leases db \<equiv> db_range_leases (wd_storage db)"

text \<open>What a statement that inserts a lease leaves of the leases.\<close>

lemma insert_range_sem:
  "leases (snd (warden_sem (insert_range_stmt r) db)) =
     (case leases db (br_id r) of None \<Rightarrow> (leases db)(br_id r \<mapsto> new_lease r) | Some _ \<Rightarrow> leases db)"
  by (simp add: insert_range_stmt_def new_lease_def split: option.splits)

lemma insert_new_ranges_keep:
  assumes "executes warden_sem exec"
  shows "insert_new_ranges exec n rs db = (r, db') \<Longrightarrow>
    (leases db i = Some l \<longrightarrow> leases db' i = Some l) \<and> (i \<notin> br_id ` set rs \<longrightarrow> leases db' i = leases db i)"
proof (induction rs arbitrary: n db)
  case (Cons b rs)
  obtain q db1 where q: "exec n (insert_range_stmt b) db = (q, db1)" by (meson surj_pair)
  have "leases db1 = leases db \<or> leases db1 = leases (snd (warden_sem (insert_range_stmt b) db))"
    using executes_at [OF assms, where i = n and s = "insert_range_stmt b" and db = db] q
    by (auto split: outcome.splits) (metis snd_conv)
  then have keep: "leases db i = Some l \<longrightarrow> leases db1 i = Some l" "i \<noteq> br_id b \<longrightarrow> leases db1 i = leases db i"
    unfolding insert_range_sem by (auto split: option.splits)
  show ?case
  proof (cases q)
    case (Ok u)
    then have "insert_new_ranges exec (Suc n) rs db1 = (r, db')" using Cons.prems q by simp
    from Cons.IH [OF this] show ?thesis using keep by auto
  qed (use Cons.prems q keep in auto)
qed simp

lemma insert_new_ranges_leases:
  assumes "executes warden_sem exec"
  shows "insert_new_ranges exec n rs db = (Ok (), db') \<Longrightarrow> distinct (map br_id rs) \<Longrightarrow> b \<in> set rs \<Longrightarrow>
    leases db (br_id b) = None \<Longrightarrow> leases db' (br_id b) = Some (new_lease b)"
proof (induction rs arbitrary: n db)
  case (Cons c rs)
  obtain q db1 where q: "exec n (insert_range_stmt c) db = (q, db1)" by (meson surj_pair)
  then have rest: "q = Ok ()" "insert_new_ranges exec (Suc n) rs db1 = (Ok (), db')"
    using Cons.prems(1) by (auto split: outcome.splits)
  then have "db1 = snd (warden_sem (insert_range_stmt c) db)"
    using executes_OkD [OF assms q [unfolded rest(1)]] by simp
  then have db1: "leases db1 = (case leases db (br_id c) of None \<Rightarrow> (leases db)(br_id c \<mapsto> new_lease c) | Some _ \<Rightarrow> leases db)"
    by (simp only: insert_range_sem)
  show ?case
  proof (cases "b = c")
    case True
    then have "leases db1 (br_id b) = Some (new_lease b)" using Cons.prems(4) db1 by simp
    then show ?thesis using insert_new_ranges_keep [OF assms rest(2)] by blast
  next
    case False
    then have b: "b \<in> set rs" "br_id b \<noteq> br_id c" using Cons.prems(2,3) by (auto simp: image_iff)
    then have "leases db1 (br_id b) = None" using Cons.prems(4) unfolding db1 by (auto split: option.splits)
    then show ?thesis using Cons.IH [OF rest(2)] Cons.prems(2) b(1) by simp
  qed
qed simp

lemma read_base_ranges_leases:
  assumes "executes warden_sem exec" "distinct_reports parse_str universe"
    and "read_base_ranges parse_str universe exec w db = (r, w', db')"
  shows "leases db i = Some l \<Longrightarrow> leases db' i = Some l"
    and "b \<in> set (wa_base_ranges w') - set (wa_base_ranges w) \<Longrightarrow> leases db (br_id b) = None \<Longrightarrow>
      leases db' (br_id b) = Some (new_lease b)"
proof -
  consider "w' = w" "db' = db" | ks rs new q where "universe (Some (region_to_proto (wa_region w))) = Ok ks"
    "reported_ranges parse_str (keyspace_ranges ks) = Ok rs" "new_base_ranges (wa_base_ranges w) rs = Ok new"
    "insert_new_ranges exec 0 new db = (q, db')"
    "w' = w \<or> q = Ok () \<and> wa_base_ranges w' = wa_base_ranges w @ new"
    using assms(3) by (auto simp: read_base_ranges_def split: outcome.splits prod.splits)
  then have "(leases db i = Some l \<longrightarrow> leases db' i = Some l) \<and>
      (b \<in> set (wa_base_ranges w') - set (wa_base_ranges w) \<longrightarrow> leases db (br_id b) = None \<longrightarrow>
        leases db' (br_id b) = Some (new_lease b))"
  proof cases
    case 2
    have "new = filter (\<lambda>r. br_id r \<notin> br_id ` set (wa_base_ranges w)) rs"
      using 2(3) by (auto simp: new_base_ranges_def split: option.splits)
    moreover have "distinct (map br_id rs)" using assms(2) 2(1,2) unfolding distinct_reports_def by blast
    ultimately have "distinct (map br_id new)" by (simp add: distinct_map_filter)
    then show ?thesis
      using insert_new_ranges_keep [OF assms(1) 2(4)] insert_new_ranges_leases [OF assms(1), of 0 new db db' b] 2(4,5) by auto
  qed simp
  then show "leases db i = Some l \<Longrightarrow> leases db' i = Some l"
    "b \<in> set (wa_base_ranges w') - set (wa_base_ranges w) \<Longrightarrow> leases db (br_id b) = None \<Longrightarrow>
      leases db' (br_id b) = Some (new_lease b)" by blast+
qed

lemma take_new_lease:
  assumes "leases db (br_id b) = Some (new_lease b)"
  shows "fst (take_ownership_and_load_range (reliable (storage_sem tie))
      \<lparr>frid_keyspace_id = br_keyspace_id b, frid_range_id = br_id b\<rparr> (wd_storage db)) =
    Ok \<lparr>ri_id = br_id b, ri_key_range = br_key_range b, ri_leader_sequence_number = 1, ri_epoch_lease = (0, 0)\<rparr>"
  using assms
  by (simp add: take_ownership_and_load_range_def get_range_lease_def take_ownership_acquire_def take_ownership_check_def
      reliable_def new_lease_def cql_key_range_def)

lemma write_assignments_reliable: "\<exists>db'. write_assignments (reliable warden_sem) n as db = (Ok (), db')"
  by (induction as arbitrary: n db) (simp_all add: reliable_def)

lemma update_range_assignments_reliable: "\<exists>db'. update_range_assignments (reliable warden_sem) v as db = (Ok (), db')"
  using write_assignments_reliable [of 1 as db] by (simp add: update_range_assignments_def reliable_def)

lemma round_reliable:
  assumes "wf_iteration it" "round_due prev w" "versions_ok (wa_current_version w) (wa_range_assignments w)"
    and "wa_current_version w \<noteq> 0x7FFFFFFFFFFFFFFF" "new_assignment it prev w = Some (orphans, as, m)"
  obtains db' where "run_assignment_computation it (reliable warden_sem) prev w db =
     (Ok (wa_ready_range_servers w, Some (wa_current_version w + 1)),
      w\<lparr>wa_unassigned_base_ranges := [],
        wa_range_assignments := (wa_current_version w + 1, flatten_assignments (it_assignees it m)) # make_room (wa_range_assignments w),
        wa_current_version := wa_current_version w + 1\<rparr>, db')"
proof -
  obtain db' where "update_range_assignments (reliable warden_sem) (wa_current_version w + 1) as db = (Ok (), db')"
    using update_range_assignments_reliable by blast
  then show ?thesis using that round_run [OF assms, of "reliable warden_sem" db] by simp
qed

lemma update_processed:
  assumes "\<And>u. parse_str (to_str u) = Some u" "enumerates iter" "finite S"
    and "get_assignment_update to_str h (wa_current_version w) full w = Some u"
    and "process_warden_update parse_str iter True u S = (r, A, sent)"
  shows "r = Ok () \<and> A = assigned_to h w \<and> replay S sent = Some A"
proof -
  obtain as where as: "map_of (wa_range_assignments w) (wa_current_version w) = Some as"
    using assms(4) by (auto simp: get_assignment_update_def split: option.splits)
  let ?mine = "filter (\<lambda>a. ra_assignee a = hid_name (identity h)) as"
  have ids: "set (map range_of_assignment ?mine) = assigned_to h w" using as by (auto simp: assigned_to_def current_assignments_def)
  show ?thesis
    using assms(4,5) as ids process_full [OF assms(2,3) ids_of_assignments [OF assms(1)], of ?mine]
    by (auto simp: get_assignment_update_def process_warden_update_def ids_of_assignments [OF assms(1)] Let_def)
qed

section \<open>Properties\<close>

text \<open>
  C8: ranges are neither lost nor assigned twice. In every state the warden reaches, through any sequence of reports,
  rounds, registrations and disconnects, with queries that may fail and any iteration order of the hash
  tables, each base range it knows is either unassigned or the range of exactly one assignment of the current version. The
  versions cached are at most one more than the bound, and none is newer than the current one.
\<close>

theorem warden_partition:
  assumes "reachable warden_init (warden_step parse_str) (w, prev, db)"
  shows "mset (wa_unassigned_base_ranges w) + mset (map ra_range (current_assignments w)) = mset (wa_base_ranges w) \<and>
    distinct (map br_id (wa_base_ranges w)) \<and>
    (\<forall>a \<in> set (current_assignments w). \<forall>b \<in> set (current_assignments w).
       br_id (ra_range a) = br_id (ra_range b) \<longrightarrow> a = b) \<and>
    length (wa_range_assignments w) \<le> MAX_VERSIONS_TO_KEEP + 1 \<and>
    (\<forall>v \<in> set (map fst (wa_range_assignments w)). v \<le>s wa_current_version w)"
proof -
  have inv: "warden_inv (w, prev, db)" using assms by (rule warden_sys.reachable_inv)
  then show ?thesis using inv_unique [OF inv] by (auto simp: warden_inv_def versions_ok_def)
qed

text \<open>
  C26: a round of the warden ends with every range assigned. From any reachable state with a registered server, when
  the database answers, the round does not panic, leaves no range unassigned, and the ranges of the new assignment
  are exactly the base ranges.
\<close>

theorem warden_round_assigns:
  assumes "reachable warden_init (warden_step parse_str) (w, prev, db)" "wf_iteration it"
    and "wa_current_version w \<noteq> 0x7FFFFFFFFFFFFFFF" "wa_ready_range_servers w \<noteq> []"
  shows "\<exists>v w' db'. run_assignment_computation it (reliable warden_sem) prev w db = (Ok (wa_ready_range_servers w, v), w', db') \<and>
    wa_unassigned_base_ranges w' = [] \<and> mset (map ra_range (current_assignments w')) = mset (wa_base_ranges w)"
proof -
  have inv: "warden_inv (w, prev, db)" using assms(1) by (rule warden_sys.reachable_inv)
  show ?thesis
  proof (cases "round_due prev w")
    case False
    moreover have "wa_unassigned_base_ranges w = []" using False assms(4) by (simp add: round_due_def)
    ultimately show ?thesis using round_not_due [OF assms(2)] inv by (simp add: warden_inv_def)
  next
    case True
    have v: "versions_ok (wa_current_version w) (wa_range_assignments w)" using inv by (simp add: warden_inv_def)
    obtain orphans as m where n: "new_assignment it prev w = Some (orphans, as, m)"
      using new_assignment_ranges [OF assms(4)] by metis
    obtain w' db' where run: "run_assignment_computation it (reliable warden_sem) prev w db =
        (Ok (wa_ready_range_servers w, Some (wa_current_version w + 1)), w', db')"
      "wa_unassigned_base_ranges w' = []" "wa_base_ranges w' = wa_base_ranges w"
    proof (rule round_reliable [OF assms(2) True v assms(3) n, of db], rule that, assumption)
    qed simp_all
    have "warden_inv (w', prev, db')" using run_inv [OF assms(2,3) run(1) inv] .
    then show ?thesis using run by (simp add: warden_inv_def)
  qed
qed

text \<open>
  C13: the warden and the range servers together. The current update the warden makes for a server, processed by the server's
  handler, leaves the server with exactly the ranges assigned to it, by load and unload messages that lead
  there from the ranges it had; and the ranges of two servers with different names have different ids, so that no range is
  given to two servers by one version.
\<close>

theorem warden_servers_disjoint:
  assumes "reachable warden_init (warden_step parse_str) (w, prev, db)"
    and "\<And>u. parse_str (to_str u) = Some u" "enumerates iter" "finite S1" "finite S2"
    and "get_assignment_update to_str h1 (wa_current_version w) full1 w = Some u1"
    and "get_assignment_update to_str h2 (wa_current_version w) full2 w = Some u2"
    and "process_warden_update parse_str iter True u1 S1 = (r1, A1, sent1)"
    and "process_warden_update parse_str iter True u2 S2 = (r2, A2, sent2)"
  shows "r1 = Ok () \<and> A1 = assigned_to h1 w \<and> replay S1 sent1 = Some A1 \<and>
    (hid_name (identity h1) \<noteq> hid_name (identity h2) \<longrightarrow> frid_range_id ` A1 \<inter> frid_range_id ` A2 = {})"
proof -
  have inv: "warden_inv (w, prev, db)" using assms(1) by (rule warden_sys.reachable_inv)
  have one: "r1 = Ok () \<and> A1 = assigned_to h1 w \<and> replay S1 sent1 = Some A1"
    by (rule update_processed [OF assms(2,3,4,6,8)])
  have two: "A2 = assigned_to h2 w" using update_processed [OF assms(2,3,5,7,9)] by simp
  show ?thesis using one two assigned_disjoint [OF inv] by auto
qed

text \<open>
  C36: the first assignment is balanced. When the warden has assigned nothing yet and the registered servers have
  different names, a round that succeeds gives any two of them numbers of ranges that differ by at most one.
\<close>

theorem warden_first_round_balanced:
  assumes "reachable warden_init (warden_step parse_str) (w, [], db)" "wf_iteration it"
    and "current_assignments w = []" "wa_current_version w \<noteq> 0x7FFFFFFFFFFFFFFF"
    and "distinct (map (hid_name \<circ> identity) (wa_ready_range_servers w))"
    and "run_assignment_computation it exec [] w db = (Ok (ready, Some v), w', db')"
    and "h \<in> set ready" "k \<in> set ready"
  shows "length (filter (\<lambda>a. ra_assignee a = hid_name (identity h)) (current_assignments w')) \<le>
    length (filter (\<lambda>a. ra_assignee a = hid_name (identity k)) (current_assignments w')) + 1"
proof -
  have inv: "versions_ok (wa_current_version w) (wa_range_assignments w)"
    using warden_sys.reachable_inv [OF assms(1)] by (simp add: warden_inv_def)
  have due: "round_due [] w" using assms(6) round_not_due [OF assms(2)] by fastforce
  then obtain orphans as m where n: "new_assignment it [] w = Some (orphans, as, m)"
    using new_assignment_ranges unfolding round_due_def by metis
  have r: "ready = wa_ready_range_servers w" "current_assignments w' = flatten_assignments (it_assignees it m)"
    using assms(6) unfolding round_run [OF assms(2) due inv assms(4) n]
    by (auto simp: current_assignments_def split: prod.splits outcome.splits)
  note b = first_assignment_balanced [OF assms(5,3) n assms(2)]
  have perm: "mset (it_assignees it m) = mset m" using assms(2) by (simp add: wf_iteration_def)
  have keys: "distinct (map fst m)" using b(2) assms(7) r(1) by blast
  then have "load s (it_assignees it m) = load s m" "distinct (map fst (it_assignees it m))" for s
    using load_map_eq [OF perm [symmetric]] load_permuted [OF perm [symmetric]] by simp_all
  then show ?thesis using b(1) assms(7,8) r by (simp add: flatten_load)
qed

text \<open>
  C18: new ranges can be loaded and known ones keep their leases. However the queries of reading the base
  ranges fare, a range with a lease keeps it unchanged (so a warden that starts again and inserts all
  ranges again fences no leader and resets no epoch); when reading succeeds, a range server that takes ownership of a range that is new to
  the warden and to the database loads it with the key range that was reported, as its first leader and with the empty lease.
\<close>

theorem new_range_loadable:
  assumes "executes warden_sem exec" "distinct_reports parse_str universe"
    and "read_base_ranges parse_str universe exec w db = (r, w', db')"
  shows "(\<forall>i l. leases db i = Some l \<longrightarrow> leases db' i = Some l) \<and>
    (\<forall>b \<in> set (wa_base_ranges w') - set (wa_base_ranges w). leases db (br_id b) = None \<longrightarrow>
       fst (take_ownership_and_load_range (reliable (storage_sem tie))
         \<lparr>frid_keyspace_id = br_keyspace_id b, frid_range_id = br_id b\<rparr> (wd_storage db'))
       = Ok \<lparr>ri_id = br_id b, ri_key_range = br_key_range b, ri_leader_sequence_number = 1, ri_epoch_lease = (0, 0)\<rparr>)"
proof (intro conjI allI impI ballI)
  show "leases db' i = Some l" if "leases db i = Some l" for i l
    using read_base_ranges_leases(1) [OF assms] that by blast
  show "fst (take_ownership_and_load_range (reliable (storage_sem tie))
         \<lparr>frid_keyspace_id = br_keyspace_id b, frid_range_id = br_id b\<rparr> (wd_storage db'))
       = Ok \<lparr>ri_id = br_id b, ri_key_range = br_key_range b, ri_leader_sequence_number = 1, ri_epoch_lease = (0, 0)\<rparr>"
    if "b \<in> set (wa_base_ranges w') - set (wa_base_ranges w)" "leases db (br_id b) = None" for b
    by (rule take_new_lease) (use read_base_ranges_leases(2) [OF assms] that in blast)
qed

section \<open>Examples and witnesses\<close>

text \<open>A keyspace with two ranges, two range servers, and hash tables that iterate in the order of their lists.\<close>

definition ex_base_range :: "uuid \<Rightarrow> bytes option \<Rightarrow> bytes option \<Rightarrow> base_range" where
  "ex_base_range i lower upper = \<lparr>br_keyspace_id = \<lparr>ksid_id = 1\<rparr>, br_id = i,
     br_key_range = \<lparr>lower_bound_inclusive = lower, upper_bound_exclusive = upper\<rparr>\<rparr>"

abbreviation (input) ex_low :: base_range where
  "ex_low \<equiv> ex_base_range 5 None (Some [7])"

abbreviation (input) ex_high :: base_range where
  "ex_high \<equiv> ex_base_range 6 (Some [7]) None"

definition ex_keyspaces :: "proto_keyspace_info list" where
  "ex_keyspaces = [\<lparr>pki_keyspace_id = ex_print_uuid 1, pki_namespace = ''ns'', pki_name = ''ks'', pki_primary_zone = None,
     pki_base_key_ranges =
       [\<lparr>base_range_uuid = ex_print_uuid 5, pkr_lower_bound_inclusive = [], pkr_upper_bound_exclusive = [7]\<rparr>,
        \<lparr>base_range_uuid = ex_print_uuid 6, pkr_lower_bound_inclusive = [7], pkr_upper_bound_exclusive = []\<rparr>]\<rparr>]"

definition ex_universe :: "proto_region option \<Rightarrow> (string, proto_keyspace_info list) outcome" where
  "ex_universe reg = Ok ex_keyspaces"

definition ex_warden_db :: warden_db where
  "ex_warden_db = \<lparr>wd_storage = \<lparr>db_range_leases = Map.empty, db_records = (\<lambda>_. [])\<rparr>, wd_range_map = Map.empty\<rparr>"

definition ex_server :: "string \<Rightarrow> proto_host_info" where
  "ex_server n = \<lparr>phi_identity = n, phi_zone = ''z'', phi_epoch = 1\<rparr>"

definition ex_it :: iteration where
  "ex_it = \<lparr>it_servers = id, it_assignees = id\<rparr>"

definition ex_warden :: "host_info list \<Rightarrow> base_range list \<Rightarrow> (i64 \<times> range_assignment list) list \<Rightarrow> i64 \<Rightarrow> warden" where
  "ex_warden ready unassigned versions v =
     \<lparr>wa_base_ranges = [ex_low, ex_high], wa_region = \<lparr>reg_cloud = None, reg_name = ''r''\<rparr>, wa_range_assignments = versions,
      wa_current_version = v, wa_ready_range_servers = ready, wa_unassigned_base_ranges = unassigned\<rparr>"

definition ex_hosts :: "host_info list" where
  "ex_hosts = [host_of_request (ex_server ''b''), host_of_request (ex_server ''a'')]"

definition ex_assigned :: "range_assignment list" where
  "ex_assigned = [\<lparr>ra_range = ex_low, ra_assignee = ''a''\<rparr>, \<lparr>ra_range = ex_high, ra_assignee = ''b''\<rparr>]"

lemma ex_it_wf: "wf_iteration ex_it"
  by (simp add: wf_iteration_def ex_it_def)

lemma ex_reported: "reported_ranges ex_parse_uuid (keyspace_ranges ex_keyspaces) = Ok [ex_low, ex_high]"
  by (simp add: ex_keyspaces_def keyspace_ranges_def base_range_of_def ex_uuid_text bound_of_def ex_base_range_def)

lemma ex_distinct_reports: "distinct_reports ex_parse_uuid ex_universe"
  by (auto simp: distinct_reports_def ex_universe_def ex_reported ex_base_range_def)

lemma ex_read:
  "\<exists>db. read_base_ranges ex_parse_uuid ex_universe (reliable warden_sem) (warden_new 3 \<lparr>reg_cloud = None, reg_name = ''r''\<rparr>) ex_warden_db =
     (Ok (), ex_warden [] [ex_low, ex_high] [] 3, db)"
  by (simp add: read_base_ranges_def warden_new_def new_base_ranges_def ex_warden_def reliable_def ex_universe_def ex_reported)

lemma ex_register:
  "register_range_server (Some (ex_server ''a'')) (ex_warden [] u vs v) =
     (Ok \<lparr>us_sent_full_update = False, us_host_info = host_of_request (ex_server ''a'')\<rparr>,
      ex_warden [host_of_request (ex_server ''a'')] u vs v)"
  "register_range_server (Some (ex_server ''b'')) (ex_warden [host_of_request (ex_server ''a'')] u vs v) =
     (Ok \<lparr>us_sent_full_update = False, us_host_info = host_of_request (ex_server ''b'')\<rparr>, ex_warden ex_hosts u vs v)"
  by (simp_all add: register_range_server_def warden_register_def ex_warden_def same_server_def host_of_request_def
      ex_server_def ex_hosts_def)

lemma ex_registered_reachable:
  obtains db where "reachable warden_init (warden_step ex_parse_uuid) (ex_warden ex_hosts [ex_low, ex_high] [] 3, [], db)"
proof -
  let ?R = "reachable warden_init (warden_step ex_parse_uuid)"
  obtain db where read: "read_base_ranges ex_parse_uuid ex_universe (reliable warden_sem)
      (warden_new 3 \<lparr>reg_cloud = None, reg_name = ''r''\<rparr>) ex_warden_db = (Ok (), ex_warden [] [ex_low, ex_high] [] 3, db)"
    using ex_read by blast
  have "?R (warden_new 3 \<lparr>reg_cloud = None, reg_name = ''r''\<rparr>, [], ex_warden_db)"
    by (rule reach_init) (rule warden_init.intros)
  then have "?R (ex_warden [] [ex_low, ex_high] [] 3, [], db)"
    by (rule reach_step) (rule ws_read [OF ex_distinct_reports read])
  then have "?R (ex_warden [host_of_request (ex_server ''a'')] [ex_low, ex_high] [] 3, [], db)"
    by (rule reach_step) (rule ws_register [OF ex_register(1)])
  then have "?R (ex_warden ex_hosts [ex_low, ex_high] [] 3, [], db)"
    by (rule reach_step) (rule ws_register [OF ex_register(2)])
  then show ?thesis by (rule that)
qed

lemma ex_first_assignment:
  "new_assignment ex_it [] (ex_warden ex_hosts [ex_low, ex_high] [] 3) =
     Some ([], ex_assigned, [(''a'', [ex_low]), (''b'', [ex_high])])"
  by code_simp

lemma ex_first_round:
  "\<exists>db'. run_assignment_computation ex_it (reliable warden_sem) [] (ex_warden ex_hosts [ex_low, ex_high] [] 3) db =
     (Ok (ex_hosts, Some 4), ex_warden ex_hosts [] [(4, ex_assigned)] 4, db')"
proof -
  have "round_due [] (ex_warden ex_hosts [ex_low, ex_high] [] 3)"
    by (simp add: round_due_def ex_warden_def ex_hosts_def server_difference_def)
  then show ?thesis
    by (rule round_reliable [OF ex_it_wf _ _ _ ex_first_assignment, of db])
      (simp_all add: ex_warden_def versions_ok_def make_room_def flatten_assignments_def ex_it_def ex_assigned_def)
qed

lemma ex_assigned_reachable:
  obtains db where "reachable warden_init (warden_step ex_parse_uuid) (ex_warden ex_hosts [] [(4, ex_assigned)] 4, ex_hosts, db)"
proof -
  obtain db where r: "reachable warden_init (warden_step ex_parse_uuid) (ex_warden ex_hosts [ex_low, ex_high] [] 3, [], db)"
    by (rule ex_registered_reachable)
  obtain db' where run: "run_assignment_computation ex_it (reliable warden_sem) [] (ex_warden ex_hosts [ex_low, ex_high] [] 3) db =
     (Ok (ex_hosts, Some 4), ex_warden ex_hosts [] [(4, ex_assigned)] 4, db')"
    using ex_first_round by blast
  have "wa_current_version (ex_warden ex_hosts [ex_low, ex_high] [] 3) \<noteq> 0x7FFFFFFFFFFFFFFF" by (simp add: ex_warden_def)
  then show ?thesis using that reach_step [OF r ws_run [OF ex_it_wf _ run]] by blast
qed

text \<open>
  A server that disconnected may be given its own ranges again: the heap is built before the removed servers are taken
  out of the map. Here \<open>a\<close> and \<open>b\<close> have a range each and \<open>a\<close> disconnects; its range is
  assigned to \<open>a\<close> again, and no later round is due that would move it.
\<close>

lemma disconnected_server_keeps_ranges:
  defines "w \<equiv> ex_warden [host_of_request (ex_server ''b'')] [] [(4, ex_assigned)] 4"
  shows "stream_drop \<lparr>us_sent_full_update = True, us_host_info = host_of_request (ex_server ''a'')\<rparr>
      (ex_warden ex_hosts [] [(4, ex_assigned)] 4) = w"
    and "\<exists>db' v w'. run_assignment_computation ex_it (reliable warden_sem) ex_hosts w db = (Ok ([host_of_request (ex_server ''b'')], v), w', db')
      \<and> \<lparr>ra_range = ex_low, ra_assignee = ''a''\<rparr> \<in> set (current_assignments w')
      \<and> \<not> round_due [host_of_request (ex_server ''b'')] w'"
proof -
  show "stream_drop \<lparr>us_sent_full_update = True, us_host_info = host_of_request (ex_server ''a'')\<rparr>
      (ex_warden ex_hosts [] [(4, ex_assigned)] 4) = w"
    by (simp add: w_def stream_drop_def notify_range_server_unavailable_def ex_warden_def ex_hosts_def same_server_def
        host_of_request_def ex_server_def)
  have new: "new_assignment ex_it ex_hosts w =
      Some ([ex_low], [\<lparr>ra_range = ex_low, ra_assignee = ''a''\<rparr>], [(''b'', [ex_high]), (''a'', [ex_low])])"
    unfolding w_def by code_simp
  have due: "round_due ex_hosts w"
    by (simp add: w_def round_due_def ex_warden_def ex_hosts_def server_difference_def same_server_def host_of_request_def ex_server_def)
  have v: "versions_ok (wa_current_version w) (wa_range_assignments w)" "wa_current_version w \<noteq> 0x7FFFFFFFFFFFFFFF"
    by (simp_all add: w_def ex_warden_def versions_ok_def)
  show "\<exists>db' v w'. run_assignment_computation ex_it (reliable warden_sem) ex_hosts w db = (Ok ([host_of_request (ex_server ''b'')], v), w', db')
      \<and> \<lparr>ra_range = ex_low, ra_assignee = ''a''\<rparr> \<in> set (current_assignments w')
      \<and> \<not> round_due [host_of_request (ex_server ''b'')] w'"
    by (rule round_reliable [OF ex_it_wf due v new, of db])
      (simp add: w_def ex_warden_def current_assignments_def flatten_assignments_def ex_it_def round_due_def
        server_difference_def same_server_def)
qed

text \<open>
  A registered server without ranges is not in the heap unless it is new: a range added later goes to the server that has
  one already.
\<close>

lemma idle_server_passed_over:
  "\<exists>m. new_assignment ex_it ex_hosts (ex_warden ex_hosts [ex_high] [(4, [\<lparr>ra_range = ex_low, ra_assignee = ''a''\<rparr>])] 4) =
     Some ([], [\<lparr>ra_range = ex_high, ra_assignee = ''a''\<rparr>], m)"
proof -
  have "map_option (\<lambda>(orphans, as, _). (orphans, as))
      (new_assignment ex_it ex_hosts (ex_warden ex_hosts [ex_high] [(4, [\<lparr>ra_range = ex_low, ra_assignee = ''a''\<rparr>])] 4)) =
    Some ([], [\<lparr>ra_range = ex_high, ra_assignee = ''a''\<rparr>])"
    by code_simp
  then show ?thesis by auto
qed

theorem warden_partition_witness:
  "\<exists>db. reachable warden_init (warden_step ex_parse_uuid) (ex_warden ex_hosts [] [(4, ex_assigned)] 4, ex_hosts, db) \<and>
     mset (map ra_range (current_assignments (ex_warden ex_hosts [] [(4, ex_assigned)] 4))) = mset [ex_low, ex_high]"
proof -
  obtain db where r: "reachable warden_init (warden_step ex_parse_uuid) (ex_warden ex_hosts [] [(4, ex_assigned)] 4, ex_hosts, db)"
    by (rule ex_assigned_reachable)
  then show ?thesis using warden_partition [OF r] by (auto simp: ex_warden_def)
qed

theorem warden_round_assigns_witness:
  "\<exists>db v w' db'. run_assignment_computation ex_it (reliable warden_sem) [] (ex_warden ex_hosts [ex_low, ex_high] [] 3) db =
     (Ok (ex_hosts, v), w', db') \<and> wa_unassigned_base_ranges w' = []"
proof -
  obtain db where r: "reachable warden_init (warden_step ex_parse_uuid) (ex_warden ex_hosts [ex_low, ex_high] [] 3, [], db)"
    by (rule ex_registered_reachable)
  have "wa_current_version (ex_warden ex_hosts [ex_low, ex_high] [] 3) \<noteq> 0x7FFFFFFFFFFFFFFF"
    "wa_ready_range_servers (ex_warden ex_hosts [ex_low, ex_high] [] 3) \<noteq> []"
    "wa_ready_range_servers (ex_warden ex_hosts [ex_low, ex_high] [] 3) = ex_hosts"
    by (simp_all add: ex_warden_def ex_hosts_def)
  then show ?thesis using warden_round_assigns [OF r ex_it_wf] by metis
qed

theorem warden_first_round_balanced_witness:
  "length (filter (\<lambda>a. ra_assignee a = ''a'') ex_assigned) \<le> length (filter (\<lambda>a. ra_assignee a = ''b'') ex_assigned) + 1"
proof -
  let ?a = "host_of_request (ex_server ''a'')" and ?b = "host_of_request (ex_server ''b'')"
  obtain db where r: "reachable warden_init (warden_step ex_parse_uuid) (ex_warden ex_hosts [ex_low, ex_high] [] 3, [], db)"
    by (rule ex_registered_reachable)
  obtain db' where run: "run_assignment_computation ex_it (reliable warden_sem) [] (ex_warden ex_hosts [ex_low, ex_high] [] 3) db =
     (Ok (ex_hosts, Some 4), ex_warden ex_hosts [] [(4, ex_assigned)] 4, db')"
    using ex_first_round by blast
  have h: "current_assignments (ex_warden ex_hosts [ex_low, ex_high] [] 3) = []"
    "wa_current_version (ex_warden ex_hosts [ex_low, ex_high] [] 3) \<noteq> 0x7FFFFFFFFFFFFFFF"
    "distinct (map (hid_name \<circ> identity) (wa_ready_range_servers (ex_warden ex_hosts [ex_low, ex_high] [] 3)))"
    "?a \<in> set ex_hosts" "?b \<in> set ex_hosts" "hid_name (identity ?a) = ''a''" "hid_name (identity ?b) = ''b''"
    "current_assignments (ex_warden ex_hosts [] [(4, ex_assigned)] 4) = ex_assigned"
    by (simp_all add: ex_warden_def current_assignments_def ex_hosts_def host_of_request_def ex_server_def)
  show ?thesis using warden_first_round_balanced [OF r ex_it_wf h(1-3) run h(4,5)] by (simp only: h)
qed

definition ex_ties :: ties where
  "ex_ties = (\<lambda>_ _. True, \<lambda>_ _. True)"

theorem new_range_loadable_witness:
  "\<exists>w' db'. read_base_ranges ex_parse_uuid ex_universe (reliable warden_sem)
      (warden_new 3 \<lparr>reg_cloud = None, reg_name = ''r''\<rparr>) ex_warden_db = (Ok (), w', db') \<and>
    fst (take_ownership_and_load_range (reliable (storage_sem ex_ties)) \<lparr>frid_keyspace_id = \<lparr>ksid_id = 1\<rparr>, frid_range_id = 6\<rparr> (wd_storage db'))
      = Ok \<lparr>ri_id = 6, ri_key_range = \<lparr>lower_bound_inclusive = Some [7], upper_bound_exclusive = None\<rparr>,
            ri_leader_sequence_number = 1, ri_epoch_lease = (0, 0)\<rparr>"
proof -
  obtain db' where read: "read_base_ranges ex_parse_uuid ex_universe (reliable warden_sem)
      (warden_new 3 \<lparr>reg_cloud = None, reg_name = ''r''\<rparr>) ex_warden_db = (Ok (), ex_warden [] [ex_low, ex_high] [] 3, db')"
    using ex_read by blast
  have b: "ex_high \<in> set (wa_base_ranges (ex_warden [] [ex_low, ex_high] [] 3)) -
      set (wa_base_ranges (warden_new 3 \<lparr>reg_cloud = None, reg_name = ''r''\<rparr>))" "leases ex_warden_db (br_id ex_high) = None"
    by (simp_all add: ex_warden_def warden_new_def ex_warden_db_def)
  note load = bspec [OF conjunct2 [OF new_range_loadable [OF executes_reliable ex_distinct_reports read, of ex_ties]] b(1), rule_format, OF b(2)]
  show ?thesis using load read by (auto simp: ex_base_range_def)
qed

theorem warden_servers_disjoint_witness:
  "\<exists>db u1 u2. reachable warden_init (warden_step ex_parse_uuid) (ex_warden ex_hosts [] [(4, ex_assigned)] 4, ex_hosts, db) \<and>
    get_assignment_update ex_print_uuid (host_of_request (ex_server ''a'')) 4 True (ex_warden ex_hosts [] [(4, ex_assigned)] 4) = Some u1 \<and>
    get_assignment_update ex_print_uuid (host_of_request (ex_server ''b'')) 4 True (ex_warden ex_hosts [] [(4, ex_assigned)] 4) = Some u2 \<and>
    frid_range_id ` fst (snd (process_warden_update ex_parse_uuid sorted_ids True u1 {})) \<inter>
      frid_range_id ` fst (snd (process_warden_update ex_parse_uuid sorted_ids True u2 {})) = {}"
proof -
  let ?w = "ex_warden ex_hosts [] [(4, ex_assigned)] 4"
  let ?a = "host_of_request (ex_server ''a'')" and ?b = "host_of_request (ex_server ''b'')"
  obtain db where r: "reachable warden_init (warden_step ex_parse_uuid) (?w, ex_hosts, db)"
    by (rule ex_assigned_reachable)
  have v: "wa_current_version ?w = 4" "hid_name (identity ?a) \<noteq> hid_name (identity ?b)"
    by (simp_all add: ex_warden_def host_of_request_def ex_server_def)
  have "\<exists>u. get_assignment_update ex_print_uuid h (wa_current_version ?w) True ?w = Some u" for h
    by (simp add: get_assignment_update_def ex_warden_def)
  then obtain u1 u2 where u: "get_assignment_update ex_print_uuid ?a (wa_current_version ?w) True ?w = Some u1"
    "get_assignment_update ex_print_uuid ?b (wa_current_version ?w) True ?w = Some u2" by metis
  obtain r1 A1 s1 r2 A2 s2 where p: "process_warden_update ex_parse_uuid sorted_ids True u1 {} = (r1, A1, s1)"
    "process_warden_update ex_parse_uuid sorted_ids True u2 {} = (r2, A2, s2)" by (metis prod.exhaust)
  have "frid_range_id ` A1 \<inter> frid_range_id ` A2 = {}"
    using warden_servers_disjoint [OF r ex_uuid_text sorted_ids_enumerates finite.emptyI finite.emptyI
        u p] v(2) by blast
  then show ?thesis using r u [unfolded v(1)] p by auto
qed

end
