(* ===== verification/Mem_Table.thy ===== *)
theory Mem_Table
  imports RS_Messages
begin

text \<open>
  The range cache (rangeserver/src/cache.rs, rangeserver/src/cache/memtabledb.rs): a ring of tables in memory, of
  which one is mutable. Each table keeps its entries in a skip list of the \<^verbatim>\<open>skiplist\<close> crate,
  whose operations are arguments; what is documented of them is \<open>skiplist_ok\<close>. The calls of the garbage
  collection callback are returned as a list.
\<close>

section \<open>Definitions\<close>

subsection \<open>Entries\<close>

text \<open>Entries are compared by key, and for a key from the newest epoch to the oldest.\<close>

datatype ordering = Less | Equal | Greater

definition ord_cmp :: "'a::linorder \<Rightarrow> 'a \<Rightarrow> ordering" where
  "ord_cmp x y = (if x < y then Less else if x = y then Equal else Greater)"

datatype entry_key = EntryKey (ek_key: bytes) (ek_epoch: u64)

definition entry_cmp :: "entry_key \<Rightarrow> entry_key \<Rightarrow> ordering" where
  "entry_cmp a b =
     (let key_comp = ord_cmp (ek_key a) (ek_key b)
      in case key_comp of
           Less \<Rightarrow> key_comp
         | Greater \<Rightarrow> key_comp
         | Equal \<Rightarrow> ord_cmp (ek_epoch b) (ek_epoch a))"

text \<open>The comparison is a linear order.\<close>

lemma entry_cmp_Less:
  "entry_cmp a b = Less \<longleftrightarrow> ek_key a < ek_key b \<or> ek_key a = ek_key b \<and> ek_epoch b < ek_epoch a"
  by (auto simp: entry_cmp_def ord_cmp_def)

lemma entry_cmp_not_Greater:
  "entry_cmp a b \<noteq> Greater \<longleftrightarrow> ek_key a < ek_key b \<or> ek_key a = ek_key b \<and> ek_epoch b \<le> ek_epoch a"
  by (auto simp: entry_cmp_def ord_cmp_def)

instantiation entry_key :: linorder
begin

definition less_eq_entry_key :: "entry_key \<Rightarrow> entry_key \<Rightarrow> bool" where
  "a \<le> b \<longleftrightarrow> entry_cmp a b \<noteq> Greater"

definition less_entry_key :: "entry_key \<Rightarrow> entry_key \<Rightarrow> bool" where
  "a < b \<longleftrightarrow> entry_cmp a b = Less"

instance
  by standard (auto simp: less_eq_entry_key_def less_entry_key_def entry_cmp_Less entry_cmp_not_Greater entry_key.expand)

end

lemmas entry_key_le = less_eq_entry_key_def [unfolded entry_cmp_not_Greater]

record memtable_entry =
  me_key :: bytes
  me_val :: bytes
  me_epoch :: u64
  me_deleted :: bool

definition me_cmp :: "memtable_entry \<Rightarrow> entry_key" where
  "me_cmp e = EntryKey (me_key e) (me_epoch e)"

subsection \<open>Skip lists\<close>

record 's skiplist_ops =
  sl_new :: 's
  sl_insert :: "memtable_entry \<Rightarrow> 's \<Rightarrow> 's"
  sl_lower_bound :: "memtable_entry \<Rightarrow> 's \<Rightarrow> memtable_entry option"
  sl_clear :: "'s \<Rightarrow> 's"

subsection \<open>Tables\<close>

datatype memtable_status = FLUSHED | MUTABLE | IMMUTABLE

record 's memtable =
  mt_id :: nat
  mt_size_in_bytes :: u64
  mt_status :: memtable_status
  mt_latest_epoch :: u64
  mt_oldest_epoch :: u64
  mt_entries :: 's

record cache_options =
  opt_path :: string
  opt_num_write_buffers :: nat
  opt_write_buffer_size :: u64

record 's memtable_db =
  md_options :: cache_options
  md_memtables :: "'s memtable list"
  md_mut_idx :: nat
  md_latest_epoch :: u64
  md_gc_callback :: "nat option"

definition default_options :: cache_options where
  "default_options = \<lparr>opt_path = [], opt_num_write_buffers = 2, opt_write_buffer_size = push_bit 29 2\<rparr>"

text \<open>Access by index, which panics out of range.\<close>

definition table_at :: "'s memtable_db \<Rightarrow> nat \<Rightarrow> 's memtable option" where
  "table_at db i = (if i < length (md_memtables db) then Some (md_memtables db ! i) else None)"

definition set_table :: "nat \<Rightarrow> 's memtable \<Rightarrow> 's memtable_db \<Rightarrow> 's memtable_db" where
  "set_table i t db = db\<lparr>md_memtables := (md_memtables db)[i := t]\<rparr>"

definition memtable_db_new :: "'s skiplist_ops \<Rightarrow> cache_options \<Rightarrow> (cache_error, 's memtable_db) outcome" where
  "memtable_db_new ops options =
     (let tables = map (\<lambda>i. \<lparr>mt_id = i, mt_size_in_bytes = 0, mt_status = FLUSHED, mt_latest_epoch = 0,
                            mt_oldest_epoch = 0, mt_entries = sl_new ops\<rparr>) [0..<opt_num_write_buffers options];
          db = \<lparr>md_options = options, md_memtables = tables, md_mut_idx = 0, md_latest_epoch = 0, md_gc_callback = None\<rparr>
      in case table_at db 0 of
           None \<Rightarrow> Panic
         | Some t \<Rightarrow> Ok (set_table 0 (t\<lparr>mt_status := MUTABLE\<rparr>) db))"

subsection \<open>Writing\<close>

definition entry_size :: "bytes \<Rightarrow> nat \<Rightarrow> u64" where
  "entry_size key val_len = of_nat (length key) + of_nat val_len + 8 + 1"

text \<open>Making the next table of the ring the mutable one; the calls of the callback.\<close>

definition switch_table :: "u64 \<Rightarrow> 's memtable_db \<Rightarrow> (cache_error, unit) outcome \<times> 's memtable_db \<times> (nat \<times> u64) list" where
  "switch_table epoch db =
     (let old_id = md_mut_idx db; new_id = (md_mut_idx db + 1) mod opt_num_write_buffers (md_options db)
      in case (table_at db old_id, table_at db new_id) of
           (Some old, Some new) \<Rightarrow>
             (if mt_status new \<noteq> FLUSHED then (Err CacheIsFullError, db, [])
              else (Ok (), set_table new_id (new\<lparr>mt_status := MUTABLE, mt_oldest_epoch := epoch\<rparr>)
                             (set_table old_id (old\<lparr>mt_status := IMMUTABLE\<rparr>) (db\<lparr>md_mut_idx := new_id\<rparr>)),
                    case md_gc_callback db of Some cb \<Rightarrow> [(cb, mt_latest_epoch new)] | None \<Rightarrow> []))
         | _ \<Rightarrow> (Panic, db, []))"

definition insert_entry :: "'s skiplist_ops \<Rightarrow> memtable_entry \<Rightarrow> u64 \<Rightarrow> 's memtable_db \<Rightarrow> 's memtable_db" where
  "insert_entry ops entry sz db =
     (let t = md_memtables db ! md_mut_idx db
      in (set_table (md_mut_idx db)
           (t\<lparr>mt_entries := sl_insert ops entry (mt_entries t), mt_size_in_bytes := mt_size_in_bytes t + sz,
              mt_latest_epoch := max (mt_latest_epoch t) (me_epoch entry)\<rparr>) db)\<lparr>md_latest_epoch := me_epoch entry\<rparr>)"

definition upsert_or_delete ::
  "'s skiplist_ops \<Rightarrow> bytes \<Rightarrow> u64 \<Rightarrow> bool \<Rightarrow> bytes option \<Rightarrow> 's memtable_db
     \<Rightarrow> (cache_error, unit) outcome \<times> 's memtable_db \<times> (nat \<times> u64) list" where
  "upsert_or_delete ops key epoch deleted val db =
     (if \<not> md_mut_idx db < opt_num_write_buffers (md_options db) \<or> (val = None \<and> \<not> deleted) then (Panic, db, [])
      else
        (let sz = entry_size key (case val of Some v \<Rightarrow> length v | None \<Rightarrow> 0);
             entry = \<lparr>me_key = key, me_val = (case val of Some v \<Rightarrow> v | None \<Rightarrow> []), me_epoch = epoch, me_deleted = deleted\<rparr>
         in case table_at db (md_mut_idx db) of
              None \<Rightarrow> (Panic, db, [])
            | Some t \<Rightarrow>
                (if mt_status t \<noteq> MUTABLE then (Panic, db, [])
                 else if mt_size_in_bytes t + sz > opt_write_buffer_size (md_options db)
                 then (case switch_table epoch db of
                         (Ok _, db', calls) \<Rightarrow> (Ok (), insert_entry ops entry sz db', calls)
                       | (Err e, db', calls) \<Rightarrow> (Err e, db', calls)
                       | (Panic, db', calls) \<Rightarrow> (Panic, db', calls))
                 else (Ok (), insert_entry ops entry sz db, []))))"

definition mt_upsert where
  "mt_upsert ops key val epoch db = upsert_or_delete ops key epoch False (Some val) db"

definition mt_delete where
  "mt_delete ops key epoch db = upsert_or_delete ops key epoch True None db"

subsection \<open>Reading\<close>

text \<open>The \<open>i\<close>-th table of the ring, from the mutable one backwards.\<close>

definition ring_index :: "'s memtable_db \<Rightarrow> nat \<Rightarrow> nat" where
  "ring_index db i = (md_mut_idx db + opt_num_write_buffers (md_options db) - i) mod opt_num_write_buffers (md_options db)"

fun get_loop ::
  "'s skiplist_ops \<Rightarrow> 's memtable_db \<Rightarrow> bytes \<Rightarrow> u64 option \<Rightarrow> u64 \<Rightarrow> nat list \<Rightarrow> (cache_error, bytes option \<times> u64) outcome" where
  "get_loop ops db key epoch e [] = Ok (None, case epoch of Some x \<Rightarrow> x | None \<Rightarrow> 0)"
| "get_loop ops db key epoch e (i # js) =
     (case table_at db (ring_index db i) of
        None \<Rightarrow> Panic
      | Some t \<Rightarrow>
          (if mt_status t = FLUSHED then Ok (None, case epoch of Some x \<Rightarrow> x | None \<Rightarrow> 0)
           else if mt_oldest_epoch t \<le> e
           then (case sl_lower_bound ops \<lparr>me_key = key, me_val = [], me_epoch = e, me_deleted = False\<rparr> (mt_entries t) of
                   Some entry \<Rightarrow>
                     (if me_key entry = key
                      then Ok (if me_deleted entry then (None, case epoch of Some x \<Rightarrow> x | None \<Rightarrow> 0)
                               else (Some (me_val entry), me_epoch entry))
                      else get_loop ops db key epoch e js)
                 | None \<Rightarrow> get_loop ops db key epoch e js)
           else get_loop ops db key epoch e js))"

definition mt_get ::
  "'s skiplist_ops \<Rightarrow> bytes \<Rightarrow> u64 option \<Rightarrow> 's memtable_db \<Rightarrow> (cache_error, bytes option \<times> u64) outcome" where
  "mt_get ops key epoch db =
     (if \<not> md_mut_idx db < opt_num_write_buffers (md_options db) then Panic
      else get_loop ops db key epoch
             (case epoch of Some e \<Rightarrow> min e (md_latest_epoch db) | None \<Rightarrow> md_latest_epoch db)
             [0..<opt_num_write_buffers (md_options db)])"

subsection \<open>Clearing\<close>

definition clear_table :: "'s skiplist_ops \<Rightarrow> u64 \<Rightarrow> 's memtable \<Rightarrow> 's memtable" where
  "clear_table ops epoch t =
     (if mt_status t = IMMUTABLE \<and> epoch \<ge> mt_latest_epoch t
      then t\<lparr>mt_status := FLUSHED, mt_size_in_bytes := 0, mt_entries := sl_clear ops (mt_entries t)\<rparr> else t)"

fun clear_loop :: "'s skiplist_ops \<Rightarrow> u64 \<Rightarrow> nat list \<Rightarrow> 's memtable_db \<Rightarrow> (cache_error, unit) outcome \<times> 's memtable_db" where
  "clear_loop ops epoch [] db = (Ok (), db)"
| "clear_loop ops epoch (i # js) db =
     (case table_at db (ring_index db i) of
        None \<Rightarrow> (Panic, db)
      | Some t \<Rightarrow> clear_loop ops epoch js (set_table (ring_index db i) (clear_table ops epoch t) db))"

definition mt_clear :: "'s skiplist_ops \<Rightarrow> u64 \<Rightarrow> 's memtable_db \<Rightarrow> (cache_error, unit) outcome \<times> 's memtable_db" where
  "mt_clear ops epoch db =
     (if \<not> md_mut_idx db < opt_num_write_buffers (md_options db) then (Panic, db)
      else clear_loop ops epoch [1..<opt_num_write_buffers (md_options db)] db)"

definition register_gc_callback :: "nat \<Rightarrow> 's memtable_db \<Rightarrow> 's memtable_db" where
  "register_gc_callback cb db = db\<lparr>md_gc_callback := Some cb\<rparr>"

subsection \<open>What is documented of skip lists\<close>

text \<open>
  \<open>elems\<close> are the entries of a skip list. An insertion adds one; a lower bound is a least entry that is not less than
  the given one. Which of several entries that compare equal is found is not specified.
\<close>

definition skiplist_ok :: "'s skiplist_ops \<Rightarrow> ('s \<Rightarrow> memtable_entry set) \<Rightarrow> bool" where
  "skiplist_ok ops elems \<longleftrightarrow> elems (sl_new ops) = {} \<and> (\<forall>s. elems (sl_clear ops s) = {}) \<and>
     (\<forall>e s. elems (sl_insert ops e s) = insert e (elems s)) \<and>
     (\<forall>x s. case sl_lower_bound ops x s of
        None \<Rightarrow> (\<forall>e \<in> elems s. me_cmp e < me_cmp x)
      | Some b \<Rightarrow> b \<in> elems s \<and> me_cmp x \<le> me_cmp b \<and> (\<forall>e \<in> elems s. me_cmp x \<le> me_cmp e \<longrightarrow> me_cmp b \<le> me_cmp e))"

subsection \<open>The ring of tables, and histories\<close>

definition ring :: "'s memtable_db \<Rightarrow> 's memtable list" where
  "ring db = map (\<lambda>i. md_memtables db ! ring_index db i) [0..<opt_num_write_buffers (md_options db)]"

definition wf_ring :: "'s memtable_db \<Rightarrow> bool" where
  "wf_ring db \<longleftrightarrow> length (md_memtables db) = opt_num_write_buffers (md_options db) \<and>
     md_mut_idx db < opt_num_write_buffers (md_options db)"

text \<open>The answer to a read, from an entry.\<close>

definition answer_of :: "u64 option \<Rightarrow> memtable_entry \<Rightarrow> bytes option \<times> u64" where
  "answer_of epoch w = (if me_deleted w then (None, case epoch of Some x \<Rightarrow> x | None \<Rightarrow> 0) else (Some (me_val w), me_epoch w))"

text \<open>The writes of a key that a read at an epoch may return.\<close>

definition visible :: "bytes \<Rightarrow> u64 option \<Rightarrow> memtable_entry set \<Rightarrow> memtable_entry set" where
  "visible key epoch H = {w \<in> H. me_key w = key \<and> (case epoch of None \<Rightarrow> True | Some e \<Rightarrow> me_epoch w \<le> e)}"

text \<open>
  The cache with the writes it accepted and the epochs it was cleared up to. The single writer writes at epochs that do
  not decrease.
\<close>

type_synonym 's cache_history = "'s memtable_db \<times> memtable_entry set \<times> u64 set"

definition accepted :: "(cache_error, unit) outcome \<Rightarrow> memtable_entry \<Rightarrow> memtable_entry set \<Rightarrow> memtable_entry set" where
  "accepted r w H = (if r = Ok () then insert w H else H)"

definition cache_init :: "'s skiplist_ops \<Rightarrow> 's cache_history \<Rightarrow> bool" where
  "cache_init ops s \<longleftrightarrow> (\<exists>options db. memtable_db_new ops options = Ok db \<and> s = (db, {}, {}))"

inductive cache_step :: "'s skiplist_ops \<Rightarrow> 's cache_history \<Rightarrow> 's cache_history \<Rightarrow> bool" for ops where
  cs_upsert: "mt_upsert ops key val epoch db = (r, db', calls) \<Longrightarrow> md_latest_epoch db \<le> epoch \<Longrightarrow>
     cache_step ops (db, H, C) (db', accepted r \<lparr>me_key = key, me_val = val, me_epoch = epoch, me_deleted = False\<rparr> H, C)"
| cs_delete: "mt_delete ops key epoch db = (r, db', calls) \<Longrightarrow> md_latest_epoch db \<le> epoch \<Longrightarrow>
     cache_step ops (db, H, C) (db', accepted r \<lparr>me_key = key, me_val = [], me_epoch = epoch, me_deleted = True\<rparr> H, C)"
| cs_clear: "mt_clear ops epoch db = (r, db') \<Longrightarrow> cache_step ops (db, H, C) (db', H, insert epoch C)"
| cs_callback: "cache_step ops (db, H, C) (register_gc_callback cb db, H, C)"

section \<open>Lemmas\<close>

subsection \<open>The ring\<close>

lemma ring_index_eq:
  assumes "wf_ring db" "i < opt_num_write_buffers (md_options db)"
  shows "ring_index db i = (if i \<le> md_mut_idx db then md_mut_idx db - i
     else md_mut_idx db + opt_num_write_buffers (md_options db) - i)"
proof -
  let ?n = "opt_num_write_buffers (md_options db)" and ?m = "md_mut_idx db"
  have "?m < ?n" using assms(1) by (simp add: wf_ring_def)
  then show ?thesis
    using assms(2) mod_add_self2 [of "?m - i" ?n] unfolding ring_index_def
    by (cases "i \<le> ?m") (simp_all add: add.commute)
qed

lemma ring_index_less: "wf_ring db \<Longrightarrow> ring_index db i < opt_num_write_buffers (md_options db)"
  by (simp add: ring_index_def wf_ring_def)

lemma ring_index_inj:
  assumes "wf_ring db" "i < opt_num_write_buffers (md_options db)" "j < opt_num_write_buffers (md_options db)"
  shows "ring_index db i = ring_index db j \<longleftrightarrow> i = j"
  using assms by (auto simp: ring_index_eq wf_ring_def split: if_splits)

lemma ring_length [simp]: "length (ring db) = opt_num_write_buffers (md_options db)"
  by (simp add: ring_def)

lemma ring_nth: "i < opt_num_write_buffers (md_options db) \<Longrightarrow> ring db ! i = md_memtables db ! ring_index db i"
  by (simp add: ring_def)

lemma table_at_ring:
  "wf_ring db \<Longrightarrow> i < opt_num_write_buffers (md_options db) \<Longrightarrow> table_at db (ring_index db i) = Some (ring db ! i)"
  using ring_index_less [of db i] by (simp add: table_at_def ring_nth wf_ring_def)

lemma set_table_simps [simp]:
  "md_memtables (set_table i t db) = (md_memtables db)[i := t]" "md_gc_callback (set_table i t db) = md_gc_callback db"
  "md_options (set_table i t db) = md_options db" "md_mut_idx (set_table i t db) = md_mut_idx db"
  "md_latest_epoch (set_table i t db) = md_latest_epoch db" "ring_index (set_table i t db) = ring_index db"
  "wf_ring (set_table i t db) = wf_ring db"
  by (auto simp: set_table_def ring_index_def wf_ring_def fun_eq_iff)

lemma ring_set_table:
  assumes "wf_ring db" "i < opt_num_write_buffers (md_options db)"
  shows "ring (set_table (ring_index db i) t db) = (ring db)[i := t]"
proof (rule nth_equalityI)
  fix j
  assume "j < length (ring (set_table (ring_index db i) t db))"
  then have j: "j < opt_num_write_buffers (md_options db)" by simp
  then show "ring (set_table (ring_index db i) t db) ! j = (ring db)[i := t] ! j"
    using assms ring_index_inj [OF assms j] ring_index_less [OF assms(1), of i]
    by (cases "i = j") (simp_all add: ring_nth wf_ring_def)
qed simp

lemma ring_mut: "wf_ring db \<Longrightarrow> ring_index db 0 = md_mut_idx db"
  by (subst ring_index_eq) (auto simp: wf_ring_def)

lemma ring_cong:
  "md_memtables db = md_memtables db' \<Longrightarrow> md_options db = md_options db' \<Longrightarrow> md_mut_idx db = md_mut_idx db' \<Longrightarrow> ring db = ring db'"
  by (simp add: ring_def ring_index_def)

lemma ring_insert_entry:
  assumes "wf_ring db"
  shows "ring (insert_entry ops entry sz db) = (ring db)[0 := (ring db ! 0)\<lparr>mt_entries := sl_insert ops entry (mt_entries (ring db ! 0)),
      mt_size_in_bytes := mt_size_in_bytes (ring db ! 0) + sz,
      mt_latest_epoch := max (mt_latest_epoch (ring db ! 0)) (me_epoch entry)\<rparr>]"
    and "wf_ring (insert_entry ops entry sz db)" "md_latest_epoch (insert_entry ops entry sz db) = me_epoch entry"
proof -
  let ?t = "(ring db ! 0)\<lparr>mt_entries := sl_insert ops entry (mt_entries (ring db ! 0)),
      mt_size_in_bytes := mt_size_in_bytes (ring db ! 0) + sz,
      mt_latest_epoch := max (mt_latest_epoch (ring db ! 0)) (me_epoch entry)\<rparr>"
  have n: "0 < opt_num_write_buffers (md_options db)" using assms by (auto simp: wf_ring_def)
  have eq: "insert_entry ops entry sz db = (set_table (ring_index db 0) ?t db)\<lparr>md_latest_epoch := me_epoch entry\<rparr>"
    using ring_nth [OF n] ring_mut [OF assms] by (simp add: insert_entry_def Let_def)
  show "ring (insert_entry ops entry sz db) = (ring db)[0 := ?t]"
    unfolding eq ring_set_table [OF assms n, symmetric] by (rule ring_cong) simp_all
  show "wf_ring (insert_entry ops entry sz db)" using assms unfolding eq by (simp add: wf_ring_def set_table_def)
  show "md_latest_epoch (insert_entry ops entry sz db) = me_epoch entry" unfolding eq by simp
qed

lemma next_index:
  assumes "wf_ring db"
  shows "(md_mut_idx db + 1) mod opt_num_write_buffers (md_options db) = ring_index db (opt_num_write_buffers (md_options db) - 1)"
proof -
  have "md_mut_idx db + opt_num_write_buffers (md_options db) - (opt_num_write_buffers (md_options db) - 1) = md_mut_idx db + 1"
    using assms unfolding wf_ring_def by linarith
  then show ?thesis unfolding ring_index_def by (rule arg_cong [OF sym])
qed

text \<open>Making the next table mutable turns the ring by one: its last table comes first.\<close>

lemma ring_turn:
  assumes "wf_ring db"
  defines "db' \<equiv> db\<lparr>md_mut_idx := (md_mut_idx db + 1) mod opt_num_write_buffers (md_options db)\<rparr>"
  shows "wf_ring db'" "ring db' = last (ring db) # butlast (ring db)"
proof -
  let ?n = "opt_num_write_buffers (md_options db)"
  show wf: "wf_ring db'" using assms by (simp add: wf_ring_def)
  have n: "md_mut_idx db < ?n" using assms by (simp add: wf_ring_def)
  have ne: "ring db \<noteq> []" using n by (metis length_0_conv less_nat_zero_code ring_length)
  have zero: "ring_index db' 0 = ring_index db (?n - 1)"
    using ring_mut [OF wf] next_index [OF assms(1)] by (simp add: db'_def)
  have suc: "ring_index db' (Suc i) = ring_index db i" if "Suc i < ?n" for i
  proof -
    have "md_mut_idx db' = (if md_mut_idx db + 1 = ?n then 0 else md_mut_idx db + 1)" using n by (simp add: db'_def)
    then show ?thesis using that n ring_index_eq [OF wf, of "Suc i"] ring_index_eq [OF assms(1), of i]
      by (auto simp: db'_def split: if_splits)
  qed
  show "ring db' = last (ring db) # butlast (ring db)"
  proof (rule nth_equalityI)
    show "length (ring db') = length (last (ring db) # butlast (ring db))" using n by (simp add: db'_def)
    fix i
    assume "i < length (ring db')"
    then have i: "i < ?n" by (simp add: db'_def)
    show "ring db' ! i = (last (ring db) # butlast (ring db)) ! i"
    proof (cases i)
      case 0
      then show ?thesis using i ne zero by (simp add: ring_nth last_conv_nth db'_def)
    next
      case (Suc j)
      then show ?thesis using i suc [of j] by (simp add: ring_nth nth_butlast db'_def)
    qed
  qed
qed

subsection \<open>The operations on the ring\<close>

fun get_tables :: "'s skiplist_ops \<Rightarrow> bytes \<Rightarrow> u64 option \<Rightarrow> u64 \<Rightarrow> 's memtable list \<Rightarrow> bytes option \<times> u64" where
  "get_tables ops key epoch e [] = (None, case epoch of Some x \<Rightarrow> x | None \<Rightarrow> 0)"
| "get_tables ops key epoch e (t # ts) =
     (if mt_status t = FLUSHED then (None, case epoch of Some x \<Rightarrow> x | None \<Rightarrow> 0)
      else if mt_oldest_epoch t \<le> e
      then (case sl_lower_bound ops \<lparr>me_key = key, me_val = [], me_epoch = e, me_deleted = False\<rparr> (mt_entries t) of
              Some entry \<Rightarrow> (if me_key entry = key then answer_of epoch entry else get_tables ops key epoch e ts)
            | None \<Rightarrow> get_tables ops key epoch e ts)
      else get_tables ops key epoch e ts)"

lemma get_loop_tables:
  assumes "wf_ring db"
  shows "set js \<subseteq> {..<opt_num_write_buffers (md_options db)} \<Longrightarrow>
    get_loop ops db key epoch e js = Ok (get_tables ops key epoch e (map ((!) (ring db)) js))"
proof (induction js)
  case (Cons i js)
  then show ?case
    using table_at_ring [OF assms, of i] by (auto simp: answer_of_def split: option.splits)
qed simp

lemma mt_get_ring:
  assumes "wf_ring db"
  shows "mt_get ops key epoch db = Ok (get_tables ops key epoch
    (case epoch of Some e \<Rightarrow> min e (md_latest_epoch db) | None \<Rightarrow> md_latest_epoch db) (ring db))"
proof -
  have "map ((!) (ring db)) [0..<opt_num_write_buffers (md_options db)] = ring db"
    using map_nth [of "ring db"] by simp
  then show ?thesis
    using assms get_loop_tables [OF assms, of "[0..<opt_num_write_buffers (md_options db)]"]
    by (simp add: mt_get_def wf_ring_def lessThan_atLeast0)
qed

lemma clear_loop_ring:
  "wf_ring db \<Longrightarrow> distinct js \<Longrightarrow> set js \<subseteq> {..<opt_num_write_buffers (md_options db)} \<Longrightarrow>
   clear_loop ops epoch js db = (r, db') \<Longrightarrow>
     r = Ok () \<and> wf_ring db' \<and> md_options db' = md_options db \<and> md_latest_epoch db' = md_latest_epoch db \<and>
     (\<forall>i < opt_num_write_buffers (md_options db).
        ring db' ! i = (if i \<in> set js then clear_table ops epoch (ring db ! i) else ring db ! i))"
proof (induction js arbitrary: db)
  case (Cons j js)
  let ?db = "set_table (ring_index db j) (clear_table ops epoch (ring db ! j)) db"
  have j: "j < opt_num_write_buffers (md_options db)" using Cons.prems(3) by simp
  have "clear_loop ops epoch js ?db = (r, db')" using Cons.prems(4) table_at_ring [OF Cons.prems(1) j] by simp
  note ih = Cons.IH [OF _ _ _ this]
  have "ring ?db = (ring db)[j := clear_table ops epoch (ring db ! j)]" using ring_set_table [OF Cons.prems(1) j] .
  then show ?case using ih Cons.prems by (auto simp: nth_list_update)
qed simp

lemma mt_clear_ring:
  assumes "wf_ring db" "mt_clear ops epoch db = (r, db')"
  shows "r = Ok ()" "wf_ring db'" "md_latest_epoch db' = md_latest_epoch db"
    and "ring db = t # ts \<Longrightarrow> ring db' = t # map (clear_table ops epoch) ts"
proof -
  let ?n = "opt_num_write_buffers (md_options db)"
  have run: "clear_loop ops epoch [1..<?n] db = (r, db')" using assms by (simp add: mt_clear_def wf_ring_def)
  have sub: "set [1..<?n] \<subseteq> {..<?n}" by auto
  note loop = clear_loop_ring [OF assms(1) distinct_upt sub run]
  have c: "r = Ok ()" "wf_ring db'" "md_options db' = md_options db" "md_latest_epoch db' = md_latest_epoch db"
    "\<And>i. i < ?n \<Longrightarrow> ring db' ! i = (if 0 < i then clear_table ops epoch (ring db ! i) else ring db ! i)"
    using loop by auto
  then show "r = Ok ()" "wf_ring db'" "md_latest_epoch db' = md_latest_epoch db" by simp_all
  show "ring db' = t # map (clear_table ops epoch) ts" if r: "ring db = t # ts"
  proof (rule nth_equalityI)
    have len: "?n = Suc (length ts)" using arg_cong [OF r, of length] by simp
    then show "length (ring db') = length (t # map (clear_table ops epoch) ts)" using c(3) by simp
    fix i
    assume "i < length (ring db')"
    then have "i < ?n" using c(3) by simp
    then show "ring db' ! i = (t # map (clear_table ops epoch) ts) ! i"
      using c(5) [of i] r len by (cases i) auto
  qed
qed

lemma switch_table_ring:
  assumes "wf_ring db" "switch_table epoch db = (r, db', calls)" "ring db = t # ts" "mt_status t \<noteq> FLUSHED"
  shows "mt_status (last (t # ts)) \<noteq> FLUSHED \<Longrightarrow> r = Err CacheIsFullError \<and> db' = db"
    and "mt_status (last (t # ts)) = FLUSHED \<Longrightarrow> r = Ok () \<and> wf_ring db' \<and> md_latest_epoch db' = md_latest_epoch db \<and>
      ring db' = (last ts)\<lparr>mt_status := MUTABLE, mt_oldest_epoch := epoch\<rparr> # t\<lparr>mt_status := IMMUTABLE\<rparr> # butlast ts"
proof -
  let ?n = "opt_num_write_buffers (md_options db)"
  let ?new = "(md_mut_idx db + 1) mod ?n"
  let ?db1 = "db\<lparr>md_mut_idx := ?new\<rparr>"
  have len: "?n = Suc (length ts)" using arg_cong [OF assms(3), of length] by simp
  have old: "table_at db (md_mut_idx db) = Some t"
    using table_at_ring [OF assms(1), of 0] ring_mut [OF assms(1)] assms(3) len by simp
  have new: "table_at db ?new = Some (last (t # ts))"
    using table_at_ring [OF assms(1), of "?n - 1"] next_index [OF assms(1)] assms(3) len
    by (simp add: last_conv_nth)
  show "mt_status (last (t # ts)) \<noteq> FLUSHED \<Longrightarrow> r = Err CacheIsFullError \<and> db' = db"
    using assms(2) old new by (auto simp: switch_table_def)
  assume flushed: "mt_status (last (t # ts)) = FLUSHED"
  then have ts: "ts \<noteq> []" using assms(4) by auto
  then have n: "1 < ?n" using len by (cases ts) auto
  note turn = ring_turn [OF assms(1)]
  have opt: "md_options ?db1 = md_options db" by simp
  have i0: "ring_index ?db1 0 = ?new" using ring_mut [OF turn(1)] by simp
  have r1: "ring ?db1 = last ts # t # butlast ts" using turn(2) assms(3) ts by simp
  have i1: "ring_index ?db1 1 = md_mut_idx db"
  proof -
    have "md_mut_idx db < ?n" using assms(1) by (simp add: wf_ring_def)
    then show ?thesis using ring_index_eq [OF turn(1), of 1] n by (auto simp: mod_if)
  qed
  have "db' = set_table (ring_index ?db1 0) ((last ts)\<lparr>mt_status := MUTABLE, mt_oldest_epoch := epoch\<rparr>)
      (set_table (ring_index ?db1 1) (t\<lparr>mt_status := IMMUTABLE\<rparr>) ?db1)" and "r = Ok ()"
    using assms(2) old new flushed ts unfolding i0 i1 by (simp_all add: switch_table_def Let_def)
  moreover have "ring (set_table (ring_index ?db1 0) a (set_table (ring_index ?db1 1) b ?db1)) = (ring ?db1)[1 := b, 0 := a]" for a b
    using ring_set_table [OF turn(1), of 1 b] ring_set_table [of "set_table (ring_index ?db1 1) b ?db1" 0 a] turn(1) n by simp
  ultimately show "r = Ok () \<and> wf_ring db' \<and> md_latest_epoch db' = md_latest_epoch db \<and>
      ring db' = (last ts)\<lparr>mt_status := MUTABLE, mt_oldest_epoch := epoch\<rparr> # t\<lparr>mt_status := IMMUTABLE\<rparr> # butlast ts"
    using r1 turn(1) by simp
qed

subsection \<open>The invariant\<close>

text \<open>
  Newest first, the ring is a mutable table, immutable ones and flushed ones. Every entry of a live table has an epoch between
  the bounds of the table, and the bounds of different tables do not overlap.
\<close>

definition table_ok :: "('s \<Rightarrow> memtable_entry set) \<Rightarrow> u64 \<Rightarrow> 's memtable \<Rightarrow> bool" where
  "table_ok elems latest t \<longleftrightarrow> mt_oldest_epoch t \<le> mt_latest_epoch t \<and> mt_latest_epoch t \<le> latest \<and>
     (\<forall>e \<in> elems (mt_entries t). mt_oldest_epoch t \<le> me_epoch e \<and> me_epoch e \<le> mt_latest_epoch t)"

definition older :: "'s memtable \<Rightarrow> 's memtable \<Rightarrow> bool" where
  "older newer t \<longleftrightarrow> mt_latest_epoch t \<le> mt_oldest_epoch newer"

definition flushed_ok :: "('s \<Rightarrow> memtable_entry set) \<Rightarrow> u64 \<Rightarrow> 's memtable \<Rightarrow> bool" where
  "flushed_ok elems latest t \<longleftrightarrow> mt_status t = FLUSHED \<and> elems (mt_entries t) = {} \<and> mt_latest_epoch t \<le> latest"

definition ring_ok ::
  "('s \<Rightarrow> memtable_entry set) \<Rightarrow> u64 \<Rightarrow> 's memtable \<Rightarrow> 's memtable list \<Rightarrow> 's memtable list \<Rightarrow> bool" where
  "ring_ok elems latest t live dead \<longleftrightarrow> mt_status t = MUTABLE \<and> (\<forall>u \<in> set live. mt_status u = IMMUTABLE) \<and>
     (\<forall>u \<in> set (t # live). table_ok elems latest u) \<and> sorted_wrt older (t # live) \<and> (\<forall>u \<in> set dead. flushed_ok elems latest u)"

definition entries_in :: "('s \<Rightarrow> memtable_entry set) \<Rightarrow> 's memtable list \<Rightarrow> memtable_entry set" where
  "entries_in elems ts = (\<Union>t \<in> set ts. elems (mt_entries t))"

text \<open>Writes that are gone were cleared, and are not newer than any that is left.\<close>

definition history_ok :: "memtable_entry set \<Rightarrow> memtable_entry set \<Rightarrow> u64 set \<Rightarrow> u64 \<Rightarrow> bool" where
  "history_ok kept H C latest \<longleftrightarrow> kept \<subseteq> H \<and> (\<forall>w \<in> H. me_epoch w \<le> latest) \<and>
     (\<forall>w \<in> H - kept. (\<exists>c \<in> C. me_epoch w \<le> c) \<and> (\<forall>k \<in> kept. me_epoch w \<le> me_epoch k))"

definition cache_inv :: "('s \<Rightarrow> memtable_entry set) \<Rightarrow> 's cache_history \<Rightarrow> bool" where
  "cache_inv elems = (\<lambda>(db, H, C). wf_ring db \<and> (\<exists>t live dead. ring db = t # live @ dead \<and>
     ring_ok elems (md_latest_epoch db) t live dead \<and> history_ok (entries_in elems (t # live)) H C (md_latest_epoch db)))"

lemma entries_in_simps [simp]:
  "entries_in elems [] = {}" "entries_in elems (t # ts) = elems (mt_entries t) \<union> entries_in elems ts"
  "entries_in elems (ts @ us) = entries_in elems ts \<union> entries_in elems us"
  by (auto simp: entries_in_def)

lemma cache_invI:
  "wf_ring db \<Longrightarrow> ring db = t # live @ dead \<Longrightarrow> ring_ok elems (md_latest_epoch db) t live dead \<Longrightarrow>
   history_ok (entries_in elems (t # live)) H C (md_latest_epoch db) \<Longrightarrow> cache_inv elems (db, H, C)"
  unfolding cache_inv_def by blast

lemma table_ok_later: "table_ok elems l t \<Longrightarrow> l \<le> l' \<Longrightarrow> table_ok elems l' t"
  by (auto simp: table_ok_def)

lemma table_okD:
  "table_ok elems l t \<Longrightarrow> e \<in> elems (mt_entries t) \<Longrightarrow> mt_oldest_epoch t \<le> me_epoch e \<and> me_epoch e \<le> mt_latest_epoch t"
  by (simp add: table_ok_def)

lemma flushed_ok_later: "flushed_ok elems l t \<Longrightarrow> l \<le> l' \<Longrightarrow> flushed_ok elems l' t"
  by (auto simp: flushed_ok_def)

lemma history_ok_write:
  assumes "history_ok kept H C l" "l \<le> me_epoch w"
  shows "history_ok (insert w kept) (insert w H) C (me_epoch w)"
  using assms unfolding history_ok_def by (auto intro: order_trans)

lemma ring_ok_status: "ring_ok elems l t live dead \<Longrightarrow> u \<in> set (t # live) \<Longrightarrow> mt_status u \<noteq> FLUSHED"
  by (auto simp: ring_ok_def)

text \<open>Inserting into the mutable table.\<close>

lemma insert_inv:
  assumes ok: "skiplist_ok ops elems" and wf: "wf_ring db" and ring: "ring db = t # live @ dead"
    and l: "md_latest_epoch db \<le> me_epoch w" "mt_oldest_epoch t \<le> me_epoch w" "mt_latest_epoch t \<le> me_epoch w"
    and st: "mt_status t = MUTABLE" "\<forall>u \<in> set live. mt_status u = IMMUTABLE" "\<forall>u \<in> set live. table_ok elems (md_latest_epoch db) u"
      "\<forall>e \<in> elems (mt_entries t). mt_oldest_epoch t \<le> me_epoch e \<and> me_epoch e \<le> me_epoch w"
      "sorted_wrt older (t # live)" "\<forall>u \<in> set dead. flushed_ok elems (md_latest_epoch db) u"
    and h: "history_ok (entries_in elems (t # live)) H C (md_latest_epoch db)"
  shows "cache_inv elems (insert_entry ops w sz db, insert w H, C)"
proof -
  let ?t = "t\<lparr>mt_entries := sl_insert ops w (mt_entries t), mt_size_in_bytes := mt_size_in_bytes t + sz,
      mt_latest_epoch := max (mt_latest_epoch t) (me_epoch w)\<rparr>"
  have el: "elems (sl_insert ops w (mt_entries t)) = insert w (elems (mt_entries t))"
    using ok by (simp add: skiplist_ok_def)
  have m: "max (mt_latest_epoch t) (me_epoch w) = me_epoch w" using l(3) by simp
  note ins = ring_insert_entry [OF wf, of ops w sz]
  have r: "ring (insert_entry ops w sz db) = ?t # live @ dead" using ins(1) ring by simp
  have "table_ok elems (me_epoch w) ?t" using l st(4) el m by (auto simp: table_ok_def)
  moreover have "sorted_wrt older (?t # live)" using st(5) by (simp add: older_def)
  ultimately have "ring_ok elems (me_epoch w) ?t live dead"
    using st(1-3,6) l(1) by (auto simp: ring_ok_def intro: table_ok_later flushed_ok_later)
  moreover have "entries_in elems (?t # live) = insert w (entries_in elems (t # live))" using el by simp
  ultimately show ?thesis
    using cache_invI [OF ins(2) r] ins(3) history_ok_write [OF h l(1)] by metis
qed

lemma write_inv:
  assumes ok: "skiplist_ok ops elems" and inv: "cache_inv elems (db, H, C)" and e: "md_latest_epoch db \<le> epoch"
    and up: "upsert_or_delete ops key epoch deleted val db = (r, db', calls)" "val = None \<longrightarrow> deleted"
  shows "cache_inv elems (db', accepted r \<lparr>me_key = key, me_val = (case val of Some v \<Rightarrow> v | None \<Rightarrow> []), me_epoch = epoch,
      me_deleted = deleted\<rparr> H, C)"
proof -
  let ?w = "\<lparr>me_key = key, me_val = (case val of Some v \<Rightarrow> v | None \<Rightarrow> []), me_epoch = epoch, me_deleted = deleted\<rparr>"
  let ?sz = "entry_size key (case val of Some v \<Rightarrow> length v | None \<Rightarrow> 0)"
  obtain t live dead where i: "wf_ring db" "ring db = t # live @ dead" "ring_ok elems (md_latest_epoch db) t live dead"
    "history_ok (entries_in elems (t # live)) H C (md_latest_epoch db)"
    using inv unfolding cache_inv_def by auto
  have n: "md_mut_idx db < opt_num_write_buffers (md_options db)" using i(1) by (simp add: wf_ring_def)
  have tab: "table_at db (md_mut_idx db) = Some t"
    using table_at_ring [OF i(1), of 0] ring_mut [OF i(1)] i(2) n by simp
  have mut: "mt_status t = MUTABLE" using i(3) by (simp add: ring_ok_def)
  have up': "(r, db', calls) = (if mt_size_in_bytes t + ?sz > opt_write_buffer_size (md_options db)
      then (case switch_table epoch db of
         (Ok _, db', calls) \<Rightarrow> (Ok (), insert_entry ops ?w ?sz db', calls)
       | (Err e, db', calls) \<Rightarrow> (Err e, db', calls) | (Panic, db', calls) \<Rightarrow> (Panic, db', calls))
      else (Ok (), insert_entry ops ?w ?sz db, []))"
    using up n tab mut by (auto simp: upsert_or_delete_def Let_def split: if_splits)
  show ?thesis
  proof (cases "mt_size_in_bytes t + ?sz > opt_write_buffer_size (md_options db)")
    case False
    then have "r = Ok ()" "db' = insert_entry ops ?w ?sz db" using up' by auto
    moreover have "cache_inv elems (insert_entry ops ?w ?sz db, insert ?w H, C)"
      by (rule insert_inv [OF ok i(1,2) _ _ _ mut]) (use i(3,4) e in \<open>auto simp: ring_ok_def table_ok_def\<close>)
    ultimately show ?thesis by (simp add: accepted_def)
  next
    case True
    obtain q db1 calls1 where sw: "switch_table epoch db = (q, db1, calls1)" by (metis prod.exhaust)
    show ?thesis
    proof (cases "mt_status (last (t # live @ dead)) = FLUSHED")
      case False
      then have "r = Err CacheIsFullError" "db' = db" using switch_table_ring(1) [OF i(1) sw i(2)] mut up' True sw by auto
      then show ?thesis using inv by (simp add: accepted_def)
    next
      case full: True
      have dead: "dead \<noteq> []"
      proof
        assume "dead = []"
        then have "last (t # live @ dead) \<in> set (t # live)" by (metis append_Nil2 last_in_set list.discI)
        then show False using ring_ok_status [OF i(3)] full by blast
      qed
      let ?t = "(last dead)\<lparr>mt_status := MUTABLE, mt_oldest_epoch := epoch\<rparr>" and ?u = "t\<lparr>mt_status := IMMUTABLE\<rparr>"
      have s: "q = Ok ()" "wf_ring db1" "md_latest_epoch db1 = md_latest_epoch db" "ring db1 = ?t # (?u # live) @ butlast dead"
        using switch_table_ring(2) [OF i(1) sw i(2)] mut full dead by (auto simp: butlast_append)
      have res: "r = Ok ()" "db' = insert_entry ops ?w ?sz db1" using up' True sw s(1) by auto
      have last: "flushed_ok elems (md_latest_epoch db) (last dead)" using i(3) dead by (simp add: ring_ok_def)
      have u: "table_ok elems (md_latest_epoch db) ?u" "\<forall>v \<in> set (?u # live). mt_latest_epoch v \<le> epoch"
        using i(3) e by (auto simp: ring_ok_def table_ok_def intro: order_trans)
      have sorted: "sorted_wrt older (?t # ?u # live)"
        using i(3) u(2) by (auto simp: ring_ok_def older_def)
      have "cache_inv elems (insert_entry ops ?w ?sz db1, insert ?w H, C)"
      proof (rule insert_inv [OF ok s(2,4)])
        show "sorted_wrt older (?t # ?u # live)" by (rule sorted)
        show "\<forall>v \<in> set (butlast dead). flushed_ok elems (md_latest_epoch db1) v"
          using i(3) s(3) by (auto simp: ring_ok_def dest: in_set_butlastD)
        show "history_ok (entries_in elems (?t # ?u # live)) H C (md_latest_epoch db1)"
          using i(4) last s(3) by (simp add: flushed_ok_def)
        show "\<forall>v \<in> set (?u # live). table_ok elems (md_latest_epoch db1) v"
          using u(1) i(3) s(3) by (simp add: ring_ok_def)
      qed (use last e s(3) i(3) in \<open>auto simp: flushed_ok_def ring_ok_def intro: order_trans\<close>)
      then show ?thesis using res by (simp add: accepted_def)
    qed
  qed
qed

text \<open>Clearing empties the oldest of the immutable tables.\<close>

lemma clear_inv:
  assumes ok: "skiplist_ok ops elems" and inv: "cache_inv elems (db, H, C)" and c: "mt_clear ops epoch db = (r, db')"
  shows "cache_inv elems (db', H, insert epoch C)"
proof -
  obtain t live dead where i: "wf_ring db" "ring db = t # live @ dead" "ring_ok elems (md_latest_epoch db) t live dead"
    "history_ok (entries_in elems (t # live)) H C (md_latest_epoch db)"
    using inv unfolding cache_inv_def by auto
  define A where "A = takeWhile (\<lambda>u. epoch < mt_latest_epoch u) live"
  define B where "B = dropWhile (\<lambda>u. epoch < mt_latest_epoch u) live"
  have live: "live = A @ B" by (simp add: A_def B_def)
  have A: "\<forall>u \<in> set A. epoch < mt_latest_epoch u" by (auto simp: A_def dest: set_takeWhileD)
  have srt: "sorted_wrt older (t # A @ B)" and imm: "\<forall>u \<in> set (A @ B). mt_status u = IMMUTABLE"
    and tok: "\<forall>u \<in> set (t # A @ B). table_ok elems (md_latest_epoch db) u"
    using i(3) live by (auto simp: ring_ok_def)
  have B: "mt_latest_epoch u \<le> epoch" if "u \<in> set B" for u
  proof (cases B)
    case (Cons b bs)
    have "mt_latest_epoch b \<le> epoch" using Cons by (simp add: B_def dropWhile_eq_Cons_conv not_less)
    moreover have "mt_latest_epoch u \<le> mt_latest_epoch b" if "u \<in> set bs"
      using that srt tok Cons by (auto simp: sorted_wrt_append older_def table_ok_def intro: order_trans)
    ultimately show ?thesis using that Cons by (auto intro: order_trans)
  qed (use that in simp)
  have keepA: "map (clear_table ops epoch) A = A"
    using A by (intro map_idI) (auto simp: clear_table_def)
  have keepD: "map (clear_table ops epoch) dead = dead"
    using i(3) by (intro map_idI) (auto simp: clear_table_def ring_ok_def flushed_ok_def)
  let ?B = "map (clear_table ops epoch) B"
  have ring': "ring db' = t # A @ ?B @ dead"
    using mt_clear_ring(4) [OF i(1) c i(2)] live keepA keepD by simp
  have "\<forall>u \<in> set ?B. flushed_ok elems (md_latest_epoch db) u"
    using B imm tok ok by (auto simp: clear_table_def flushed_ok_def table_ok_def skiplist_ok_def)
  then have rok: "ring_ok elems (md_latest_epoch db) t A (?B @ dead)"
    using i(3) live by (auto simp: ring_ok_def sorted_wrt_append)
  have low: "me_epoch w \<le> me_epoch k"
    if wk: "w \<in> entries_in elems B" "k \<in> entries_in elems (t # A)" for w k
  proof -
    obtain u v where uv: "u \<in> set B" "w \<in> elems (mt_entries u)" "v \<in> set (t # A)" "k \<in> elems (mt_entries v)"
      using wk unfolding entries_in_def by blast
    have "mt_latest_epoch u \<le> mt_oldest_epoch v" using srt uv(1,3) by (auto simp: sorted_wrt_append older_def)
    moreover have "me_epoch w \<le> mt_latest_epoch u" "mt_oldest_epoch v \<le> me_epoch k"
      using table_okD tok uv by (metis Un_iff insert_iff list.simps(15) set_append)+
    ultimately show "me_epoch w \<le> me_epoch k" by (meson order_trans)
  qed
  have lowB: "me_epoch w \<le> epoch" if w: "w \<in> entries_in elems B" for w
  proof -
    obtain u where u: "u \<in> set B" "w \<in> elems (mt_entries u)" using w unfolding entries_in_def by blast
    then have "me_epoch w \<le> mt_latest_epoch u" using tok by (simp add: table_ok_def)
    then show ?thesis using B [OF u(1)] by (rule order_trans)
  qed
  have "history_ok (entries_in elems (t # A)) H (insert epoch C) (md_latest_epoch db)"
    unfolding history_ok_def
  proof (intro conjI ballI)
    show "entries_in elems (t # A) \<subseteq> H" using i(4) live by (auto simp: history_ok_def)
    show "me_epoch w \<le> md_latest_epoch db" if "w \<in> H" for w using that i(4) by (auto simp: history_ok_def)
    fix w
    assume w: "w \<in> H - entries_in elems (t # A)"
    show "\<exists>c \<in> insert epoch C. me_epoch w \<le> c" using w i(4) live lowB by (auto simp: history_ok_def)
    show "me_epoch w \<le> me_epoch k" if "k \<in> entries_in elems (t # A)" for k
      using w that i(4) live low unfolding history_ok_def by (cases "w \<in> entries_in elems B") auto
  qed
  then show ?thesis
    using cache_invI [OF mt_clear_ring(2) [OF i(1) c], of t A "?B @ dead"] ring' rok mt_clear_ring(3) [OF i(1) c] by simp
qed

lemma new_inv:
  assumes "skiplist_ok ops elems" "memtable_db_new ops options = Ok db"
  shows "cache_inv elems (db, {}, {})"
proof -
  let ?fresh = "\<lambda>i. \<lparr>mt_id = i, mt_size_in_bytes = 0, mt_status = FLUSHED, mt_latest_epoch = 0, mt_oldest_epoch = 0, mt_entries = sl_new ops\<rparr>"
  have n: "0 < opt_num_write_buffers options"
    and db: "db = \<lparr>md_options = options, md_memtables = (map ?fresh [0..<opt_num_write_buffers options])[0 := (?fresh 0)\<lparr>mt_status := MUTABLE\<rparr>],
       md_mut_idx = 0, md_latest_epoch = 0, md_gc_callback = None\<rparr>"
    using assms(2) by (auto simp: memtable_db_new_def table_at_def set_table_def Let_def split: if_splits)
  have wf: "wf_ring db" using n by (simp add: db wf_ring_def)
  have opt: "md_options db = options" by (simp add: db)
  obtain t ts where r: "ring db = t # ts" using n opt by (metis length_0_conv less_nat_zero_code list.exhaust ring_length)
  have t: "t = (?fresh 0)\<lparr>mt_status := MUTABLE\<rparr>"
    using ring_nth [of 0 db] ring_mut [OF wf] r n opt by (simp add: db)
  have ts: "\<exists>i. u = ?fresh i" if u: "u \<in> set ts" for u
  proof -
    obtain j where j: "j < length ts" "u = ts ! j" using u by (metis in_set_conv_nth)
    then have len: "Suc j < opt_num_write_buffers options" using arg_cong [OF r, of length] opt by simp
    have "u = md_memtables db ! ring_index db (Suc j)" using ring_nth [of "Suc j" db] len j r opt by simp
    moreover have "ring_index db (Suc j) \<noteq> 0" "ring_index db (Suc j) < opt_num_write_buffers options"
      using ring_index_inj [OF wf, of "Suc j" 0] ring_mut [OF wf] ring_index_less [OF wf, of "Suc j"] len opt by (auto simp: db)
    ultimately have "u = ?fresh (ring_index db (Suc j))" by (simp add: db)
    then show ?thesis by blast
  qed
  have "elems (sl_new ops) = {}" using assms(1) by (simp add: skiplist_ok_def)
  then have "ring_ok elems 0 t [] ts" using t ts by (auto simp: ring_ok_def table_ok_def flushed_ok_def dest!: ts)
  moreover have "entries_in elems [t] = {}" using t \<open>elems (sl_new ops) = {}\<close> by simp
  ultimately show ?thesis
    using cache_invI [OF wf, of t "[]" ts] r by (simp add: history_ok_def db)
qed

lemma cache_step_inv:
  assumes "skiplist_ok ops elems"
  shows "cache_inv elems s \<Longrightarrow> cache_step ops s s' \<Longrightarrow> cache_inv elems s'"
proof (erule cache_step.cases)
  fix key val epoch db r db' calls H C
  assume "cache_inv elems s" "s = (db, H, C)" "md_latest_epoch db \<le> epoch" "mt_upsert ops key val epoch db = (r, db', calls)"
    "s' = (db', accepted r \<lparr>me_key = key, me_val = val, me_epoch = epoch, me_deleted = False\<rparr> H, C)"
  then show "cache_inv elems s'" using write_inv [OF assms, of db H C epoch key False "Some val"] by (simp add: mt_upsert_def)
next
  fix key epoch db r db' calls H C
  assume "cache_inv elems s" "s = (db, H, C)" "md_latest_epoch db \<le> epoch" "mt_delete ops key epoch db = (r, db', calls)"
    "s' = (db', accepted r \<lparr>me_key = key, me_val = [], me_epoch = epoch, me_deleted = True\<rparr> H, C)"
  then show "cache_inv elems s'" using write_inv [OF assms, of db H C epoch key True None] by (simp add: mt_delete_def)
next
  fix db H C cb
  assume "cache_inv elems s" "s = (db, H, C)" "s' = (register_gc_callback cb db, H, C)"
  moreover have "ring (register_gc_callback cb db) = ring db" by (rule ring_cong) (simp_all add: register_gc_callback_def)
  ultimately show "cache_inv elems s'" by (simp add: cache_inv_def wf_ring_def register_gc_callback_def)
qed (use clear_inv [OF assms] in blast)

lemma cache_reachable_inv:
  assumes "skiplist_ok ops elems" "reachable (cache_init ops) (cache_step ops) s"
  shows "cache_inv elems s"
  using assms(2)
proof (induction rule: reachable.induct)
  case (reach_init s)
  then show ?case using new_inv [OF assms(1)] by (auto simp: cache_init_def)
qed (rule cache_step_inv [OF assms(1)])

subsection \<open>Reading\<close>

definition at_most :: "bytes \<Rightarrow> u64 \<Rightarrow> memtable_entry set \<Rightarrow> memtable_entry set" where
  "at_most key e S = {w \<in> S. me_key w = key \<and> me_epoch w \<le> e}"

definition newest_answer :: "u64 option \<Rightarrow> memtable_entry set \<Rightarrow> bytes option \<times> u64 \<Rightarrow> bool" where
  "newest_answer epoch W a \<longleftrightarrow> (\<exists>w \<in> W. (\<forall>v \<in> W. me_epoch v \<le> me_epoch w) \<and> a = answer_of epoch w)"

lemma at_most_cmp:
  "w \<in> at_most key e S \<longleftrightarrow> w \<in> S \<and> me_key w = key \<and> me_cmp \<lparr>me_key = key, me_val = [], me_epoch = e, me_deleted = False\<rparr> \<le> me_cmp w"
  by (auto simp: at_most_def me_cmp_def entry_key_le)

lemma lower_bound_cases:
  fixes key :: bytes and e :: u64
  assumes "skiplist_ok ops elems"
  defines "x \<equiv> \<lparr>me_key = key, me_val = [], me_epoch = e, me_deleted = False\<rparr>"
  obtains (found) b where "sl_lower_bound ops x s = Some b" "b \<in> at_most key e (elems s)"
      "\<forall>w \<in> at_most key e (elems s). me_epoch w \<le> me_epoch b"
  | (absent) "at_most key e (elems s) = {}" "\<forall>b. sl_lower_bound ops x s = Some b \<longrightarrow> me_key b \<noteq> key"
proof (cases "sl_lower_bound ops x s")
  case None
  then have "\<forall>w \<in> elems s. me_cmp w < me_cmp x"
    using assms(1) unfolding skiplist_ok_def by (metis (mono_tags, lifting) option.case_eq_if)
  then have "at_most key e (elems s) = {}" by (fastforce simp: at_most_cmp x_def)
  then show ?thesis using None absent by simp
next
  case (Some b)
  then have b: "b \<in> elems s" "me_cmp x \<le> me_cmp b" "\<forall>w \<in> elems s. me_cmp x \<le> me_cmp w \<longrightarrow> me_cmp b \<le> me_cmp w"
    using assms(1) by (auto simp: skiplist_ok_def split: option.splits)
  have least: "\<forall>w \<in> at_most key e (elems s). me_cmp b \<le> me_cmp w" using b(3) by (auto simp: at_most_cmp x_def)
  show ?thesis
  proof (cases "me_key b = key")
    case True
    have "b \<in> at_most key e (elems s)" using b(1,2) True by (simp add: at_most_cmp x_def)
    moreover have "\<forall>w \<in> at_most key e (elems s). me_epoch w \<le> me_epoch b"
      using least True by (auto simp: at_most_def me_cmp_def entry_key_le)
    ultimately show ?thesis using found Some by blast
  next
    case False
    then have "key < me_key b" using b(2) by (auto simp: x_def me_cmp_def entry_key_le)
    then have "at_most key e (elems s) = {}" using least by (auto simp: at_most_def me_cmp_def entry_key_le)
    then show ?thesis using absent Some False by simp
  qed
qed

lemma get_tables_newest:
  assumes ok: "skiplist_ok ops elems" and dead: "\<forall>u \<in> set dead. mt_status u = FLUSHED"
  shows "\<forall>u \<in> set ts. mt_status u \<noteq> FLUSHED \<and> table_ok elems l u \<Longrightarrow> sorted_wrt older ts \<Longrightarrow>
    (if at_most key e (entries_in elems ts) = {}
     then get_tables ops key epoch e (ts @ dead) = (None, case epoch of Some x \<Rightarrow> x | None \<Rightarrow> 0)
     else newest_answer epoch (at_most key e (entries_in elems ts)) (get_tables ops key epoch e (ts @ dead)))"
proof (induction ts)
  case Nil
  then show ?case using dead by (cases dead) (simp_all add: at_most_def)
next
  case (Cons t ts)
  let ?S = "elems (mt_entries t)"
  have t: "mt_status t \<noteq> FLUSHED" "table_ok elems l t" using Cons.prems(1) by simp_all
  have split: "at_most key e (entries_in elems (t # ts)) = at_most key e ?S \<union> at_most key e (entries_in elems ts)"
    by (auto simp: at_most_def)
  have ih: "if at_most key e (entries_in elems ts) = {}
     then get_tables ops key epoch e (ts @ dead) = (None, case epoch of Some x \<Rightarrow> x | None \<Rightarrow> 0)
     else newest_answer epoch (at_most key e (entries_in elems ts)) (get_tables ops key epoch e (ts @ dead))"
    using Cons by simp
  have below: "me_epoch w \<le> mt_oldest_epoch t" if w: "w \<in> entries_in elems ts" for w
  proof -
    obtain u where u: "u \<in> set ts" "w \<in> elems (mt_entries u)" using w unfolding entries_in_def by blast
    then have "mt_latest_epoch u \<le> mt_oldest_epoch t" using Cons.prems(2) by (simp add: older_def)
    moreover have "me_epoch w \<le> mt_latest_epoch u" using Cons.prems(1) u by (simp add: table_ok_def)
    ultimately show ?thesis by (rule order_trans [rotated])
  qed
  show ?case
  proof (cases "mt_oldest_epoch t \<le> e")
    case False
    then have "at_most key e ?S = {}" using table_okD [OF t(2)] by (fastforce simp: at_most_def)
    then show ?thesis using ih t(1) False unfolding split by simp
  next
    case True
    show ?thesis
    proof (rule lower_bound_cases [OF ok, of key e "mt_entries t"])
      fix b
      assume b: "sl_lower_bound ops \<lparr>me_key = key, me_val = [], me_epoch = e, me_deleted = False\<rparr> (mt_entries t) = Some b"
        "b \<in> at_most key e ?S" "\<forall>w \<in> at_most key e ?S. me_epoch w \<le> me_epoch b"
      have "mt_oldest_epoch t \<le> me_epoch b" using table_okD [OF t(2)] b(2) by (simp add: at_most_def)
      then have "\<forall>w \<in> at_most key e (entries_in elems ts). me_epoch w \<le> me_epoch b"
        using below by (auto simp: at_most_def intro: order_trans)
      then have "newest_answer epoch (at_most key e (entries_in elems (t # ts))) (answer_of epoch b)"
        unfolding newest_answer_def split using b(2,3) by blast
      moreover have "get_tables ops key epoch e ((t # ts) @ dead) = answer_of epoch b"
        using b(1,2) t(1) True by (simp add: at_most_def)
      moreover have "at_most key e (entries_in elems (t # ts)) \<noteq> {}" unfolding split using b(2) by blast
      ultimately show ?thesis by simp
    next
      assume "at_most key e ?S = {}"
        "\<forall>b. sl_lower_bound ops \<lparr>me_key = key, me_val = [], me_epoch = e, me_deleted = False\<rparr> (mt_entries t) = Some b \<longrightarrow> me_key b \<noteq> key"
      then show ?thesis using ih t(1) True unfolding split by (auto split: option.splits)
    qed
  qed
qed

section \<open>Properties\<close>


section \<open>Examples and witnesses\<close>

text \<open>A skip list as a list, searched by sorting.\<close>

definition ex_skiplist :: "memtable_entry list skiplist_ops" where
  "ex_skiplist = \<lparr>sl_new = [], sl_insert = Cons,
     sl_lower_bound = (\<lambda>x s. case sort_key me_cmp (filter (\<lambda>e. me_cmp x \<le> me_cmp e) s) of [] \<Rightarrow> None | b # _ \<Rightarrow> Some b),
     sl_clear = (\<lambda>_. [])\<rparr>"

lemma ex_skiplist_ok: "skiplist_ok ex_skiplist set"
proof -
  have "case sl_lower_bound ex_skiplist x s of
        None \<Rightarrow> (\<forall>e \<in> set s. me_cmp e < me_cmp x)
      | Some b \<Rightarrow> b \<in> set s \<and> me_cmp x \<le> me_cmp b \<and> (\<forall>e \<in> set s. me_cmp x \<le> me_cmp e \<longrightarrow> me_cmp b \<le> me_cmp e)" for x s
  proof -
    let ?l = "sort_key me_cmp (filter (\<lambda>e. me_cmp x \<le> me_cmp e) s)"
    have l: "set ?l = {e \<in> set s. me_cmp x \<le> me_cmp e}" "sorted (map me_cmp ?l)" by auto
    show ?thesis
    proof (cases ?l)
      case Nil
      then have "{e \<in> set s. me_cmp x \<le> me_cmp e} = {}" using l(1) by simp
      then show ?thesis using Nil by (auto simp: ex_skiplist_def not_le)
    next
      case (Cons b bs)
      then have "b \<in> {e \<in> set s. me_cmp x \<le> me_cmp e}" "\<forall>e \<in> {e \<in> set s. me_cmp x \<le> me_cmp e}. me_cmp b \<le> me_cmp e"
        using l by (simp_all flip: l(1))
      then show ?thesis using Cons by (simp add: ex_skiplist_def)
    qed
  qed
  then show ?thesis by (simp add: skiplist_ok_def ex_skiplist_def)
qed

definition ex_cache :: "memtable_entry list memtable_db" where
  "ex_cache = (case memtable_db_new ex_skiplist \<lparr>opt_path = [], opt_num_write_buffers = 2, opt_write_buffer_size = 20\<rparr> of Ok db \<Rightarrow> db)"

definition ex_cache_written :: "memtable_entry list memtable_db" where
  "ex_cache_written = fst (snd (mt_upsert ex_skiplist [1] [42] 5 ex_cache))"

lemmas ex_cache_eval = ex_cache_def memtable_db_new_def table_at_def set_table_def

lemma ex_cache_reachable:
  "reachable (cache_init ex_skiplist) (cache_step ex_skiplist)
     (ex_cache_written, {\<lparr>me_key = [1], me_val = [42], me_epoch = 5, me_deleted = False\<rparr>}, {})"
proof -
  let ?w = "\<lparr>me_key = [1], me_val = [42], me_epoch = 5, me_deleted = False\<rparr>"
  have new: "memtable_db_new ex_skiplist \<lparr>opt_path = [], opt_num_write_buffers = 2, opt_write_buffer_size = 20\<rparr> = Ok ex_cache"
    by (simp add: ex_cache_eval)
  have up: "mt_upsert ex_skiplist [1] [42] 5 ex_cache = (Ok (), ex_cache_written, [])"
  proof -
    have "fst (mt_upsert ex_skiplist [1] [42] 5 ex_cache) = Ok () \<and> snd (snd (mt_upsert ex_skiplist [1] [42] 5 ex_cache)) = []"
      by code_simp
    then show ?thesis by (metis ex_cache_written_def prod.collapse)
  qed
  have "reachable (cache_init ex_skiplist) (cache_step ex_skiplist) (ex_cache, {}, {})"
    using new by (intro reach_init) (auto simp: cache_init_def)
  moreover have "cache_step ex_skiplist (ex_cache, {}, {}) (ex_cache_written, accepted (Ok ()) ?w {}, {})"
    by (rule cs_upsert [OF up]) (simp add: ex_cache_eval)
  ultimately show ?thesis using reach_step by (fastforce simp: accepted_def)
qed


text \<open>
  The callback is given the latest epoch of the table that becomes mutable, not of the one that becomes
  immutable: here the table with the write at epoch 5 becomes immutable and the callback is told 0, and clearing up to that
  epoch frees nothing.
\<close>

lemma gc_callback_epoch:
  "\<exists>db. mt_upsert ex_skiplist [2] [43, 44] 6 (register_gc_callback 7 ex_cache_written) = (Ok (), db, [(7, 0)]) \<and>
     snd (mt_clear ex_skiplist 0 db) = db"
proof -
  have "(case mt_upsert ex_skiplist [2] [43, 44] 6 (register_gc_callback 7 ex_cache_written) of (r, db, calls) \<Rightarrow>
      r = Ok () \<and> calls = [(7, 0)] \<and> snd (mt_clear ex_skiplist 0 db) = db)"
    by code_simp
  then show ?thesis by (auto split: prod.splits)
qed

end
