(* ===== verification/Epoch_Client.thy ===== *)
theory Epoch_Client
  imports Epoch_Service
begin

text \<open>
  The client of an epoch publisher (epoch\_publisher/src/client.rs) and the dispatch of its messages at the
  publisher (epoch\_publisher/src/server.rs). The code generated from the flatbuffer schema is an argument (\<open>epoch_codec\<close>), as
  are the byte order conversions of uuids, the uuids drawn and the readings of the clock. Channels are identified by numbers.
\<close>

section \<open>Definitions\<close>

subsection \<open>Messages\<close>

record envelope =
  env_type :: "8 word"
  env_bytes :: "bytes option"

definition ReadEpoch_type :: "8 word" where
  "ReadEpoch_type = 0"

text \<open>Writing never fails; reading a buffer as a table fails on malformed input. A status byte that has a name is read as that name,
  so the round trip is asked of named statuses only.\<close>

record epoch_codec =
  ec_write_request_envelope :: "envelope \<Rightarrow> bytes"
  ec_root_request_envelope :: "bytes \<Rightarrow> envelope option"
  ec_write_response_envelope :: "envelope \<Rightarrow> bytes"
  ec_root_response_envelope :: "bytes \<Rightarrow> envelope option"
  ec_write_request :: "uuidu128 option \<Rightarrow> bytes"
  ec_root_request :: "bytes \<Rightarrow> uuidu128 option option"
  ec_write_response :: "read_epoch_response \<Rightarrow> bytes"
  ec_root_response :: "bytes \<Rightarrow> read_epoch_response option"

definition codec_ok :: "epoch_codec \<Rightarrow> bool" where
  "codec_ok c \<longleftrightarrow> (\<forall>e. ec_root_request_envelope c (ec_write_request_envelope c e) = Some e) \<and>
     (\<forall>e. ec_root_response_envelope c (ec_write_response_envelope c e) = Some e) \<and>
     (\<forall>i. ec_root_request c (ec_write_request c i) = Some i) \<and>
     (\<forall>r. (\<forall>b. rer_status r \<noteq> EpStUnrecognised b) \<longrightarrow> ec_root_response c (ec_write_response c r) = Some r)"

subsection \<open>State\<close>

record rpc_info =
  rpc_time_sent :: utc
  rpc_timeout :: int
  rpc_response_sender :: chan

text \<open>The binary heap of expiration times pops its greatest element: a list in descending order.\<close>

record epoch_client =
  cl_outstanding_requests :: "uuid \<rightharpoonup> rpc_info"
  cl_timeout_queue :: "(utc \<times> uuid) list"

definition epoch_client_new :: epoch_client where
  "epoch_client_new = \<lparr>cl_outstanding_requests = Map.empty, cl_timeout_queue = []\<rparr>"

definition later :: "utc \<times> uuid \<Rightarrow> utc \<times> uuid \<Rightarrow> bool" where
  "later a b \<longleftrightarrow> fst b < fst a \<or> fst a = fst b \<and> snd b \<le> snd a"

fun heap_push :: "utc \<times> uuid \<Rightarrow> (utc \<times> uuid) list \<Rightarrow> (utc \<times> uuid) list" where
  "heap_push x [] = [x]"
| "heap_push x (y # ys) = (if later x y then x # y # ys else y # heap_push x ys)"

text \<open>A message to a waiting caller: the bytes of a response, or an error. It is lost when the caller is gone.\<close>

type_synonym delivery = "chan \<times> (epoch_supplier_error, bytes) outcome"

subsection \<open>Reading the epoch\<close>

definition create_msg_envelope :: "epoch_codec \<Rightarrow> 8 word \<Rightarrow> bytes \<Rightarrow> bytes" where
  "create_msg_envelope codec msg_type payload = ec_write_request_envelope codec \<lparr>env_type = msg_type, env_bytes = Some payload\<rparr>"

definition create_and_serialize_read_epoch_request :: "epoch_codec \<Rightarrow> (uuid \<Rightarrow> 128 word) \<Rightarrow> uuid \<Rightarrow> bytes" where
  "create_and_serialize_read_epoch_request codec to_le req_id =
     create_msg_envelope codec ReadEpoch_type (ec_write_request codec (Some (serialize_uuid to_le req_id)))"

text \<open>The first half of \<^verbatim>\<open>read_epoch\<close>: the request is registered, queued and sent; \<open>sent\<close> tells whether the network takes it.\<close>

definition client_read_epoch_send ::
  "epoch_codec \<Rightarrow> (uuid \<Rightarrow> 128 word) \<Rightarrow> bool \<Rightarrow> utc \<Rightarrow> uuid \<Rightarrow> chan \<Rightarrow> int \<Rightarrow> epoch_client
     \<Rightarrow> (epoch_supplier_error, bytes) outcome \<times> epoch_client" where
  "client_read_epoch_send codec to_le sent now req_id tx timeout c =
     (let rpc = \<lparr>rpc_time_sent = now, rpc_timeout = timeout, rpc_response_sender = tx\<rparr>;
          expiration_time = rpc_time_sent rpc + rpc_timeout rpc;
          c1 = c\<lparr>cl_outstanding_requests := (cl_outstanding_requests c)(req_id \<mapsto> rpc)\<rparr>;
          c2 = c1\<lparr>cl_timeout_queue := heap_push (expiration_time, req_id) (cl_timeout_queue c1)\<rparr>
      in (if sent then Ok (create_and_serialize_read_epoch_request codec to_le req_id) else Panic, c2))"

text \<open>The second half, once the channel delivered.\<close>

definition client_read_epoch_finish ::
  "epoch_codec \<Rightarrow> (epoch_supplier_error, bytes) outcome \<Rightarrow> (epoch_supplier_error, u64) outcome" where
  "client_read_epoch_finish codec response =
     and_then response
       (\<lambda>msg. case ec_root_response_envelope codec msg of
                None \<Rightarrow> Panic
              | Some envelope \<Rightarrow>
                  (if env_type envelope = ReadEpoch_type
                   then (case env_bytes envelope of
                           None \<Rightarrow> Panic
                         | Some b \<Rightarrow> (case ec_root_response codec b of
                             None \<Rightarrow> Panic
                           | Some response_msg \<Rightarrow> read_epoch_parse response_msg))
                   else Err EsInvalidResponseFormat))"

subsection \<open>The network loop\<close>

definition epoch_request_id_from_response ::
  "epoch_codec \<Rightarrow> (128 word \<Rightarrow> uuid) \<Rightarrow> bytes \<Rightarrow> (epoch_supplier_error, uuid option) outcome" where
  "epoch_request_id_from_response codec from_le msg =
     (case ec_root_response_envelope codec msg of
        None \<Rightarrow> Panic
      | Some envelope \<Rightarrow>
          (if env_type envelope = ReadEpoch_type
           then (case env_bytes envelope of
                   None \<Rightarrow> Panic
                 | Some b \<Rightarrow> (case ec_root_response codec b of
                     None \<Rightarrow> Panic
                   | Some m \<Rightarrow> (case rer_request_id m of
                       None \<Rightarrow> Panic
                     | Some i \<Rightarrow> Ok (Some (deserialize_uuid from_le i)))))
           else Ok None))"

definition client_network_message ::
  "epoch_codec \<Rightarrow> (128 word \<Rightarrow> uuid) \<Rightarrow> bytes \<Rightarrow> epoch_client \<Rightarrow> (epoch_supplier_error, delivery list) outcome \<times> epoch_client" where
  "client_network_message codec from_le msg c =
     (case epoch_request_id_from_response codec from_le msg of
        Ok (Some req_id) \<Rightarrow>
          (case cl_outstanding_requests c req_id of
             None \<Rightarrow> (Ok [], c)
           | Some rpc \<Rightarrow> (Ok [(rpc_response_sender rpc, Ok msg)],
                          c\<lparr>cl_outstanding_requests := (cl_outstanding_requests c)(req_id := None)\<rparr>))
      | Ok None \<Rightarrow> (Ok [], c)
      | Err e \<Rightarrow> (Err e, c)
      | Panic \<Rightarrow> (Panic, c))"

subsection \<open>Expiration\<close>

text \<open>One iteration of the inner loop; \<^term>\<open>None\<close> leaves it.\<close>

definition expire_iteration :: "utc \<Rightarrow> epoch_client \<Rightarrow> (delivery list \<times> epoch_client) option" where
  "expire_iteration now c =
     (case cl_timeout_queue c of
        [] \<Rightarrow> None
      | (expiration_time, req_id) # queue \<Rightarrow>
          (if expiration_time < now
           then Some (case cl_outstanding_requests c req_id of
                        None \<Rightarrow> []
                      | Some rpc \<Rightarrow> [(rpc_response_sender rpc, Err EsTimeout)],
                      c\<lparr>cl_timeout_queue := queue, cl_outstanding_requests := (cl_outstanding_requests c)(req_id := None)\<rparr>)
           else None))"

text \<open>The inner loop, with the reading of the clock of each iteration; \<^term>\<open>None\<close> if it does not end.\<close>

partial_function (option) background_loop_inner ::
  "(nat \<Rightarrow> utc) \<Rightarrow> nat \<Rightarrow> epoch_client \<Rightarrow> (delivery list \<times> epoch_client) option" where
  "background_loop_inner clock k c =
     (case expire_iteration (clock k) c of
        None \<Rightarrow> Some ([], c)
      | Some (ds, c') \<Rightarrow>
          Option.bind (background_loop_inner clock (Suc k) c') (\<lambda>(es, c''). Some (ds @ es, c'')))"

subsection \<open>The publisher's side\<close>

text \<open>The errors that \<^verbatim>\<open>?\<close> propagates, by their origin: the verifier of the buffers and the network. Both are only logged.\<close>

datatype publisher_message_error = MalformedBuffer | SendFailed

text \<open>\<open>sent\<close> tells whether the network takes the response.\<close>

definition publisher_send_response ::
  "epoch_codec \<Rightarrow> bool \<Rightarrow> 8 word \<Rightarrow> bytes \<Rightarrow> (publisher_message_error, bytes) outcome" where
  "publisher_send_response codec sent msg_type msg_payload =
     (if sent then Ok (ec_write_response_envelope codec \<lparr>env_type = msg_type, env_bytes = Some msg_payload\<rparr>)
      else Err SendFailed)"

text \<open>The response sent for a message, if there is one.\<close>

definition publisher_handle_message ::
  "epoch_codec \<Rightarrow> bool \<Rightarrow> bytes \<Rightarrow> u64 \<Rightarrow> (publisher_message_error, bytes option) outcome" where
  "publisher_handle_message codec sent msg epoch =
     (case ec_root_request_envelope codec msg of
        None \<Rightarrow> Err MalformedBuffer
      | Some envelope \<Rightarrow>
          (if env_type envelope = ReadEpoch_type
           then (case env_bytes envelope of
                   None \<Rightarrow> Panic
                 | Some b \<Rightarrow> (case ec_root_request codec b of
                     None \<Rightarrow> Err MalformedBuffer
                   | Some request_id \<Rightarrow>
                       and_then (publisher_send_response codec sent ReadEpoch_type
                                   (ec_write_response codec (publisher_read_epoch request_id epoch)))
                         (\<lambda>response. Ok (Some response))))
           else Ok None))"

section \<open>Lemmas\<close>

subsection \<open>Expiration\<close>

lemma expire_iteration_shrinks:
  "expire_iteration now c = Some (ds, c') \<Longrightarrow> length (cl_timeout_queue c') < length (cl_timeout_queue c)"
  by (auto simp: expire_iteration_def split: list.splits if_splits)

lemma expire_iteration_None:
  "expire_iteration now c = None \<longleftrightarrow>
     cl_timeout_queue c = [] \<or> \<not> fst (hd (cl_timeout_queue c)) < now"
  by (auto simp: expire_iteration_def split: list.splits)

text \<open>What one run of the loop takes off the queue: a prefix, and with it the requests it answers.\<close>

definition expired_prefix :: "epoch_client \<Rightarrow> epoch_client \<Rightarrow> (utc \<times> uuid) list \<Rightarrow> bool" where
  "expired_prefix c c' taken \<longleftrightarrow> cl_timeout_queue c = taken @ cl_timeout_queue c' \<and>
     cl_outstanding_requests c' = cl_outstanding_requests c |` (- set (map snd taken))"

lemma expired_prefix_refl: "expired_prefix c c []"
  by (simp add: expired_prefix_def restrict_map_def)

lemma expired_prefix_step:
  assumes "expire_iteration now c = Some (ds, c1)" and "expired_prefix c1 c' taken"
  shows "expired_prefix c c' (hd (cl_timeout_queue c) # taken)"
  using assms
  by (auto simp: expire_iteration_def expired_prefix_def restrict_map_def fun_eq_iff split: list.splits if_splits)

lemma expire_iteration_taken:
  "expire_iteration now c = Some (ds, c1) \<Longrightarrow> fst (hd (cl_timeout_queue c)) < now"
  by (auto simp: expire_iteration_def split: list.splits if_splits)

text \<open>The callers whose requests are taken and not yet answered, each with a timeout.\<close>

definition timeout_of :: "epoch_client \<Rightarrow> uuid \<Rightarrow> delivery set" where
  "timeout_of c i = (case cl_outstanding_requests c i of None \<Rightarrow> {} | Some rpc \<Rightarrow> {(rpc_response_sender rpc, Err EsTimeout)})"

definition timeouts :: "epoch_client \<Rightarrow> (utc \<times> uuid) list \<Rightarrow> delivery set" where
  "timeouts c taken = \<Union> (timeout_of c ` set (map snd taken))"

lemma timeouts_Nil [simp]: "timeouts c [] = {}"
  by (simp add: timeouts_def)

lemma timeouts_step:
  assumes "expire_iteration now c = Some (ds, c1)"
  shows "timeouts c (hd (cl_timeout_queue c) # taken) = set ds \<union> timeouts c1 taken"
proof -
  obtain t i q where q: "cl_timeout_queue c = (t, i) # q" and ds: "set ds = timeout_of c i"
    and c1: "cl_outstanding_requests c1 = (cl_outstanding_requests c)(i := None)"
    using assms by (auto simp: expire_iteration_def timeout_of_def split: list.splits if_splits option.splits)
  have "timeout_of c1 j = (if j = i then {} else timeout_of c j)" for j
    by (simp add: timeout_of_def c1)
  then show ?thesis
    by (auto simp: q ds timeouts_def split: if_splits)
qed

lemma background_loop_inner_total:
  "\<exists>ds c' taken n. background_loop_inner clock k c = Some (ds, c') \<and> expired_prefix c c' taken \<and>
     length taken = n \<and> (\<forall>i<n. fst (taken ! i) < clock (k + i)) \<and>
     (cl_timeout_queue c' = [] \<or> clock (k + n) \<le> fst (hd (cl_timeout_queue c'))) \<and>
     set ds = timeouts c taken"
proof (induction "length (cl_timeout_queue c)" arbitrary: k c rule: less_induct)
  case less
  show ?case
  proof (cases "expire_iteration (clock k) c")
    case None
    then show ?thesis
      using expired_prefix_refl [of c] expire_iteration_None [of "clock k" c]
      by (subst background_loop_inner.simps) (auto simp: not_less)
  next
    case (Some r)
    obtain ds c1 where r: "expire_iteration (clock k) c = Some (ds, c1)"
      using Some by (cases r) auto
    obtain es c' taken where ih: "background_loop_inner clock (Suc k) c1 = Some (es, c')"
        "expired_prefix c1 c' taken" "\<forall>i<length taken. fst (taken ! i) < clock (Suc k + i)"
        "cl_timeout_queue c' = [] \<or> clock (Suc k + length taken) \<le> fst (hd (cl_timeout_queue c'))"
        "set es = timeouts c1 taken"
      using less [OF expire_iteration_shrinks [OF r], of "Suc k"] by blast
    let ?t = "hd (cl_timeout_queue c) # taken"
    have run: "background_loop_inner clock k c = Some (ds @ es, c')"
      by (subst background_loop_inner.simps) (simp add: r ih(1))
    have "\<forall>i<length ?t. fst (?t ! i) < clock (k + i)"
      using ih(3) expire_iteration_taken [OF r] by (auto simp: nth_Cons split: nat.splits)
    moreover have "set (ds @ es) = timeouts c ?t"
      using ih(5) timeouts_step [OF r] by simp
    moreover have "cl_timeout_queue c' = [] \<or> clock (k + length ?t) \<le> fst (hd (cl_timeout_queue c'))"
      using ih(4) by simp
    ultimately show ?thesis
      using run expired_prefix_step [OF r ih(2)] by blast
  qed
qed

text \<open>The queue is a heap: its first entry expires last.\<close>

definition wf_queue :: "epoch_client \<Rightarrow> bool" where
  "wf_queue c \<longleftrightarrow> sorted_wrt later (cl_timeout_queue c)"

lemma not_later: "\<not> later a b \<Longrightarrow> later b a"
  by (auto simp: later_def)

lemma later_trans: "later a b \<Longrightarrow> later b c \<Longrightarrow> later a c"
  by (auto simp: later_def)

lemma set_heap_push [simp]: "set (heap_push x xs) = insert x (set xs)"
  by (induction xs) auto

lemma sorted_heap_push: "sorted_wrt later xs \<Longrightarrow> sorted_wrt later (heap_push x xs)"
  by (induction xs) (auto intro: later_trans not_later simp del: split_paired_All)

lemma wf_queue_send:
  "wf_queue c \<Longrightarrow> wf_queue (snd (client_read_epoch_send codec to_le sent now req_id tx timeout c))"
  by (simp add: client_read_epoch_send_def wf_queue_def Let_def sorted_heap_push)

lemma wf_queue_network: "wf_queue c \<Longrightarrow> wf_queue (snd (client_network_message codec from_le msg c))"
  by (auto simp: client_network_message_def wf_queue_def split: outcome.splits option.splits)

lemma wf_queue_expired: "wf_queue c \<Longrightarrow> expired_prefix c c' taken \<Longrightarrow> wf_queue c'"
  by (simp add: wf_queue_def expired_prefix_def sorted_wrt_append)

text \<open>So an expired request waits for the one that expires last: while that has time left the loop does nothing.\<close>

lemma expired_request_waits:
  assumes "cl_timeout_queue c = (t, i) # q" and "clock k \<le> t"
  shows "background_loop_inner clock k c = Some ([], c)"
  using assms by (subst background_loop_inner.simps) (simp add: expire_iteration_def)

definition two_requests :: epoch_client where
  "two_requests = \<lparr>cl_outstanding_requests =
       [1 \<mapsto> \<lparr>rpc_time_sent = 0, rpc_timeout = 10, rpc_response_sender = 7\<rparr>,
        2 \<mapsto> \<lparr>rpc_time_sent = 0, rpc_timeout = 1000, rpc_response_sender = 8\<rparr>],
     cl_timeout_queue = [(1000, 2), (10, 1)]\<rparr>"

lemma expired_request_not_timed_out:
  "wf_queue two_requests \<and> (10, 1) \<in> set (cl_timeout_queue two_requests) \<and>
   background_loop_inner (\<lambda>_. 500) 0 two_requests = Some ([], two_requests)"
  using expired_request_waits [of two_requests 1000 2 "[(10, 1)]" "\<lambda>_. 500" 0]
  by (simp add: two_requests_def wf_queue_def later_def)

subsection \<open>A request and its response\<close>

lemma publisher_status_named: "rer_status (publisher_read_epoch i e) \<noteq> EpStUnrecognised b"
  by (simp add: publisher_read_epoch_def split: option.splits)

lemma publisher_answers:
  assumes "codec_ok codec"
  shows "publisher_handle_message codec True (create_and_serialize_read_epoch_request codec to_le i) e =
    Ok (Some (ec_write_response_envelope codec \<lparr>env_type = ReadEpoch_type,
      env_bytes = Some (ec_write_response codec (publisher_read_epoch (Some (serialize_uuid to_le i)) e))\<rparr>))"
  using assms
  by (simp add: codec_ok_def publisher_handle_message_def create_and_serialize_read_epoch_request_def
      create_msg_envelope_def publisher_send_response_def)

lemma response_id:
  assumes "codec_ok codec" and "\<And>u. from_le (to_le u) = u"
  shows "epoch_request_id_from_response codec from_le (ec_write_response_envelope codec \<lparr>env_type = ReadEpoch_type,
      env_bytes = Some (ec_write_response codec (publisher_read_epoch (Some (serialize_uuid to_le i)) e))\<rparr>) = Ok (Some i)"
  using assms(1) publisher_status_named deserialize_serialize_uuid [of from_le to_le, OF assms(2)]
  by (simp add: codec_ok_def epoch_request_id_from_response_def) (simp add: publisher_read_epoch_def)

lemma response_finish:
  assumes "codec_ok codec"
  shows "client_read_epoch_finish codec (Ok (ec_write_response_envelope codec \<lparr>env_type = ReadEpoch_type,
      env_bytes = Some (ec_write_response codec (publisher_read_epoch (Some j) e))\<rparr>)) =
    (if e = 0 then Err EsEpochUnknown else Ok e)"
  using assms publisher_status_named
  by (simp add: codec_ok_def client_read_epoch_finish_def) (simp add: publisher_read_epoch_def read_epoch_parse_def)

section \<open>Properties\<close>

text \<open>
  C25: The inner loop of the client's background task ends on every queue and for every clock, and what it does is determined:
  it takes a prefix of the queue, each entry expired at the reading of its iteration; exactly the callers of the taken requests that
  are still outstanding are sent a timeout; those requests are no longer outstanding and all others are kept; and it stops only
  on an empty queue or at an entry that has not expired at the last reading.
\<close>

theorem background_loop_ends:
  "\<exists>ds c' taken. background_loop_inner clock 0 c = Some (ds, c') \<and>
     cl_timeout_queue c = taken @ cl_timeout_queue c' \<and>
     (\<forall>i < length taken. fst (taken ! i) < clock i) \<and>
     set ds = timeouts c taken \<and>
     cl_outstanding_requests c' = cl_outstanding_requests c |` (- set (map snd taken)) \<and>
     (cl_timeout_queue c' = [] \<or> clock (length taken) \<le> fst (hd (cl_timeout_queue c')))"
  using background_loop_inner_total [of clock 0 c] unfolding expired_prefix_def by auto

theorem background_loop_ends_witness:
  "\<exists>ds c'. background_loop_inner (\<lambda>_. 2000) 0 two_requests = Some (ds, c') \<and>
     cl_timeout_queue c' = [] \<and> set ds = {(7, Err EsTimeout), (8, Err EsTimeout)} \<and> cl_outstanding_requests c' = Map.empty"
proof -
  obtain ds c' taken where l: "background_loop_inner (\<lambda>_. 2000) 0 two_requests = Some (ds, c')"
      "cl_timeout_queue two_requests = taken @ cl_timeout_queue c'" "set ds = timeouts two_requests taken"
      "cl_outstanding_requests c' = cl_outstanding_requests two_requests |` (- set (map snd taken))"
      "cl_timeout_queue c' = [] \<or> 2000 \<le> fst (hd (cl_timeout_queue c'))"
    using background_loop_ends [of "\<lambda>_. 2000" two_requests] by blast
  have "cl_timeout_queue c' = []"
  proof (rule ccontr)
    assume ne: "cl_timeout_queue c' \<noteq> []"
    then have "hd (cl_timeout_queue c') \<in> set (cl_timeout_queue two_requests)"
      using l(2) by simp
    then show False
      using ne l(5) by (auto simp: two_requests_def)
  qed
  moreover from this have "taken = [(1000, 2), (10, 1)]"
    using l(2) by (simp add: two_requests_def)
  ultimately show ?thesis
    using l(1,3,4) by (auto simp: timeouts_def timeout_of_def two_requests_def restrict_map_def fun_eq_iff)
qed

text \<open>
  C20: A read of the epoch comes back with what the publisher holds. The request a client sends is answered by the publisher; when
  the answer arrives while the request is outstanding, whatever else the client did meanwhile, exactly the caller that
  sent it is woken, with that answer, and only its request is removed; and the caller returns the publisher's epoch, or
  that it is unknown when the publisher has none. A second copy of the answer wakes nobody.
\<close>

theorem read_epoch_round_trip:
  assumes codec: "codec_ok codec" and le: "\<And>u. from_le (to_le u) = u"
    and sent: "client_read_epoch_send codec to_le True now req_id tx timeout c0 = (Ok request, c1)"
    and pending: "cl_outstanding_requests c req_id = cl_outstanding_requests c1 req_id"
  shows "\<exists>response c'. publisher_handle_message codec True request epoch = Ok (Some response) \<and>
    client_network_message codec from_le response c = (Ok [(tx, Ok response)], c') \<and>
    c' = c\<lparr>cl_outstanding_requests := (cl_outstanding_requests c)(req_id := None)\<rparr> \<and>
    client_read_epoch_finish codec (Ok response) = (if epoch = 0 then Err EsEpochUnknown else Ok epoch) \<and>
    client_network_message codec from_le response c' = (Ok [], c')"
proof -
  have request: "request = create_and_serialize_read_epoch_request codec to_le req_id"
    and rpc: "cl_outstanding_requests c req_id = Some \<lparr>rpc_time_sent = now, rpc_timeout = timeout, rpc_response_sender = tx\<rparr>"
    using sent pending by (auto simp: client_read_epoch_send_def Let_def)
  show ?thesis
    unfolding request publisher_answers [OF codec] client_network_message_def
    by (simp add: response_id [of codec from_le to_le, OF codec le] response_finish [OF codec] rpc)
qed

text \<open>A codec of bytes: an envelope is its type and the optional payload, words have a byte for each bit.\<close>

definition ex_envelope :: "envelope \<Rightarrow> bytes" where
  "ex_envelope e = env_type e # (case env_bytes e of None \<Rightarrow> [] | Some b \<Rightarrow> 1 # b)"

fun ex_root_envelope :: "bytes \<Rightarrow> envelope option" where
  "ex_root_envelope [] = None"
| "ex_root_envelope [t] = Some \<lparr>env_type = t, env_bytes = None\<rparr>"
| "ex_root_envelope (t # _ # b) = Some \<lparr>env_type = t, env_bytes = Some b\<rparr>"

definition bits_of :: "u64 \<Rightarrow> bytes" where
  "bits_of w = map (\<lambda>n. of_bool (bit w n)) [0..<64]"

definition word_of :: "bytes \<Rightarrow> u64" where
  "word_of b = horner_sum of_bool 2 (map (\<lambda>x. x \<noteq> 0) b)"

definition ex_words :: "uuidu128 option \<Rightarrow> bytes" where
  "ex_words i = (case i of None \<Rightarrow> [] | Some u \<Rightarrow> bits_of (uu_lower u) @ bits_of (uu_upper u))"

definition ex_root_words :: "bytes \<Rightarrow> uuidu128 option" where
  "ex_root_words b = (if b = [] then None else Some \<lparr>uu_lower = word_of (take 64 b), uu_upper = word_of (drop 64 b)\<rparr>)"

fun ex_status :: "ep_status \<Rightarrow> 8 word" where
  "ex_status EpStOk = 0"
| "ex_status EpStInvalidRequestFormat = 1"
| "ex_status EpStTimeout = 2"
| "ex_status EpStEpochUnknown = 3"
| "ex_status (EpStUnrecognised b) = b"

definition ex_root_status :: "8 word \<Rightarrow> ep_status" where
  "ex_root_status b = (if b = 0 then EpStOk else if b = 1 then EpStInvalidRequestFormat
     else if b = 2 then EpStTimeout else if b = 3 then EpStEpochUnknown else EpStUnrecognised b)"

definition ex_epoch_codec :: epoch_codec where
  "ex_epoch_codec = \<lparr>ec_write_request_envelope = ex_envelope, ec_root_request_envelope = ex_root_envelope,
     ec_write_response_envelope = ex_envelope, ec_root_response_envelope = ex_root_envelope,
     ec_write_request = ex_words, ec_root_request = (\<lambda>b. Some (ex_root_words b)),
     ec_write_response = (\<lambda>r. ex_status (rer_status r) # bits_of (rer_epoch r) @ ex_words (rer_request_id r)),
     ec_root_response = (\<lambda>b. if b = [] then None else Some \<lparr>rer_request_id = ex_root_words (drop 65 b),
       rer_status = ex_root_status (hd b), rer_epoch = word_of (take 64 (tl b))\<rparr>)\<rparr>"

lemma length_bits_of [simp]: "length (bits_of w) = 64"
  by (simp add: bits_of_def)

lemma word_of_bits_of [simp]: "word_of (bits_of w) = w"
proof -
  have "map (\<lambda>x. x \<noteq> 0) (bits_of w) = map (bit w) [0..<64]"
    by (simp add: bits_of_def comp_def)
  then show ?thesis
    using horner_sum_bit_eq_take_bit [of w 64] by (simp add: word_of_def take_bit_word_eq_self)
qed

lemma ex_root_envelope_ok: "ex_root_envelope (ex_envelope e) = Some e"
  by (cases e) (simp add: ex_envelope_def split: option.splits)

lemma ex_root_words_ok: "ex_root_words (ex_words i) = i"
proof (cases i)
  case (Some u)
  have "bits_of (uu_lower u) \<noteq> []"
    by (simp add: bits_of_def)
  then show ?thesis
    using Some by (simp add: ex_words_def ex_root_words_def)
qed (simp add: ex_words_def ex_root_words_def)

lemma ex_epoch_codec_ok: "codec_ok ex_epoch_codec"
proof -
  have "ex_root_status (ex_status st) = st" if "\<forall>b. st \<noteq> EpStUnrecognised b" for st
    using that by (cases st) (simp_all add: ex_root_status_def)
  then show ?thesis
    by (simp add: codec_ok_def ex_epoch_codec_def ex_root_envelope_ok ex_root_words_ok)
qed

theorem read_epoch_round_trip_witness:
  "\<exists>request response c'.
     client_read_epoch_send ex_epoch_codec id True 0 5 7 100 epoch_client_new = (Ok request, c') \<and>
     publisher_handle_message ex_epoch_codec True request 42 = Ok (Some response) \<and>
     fst (client_network_message ex_epoch_codec id response c') = Ok [(7, Ok response)] \<and>
     client_read_epoch_finish ex_epoch_codec (Ok response) = Ok 42"
proof -
  let ?s = "client_read_epoch_send ex_epoch_codec id True 0 5 7 100 epoch_client_new"
  have s: "?s = (Ok (create_and_serialize_read_epoch_request ex_epoch_codec id 5), snd ?s)"
    by (simp add: client_read_epoch_send_def Let_def)
  show ?thesis
    using read_epoch_round_trip [OF ex_epoch_codec_ok _ s refl, of id 42] s by fastforce
qed

end
