(* ===== verification/Frontend.thy ===== *)
theory Frontend
  imports Coordinator Warden
begin

text \<open>
  The frontend (frontend/src/frontend.rs): the requests of clients, on a table of transactions that are shared by
  reference and each guarded by a lock; and its oracle of range assignments (frontend/src/range\_assignment\_oracle.rs). The
  printed forms of errors and the parser of uuids belong to other code and are arguments.
\<close>

section \<open>Definitions\<close>

subsection \<open>The oracle of range assignments\<close>

fun find_range :: "bytes \<Rightarrow> proto_key_range list \<Rightarrow> proto_key_range option" where
  "find_range key [] = None"
| "find_range key (r # rs) = (if key_range_includes (key_range_from_proto r) key then Some r else find_range key rs)"

text \<open>\<open>universe\<close> is the lookup at the universe manager. Every failure of it is a panic.\<close>

definition full_range_id_of_key ::
  "(string \<Rightarrow> uuid option) \<Rightarrow> (uuid \<Rightarrow> string) \<Rightarrow> (proto_search_field option \<Rightarrow> (string, proto_keyspace_info option) outcome)
     \<Rightarrow> keyspace_id \<Rightarrow> bytes \<Rightarrow> (string, full_range_id option) outcome" where
  "full_range_id_of_key parse_str to_str universe keyspace_id key =
     (case universe (Some (ProtoKeyspaceId (to_str (ksid_id keyspace_id)))) of
        Ok (Some keyspace_info) \<Rightarrow>
          (case find_range key (pki_base_key_ranges keyspace_info) of
             None \<Rightarrow> Ok None
           | Some r \<Rightarrow> (case parse_str (base_range_uuid r) of
               None \<Rightarrow> Panic
             | Some i \<Rightarrow> Ok (Some \<lparr>frid_keyspace_id = keyspace_id, frid_range_id = i\<rparr>)))
      | _ \<Rightarrow> Panic)"

text \<open>Every range is looked for at one fixed server, and refreshing an assignment is not implemented.\<close>

definition host_of_range :: "(string \<Rightarrow> host_port option) \<Rightarrow> full_range_id \<Rightarrow> (string, host_info option) outcome" where
  "host_of_range parse_addr range_id =
     (case parse_addr ''127.0.0.1:50055'' of
        None \<Rightarrow> Panic
      | Some addr \<Rightarrow> Ok (Some \<lparr>identity = \<lparr>hid_name = ''test_server'',
            hid_zone = \<lparr>zone_region = \<lparr>reg_cloud = None, reg_name = ''test-region''\<rparr>, zone_name = ''a''\<rparr>\<rparr>,
          address = addr, warden_connection_epoch = 0\<rparr>))"

definition maybe_refresh_host_of_range :: "full_range_id \<Rightarrow> (string, unit) outcome" where
  "maybe_refresh_host_of_range range_id = Panic"

subsection \<open>Requests and answers\<close>

datatype tstatus = InvalidArgument string | NotFound string | InternalStatus string

record key_request =
  kq_transaction_id :: string
  kq_keyspace :: "keyspace option"
  kq_key :: bytes

record start_transaction_response =
  st_status :: string
  st_transaction_id :: string

record frontend_get_response =
  gr_status :: string
  gr_value :: "bytes option"

subsection \<open>State\<close>

text \<open>
  The table maps ids to the addresses of transactions. A handler that has looked up an address keeps its reference to the
  transaction, so an address outlives its entry in the table.
\<close>

record 'w frontend =
  fe_transaction_table :: "uuid \<rightharpoonup> nat"
  fe_heap :: "nat \<rightharpoonup> transaction"
  fe_world :: 'w
  fe_store :: tx_table

definition frontend_new :: "'w \<Rightarrow> tx_table \<Rightarrow> 'w frontend" where
  "frontend_new w t = \<lparr>fe_transaction_table = Map.empty, fe_heap = Map.empty, fe_world = w, fe_store = t\<rparr>"

subsection \<open>Handlers\<close>

text \<open>\<open>connected\<close> is the result of connecting to the universe manager, with the printed error.\<close>

definition frontend_create_keyspace ::
  "(string, unit) outcome \<Rightarrow> ('q \<Rightarrow> 'u \<Rightarrow> (string, string) outcome \<times> 'u) \<Rightarrow> 'q \<Rightarrow> 'u \<Rightarrow> (tstatus, string) outcome \<times> 'u" where
  "frontend_create_keyspace connected create req u =
     (case connected of
        Err e \<Rightarrow> (Err (InternalStatus (''Failed to connect to universe: '' @ e)), u)
      | Panic \<Rightarrow> (Panic, u)
      | Ok _ \<Rightarrow> (let (r, u') = create req u in (unwrap r, u')))"

text \<open>\<open>a\<close> is the address of the new transaction.\<close>

definition frontend_start_transaction ::
  "(uuid \<Rightarrow> string) \<Rightarrow> tx_session \<Rightarrow> transaction_info \<Rightarrow> nat \<Rightarrow> 'w frontend
     \<Rightarrow> (tstatus, start_transaction_response) outcome \<times> 'w frontend" where
  "frontend_start_transaction to_str exec info a f =
     (case coord_start_transaction exec info (fe_store f) of
        (Ok tx, t) \<Rightarrow>
          (Ok \<lparr>st_status = ''Start transaction request processed successfully'', st_transaction_id = to_str (tx_id info)\<rparr>,
           f\<lparr>fe_store := t, fe_heap := (fe_heap f)(a \<mapsto> tx),
             fe_transaction_table := (fe_transaction_table f)(tx_id info \<mapsto> a)\<rparr>)
      | (_, t) \<Rightarrow> (Panic, f\<lparr>fe_store := t\<rparr>))"

definition parse_transaction_id :: "(string \<Rightarrow> (string, uuid) outcome) \<Rightarrow> string \<Rightarrow> (tstatus, uuid) outcome" where
  "parse_transaction_id parse_uuid s =
     map_err (\<lambda>e. InvalidArgument (''Invalid transaction ID format: '' @ e)) (parse_uuid s)"

definition request_keyspace :: "keyspace option \<Rightarrow> (tstatus, keyspace) outcome" where
  "request_keyspace ks = (case ks of None \<Rightarrow> Err (InvalidArgument ''Missing keyspace'') | Some k \<Rightarrow> Ok k)"

definition find_transaction :: "uuid \<Rightarrow> 'w frontend \<Rightarrow> (tstatus, nat) outcome" where
  "find_transaction i f =
     (case fe_transaction_table f i of None \<Rightarrow> Err (NotFound ''Transaction not found'') | Some a \<Rightarrow> Ok a)"

text \<open>An operation on the transaction at an address, under its lock.\<close>

definition locked ::
  "nat \<Rightarrow> ('w coord \<Rightarrow> (coord_error, 'a) outcome \<times> 'w coord) \<Rightarrow> 'w frontend \<Rightarrow> (coord_error, 'a) outcome \<times> 'w frontend" where
  "locked a oper f =
     (case fe_heap f a of
        None \<Rightarrow> (Panic, f)
      | Some tx \<Rightarrow>
          (let (r, s) = oper \<lparr>co_tx = tx, co_world = fe_world f, co_table = fe_store f\<rparr>
           in (r, f\<lparr>fe_heap := (fe_heap f)(a \<mapsto> co_tx s), fe_world := co_world s, fe_store := co_table s\<rparr>)))"

definition remove_from_table :: "uuid \<Rightarrow> 'w frontend \<Rightarrow> 'w frontend" where
  "remove_from_table i f = f\<lparr>fe_transaction_table := (fe_transaction_table f)(i := None)\<rparr>"

text \<open>What get, put and delete have in common, and what abort and commit have in common.\<close>

definition failed :: "string \<Rightarrow> (coord_error \<Rightarrow> string) \<Rightarrow> coord_error \<Rightarrow> tstatus" where
  "failed what debug e = InternalStatus (what @ '' operation failed: '' @ debug e)"

definition on_key ::
  "string \<Rightarrow> (string \<Rightarrow> (string, uuid) outcome) \<Rightarrow> (coord_error \<Rightarrow> string) \<Rightarrow>
     (keyspace \<Rightarrow> bytes \<Rightarrow> 'w coord \<Rightarrow> (coord_error, 'a) outcome \<times> 'w coord) \<Rightarrow> key_request \<Rightarrow> 'w frontend
     \<Rightarrow> (tstatus, 'a) outcome \<times> 'w frontend" where
  "on_key what parse_uuid debug oper req f =
     (case and_then (parse_transaction_id parse_uuid (kq_transaction_id req))
             (\<lambda>i. and_then (request_keyspace (kq_keyspace req))
               (\<lambda>ks. and_then (find_transaction i f) (\<lambda>a. Ok (ks, a)))) of
        Err e \<Rightarrow> (Err e, f)
      | Panic \<Rightarrow> (Panic, f)
      | Ok (ks, a) \<Rightarrow> (let (r, f') = locked a (oper ks (kq_key req)) f in (map_err (failed what debug) r, f')))"

definition to_end ::
  "string \<Rightarrow> (string \<Rightarrow> (string, uuid) outcome) \<Rightarrow> (coord_error \<Rightarrow> string) \<Rightarrow>
     ('w coord \<Rightarrow> (coord_error, unit) outcome \<times> 'w coord) \<Rightarrow> string \<Rightarrow> 'w frontend \<Rightarrow> (tstatus, string) outcome \<times> 'w frontend" where
  "to_end what parse_uuid debug oper id_text f =
     (case and_then (parse_transaction_id parse_uuid id_text)
             (\<lambda>i. and_then (find_transaction i f) (\<lambda>a. Ok (i, a))) of
        Err e \<Rightarrow> (Err e, f)
      | Panic \<Rightarrow> (Panic, f)
      | Ok (i, a) \<Rightarrow>
          (case locked a oper f of
             (Ok _, f') \<Rightarrow> (Ok (what @ '' request processed successfully''), remove_from_table i f')
           | (Err e, f') \<Rightarrow> (Err (failed what debug e), f')
           | (Panic, f') \<Rightarrow> (Panic, f')))"

definition parsed :: "(string \<Rightarrow> (string, uuid) outcome) \<Rightarrow> string \<Rightarrow> uuid option" where
  "parsed parse_uuid s = (case parse_uuid s of Ok i \<Rightarrow> Some i | _ \<Rightarrow> None)"

definition frontend_get ::
  "(string \<Rightarrow> (string, uuid) outcome) \<Rightarrow> (coord_error \<Rightarrow> string) \<Rightarrow> tx_session \<Rightarrow> 'w services \<Rightarrow> (full_range_id set \<Rightarrow> full_range_id list)
     \<Rightarrow> key_request \<Rightarrow> 'w frontend \<Rightarrow> (tstatus, frontend_get_response) outcome \<times> 'w frontend" where
  "frontend_get parse_uuid debug exec svc order req f =
     (let (r, f') = on_key ''Get'' parse_uuid debug (coord_get (parsed parse_uuid) exec svc order) req f
      in (and_then r (\<lambda>v. Ok \<lparr>gr_status = ''Get request processed successfully'', gr_value = v\<rparr>), f'))"

definition frontend_put ::
  "(string \<Rightarrow> (string, uuid) outcome) \<Rightarrow> (coord_error \<Rightarrow> string) \<Rightarrow> 'w services
     \<Rightarrow> key_request \<Rightarrow> bytes \<Rightarrow> 'w frontend \<Rightarrow> (tstatus, string) outcome \<times> 'w frontend" where
  "frontend_put parse_uuid debug svc req val f =
     (let (r, f') = on_key ''Put'' parse_uuid debug (\<lambda>ks key. coord_put (parsed parse_uuid) svc ks key val) req f
      in (and_then r (\<lambda>_. Ok ''Put request processed successfully''), f'))"

definition frontend_delete ::
  "(string \<Rightarrow> (string, uuid) outcome) \<Rightarrow> (coord_error \<Rightarrow> string) \<Rightarrow> 'w services
     \<Rightarrow> key_request \<Rightarrow> 'w frontend \<Rightarrow> (tstatus, string) outcome \<times> 'w frontend" where
  "frontend_delete parse_uuid debug svc req f =
     (let (r, f') = on_key ''Delete'' parse_uuid debug (coord_del (parsed parse_uuid) svc) req f
      in (and_then r (\<lambda>_. Ok ''Delete request processed successfully''), f'))"

definition frontend_abort ::
  "(string \<Rightarrow> (string, uuid) outcome) \<Rightarrow> (coord_error \<Rightarrow> string) \<Rightarrow> tx_session \<Rightarrow> 'w services \<Rightarrow> (full_range_id set \<Rightarrow> full_range_id list)
     \<Rightarrow> string \<Rightarrow> 'w frontend \<Rightarrow> (tstatus, string) outcome \<times> 'w frontend" where
  "frontend_abort parse_uuid debug exec svc order = to_end ''Abort'' parse_uuid debug (coord_abort exec svc order)"

definition frontend_commit ::
  "(string \<Rightarrow> (string, uuid) outcome) \<Rightarrow> (coord_error \<Rightarrow> string) \<Rightarrow> tx_session \<Rightarrow> 'w services \<Rightarrow> schedule
     \<Rightarrow> string \<Rightarrow> 'w frontend \<Rightarrow> (tstatus, string) outcome \<times> 'w frontend" where
  "frontend_commit parse_uuid debug exec svc sch = to_end ''Commit'' parse_uuid debug (coord_commit exec svc sch)"

subsection \<open>Requests side by side\<close>

text \<open>
  Handlers run side by side: each looks up its transaction, then waits for its lock and operates on it, and then removes
  the entry. The second component holds the references found, the third the ids whose abort or commit
  succeeded. Services and database sessions may differ from step to step, so that what other tasks do in the middle of an operation
  is covered; \<open>fe_others\<close> is everything else that happens.
\<close>

type_synonym 'w frontend_system = "'w frontend \<times> (uuid \<times> nat) set \<times> uuid set"

definition known_ids :: "'w frontend \<Rightarrow> uuid set" where
  "known_ids f = tn_id ` ran (fe_heap f)"

inductive frontend_step :: "(string \<Rightarrow> uuid option) \<Rightarrow> 'w frontend_system \<Rightarrow> 'w frontend_system \<Rightarrow> bool" for parse_str where
  fe_start: "frontend_start_transaction to_str exec info a f = (rs, f') \<Longrightarrow> fe_heap f a = None \<Longrightarrow> tx_id info \<notin> known_ids f \<Longrightarrow>
    frontend_step parse_str (f, refs, ended) (f', refs, ended)"
| fe_lookup: "find_transaction i f = Ok a \<Longrightarrow> frontend_step parse_str (f, refs, ended) (f, insert (i, a) refs, ended)"
| fe_get: "(i, a) \<in> refs \<Longrightarrow> locked a (coord_get parse_str exec svc order ks key) f = (rg, f') \<Longrightarrow>
    frontend_step parse_str (f, refs, ended) (f', refs, ended)"
| fe_put: "(i, a) \<in> refs \<Longrightarrow> locked a (coord_put parse_str svc ks key v) f = (r, f') \<Longrightarrow>
    frontend_step parse_str (f, refs, ended) (f', refs, ended)"
| fe_delete: "(i, a) \<in> refs \<Longrightarrow> locked a (coord_del parse_str svc ks key) f = (r, f') \<Longrightarrow>
    frontend_step parse_str (f, refs, ended) (f', refs, ended)"
| fe_abort: "(i, a) \<in> refs \<Longrightarrow> locked a (coord_abort exec svc order) f = (r, f') \<Longrightarrow>
    frontend_step parse_str (f, refs, ended) (f', refs, if r = Ok () then insert i ended else ended)"
| fe_commit: "(i, a) \<in> refs \<Longrightarrow> locked a (coord_commit exec svc sch) f = (r, f') \<Longrightarrow>
    frontend_step parse_str (f, refs, ended) (f', refs, if r = Ok () then insert i ended else ended)"
| fe_remove: "i \<in> ended \<Longrightarrow> frontend_step parse_str (f, refs, ended) (remove_from_table i f, refs, ended)"
| fe_others: "frontend_step parse_str (f, refs, ended) (f\<lparr>fe_world := w, fe_store := t\<rparr>, refs, ended)"

definition frontend_init :: "'w frontend_system \<Rightarrow> bool" where
  "frontend_init s \<longleftrightarrow> (\<exists>w t. s = (frontend_new w t, {}, {}))"

section \<open>Lemmas\<close>

subsection \<open>What the operations of a transaction keep\<close>

definition finished :: "transaction \<Rightarrow> bool" where
  "finished tx \<longleftrightarrow> tn_state tx = TxAborted \<or> tn_state tx = TxCommitted"

definition tame :: "('w coord \<Rightarrow> (coord_error, 'a) outcome \<times> 'w coord) \<Rightarrow> bool" where
  "tame oper \<longleftrightarrow> (\<forall>s. tn_id (co_tx (snd (oper s))) = tn_id (co_tx s) \<and> (finished (co_tx s) \<longrightarrow> snd (oper s) = s))"

definition ending :: "('w coord \<Rightarrow> (coord_error, unit) outcome \<times> 'w coord) \<Rightarrow> bool" where
  "ending oper \<longleftrightarrow> (\<forall>s. fst (oper s) = Ok () \<longrightarrow> finished (co_tx (snd (oper s))))"

lemma resolve_keyspace_id: "resolve_keyspace parse_str svc ks s = (r, s') \<Longrightarrow> tn_id (co_tx s') = tn_id (co_tx s)"
  by (auto simp: resolve_keyspace_def Let_def split: option.splits outcome.splits prod.splits)

lemma resolve_full_id: "resolve_full_record_key parse_str svc ks key s = (r, s') \<Longrightarrow> tn_id (co_tx s') = tn_id (co_tx s)"
  by (auto simp: resolve_full_record_key_def Let_def dest!: resolve_keyspace_id split: option.splits outcome.splits prod.splits)

lemma participant_id [simp]:
  "tn_id (co_tx (set_participant_range i p s)) = tn_id (co_tx s)"
  "tn_id (co_tx (snd (get_participant_range i s))) = tn_id (co_tx s)"
  by (simp_all add: set_participant_range_def get_participant_range_def Let_def)

lemma get_participant_id: "get_participant_range i s = (p, s') \<Longrightarrow> tn_id (co_tx s') = tn_id (co_tx s)"
  by (metis participant_id(2) snd_conv)

lemma record_abort_tx: "record_abort exec svc order s = (r, s') \<Longrightarrow> co_tx s' = (co_tx s)\<lparr>tn_state := TxAborted\<rparr>"
  by (auto simp: record_abort_def Let_def split: prod.splits outcome.splits op_result.splits)

lemma commit_prepared_tx:
  "commit_prepared exec svc sch e s = (r, s') \<Longrightarrow>
     co_tx s' = (if r = Ok () then (co_tx s)\<lparr>tn_state := TxCommitted\<rparr> else co_tx s)"
  by (auto simp: commit_prepared_def Let_def split: prod.splits outcome.splits op_result.splits if_splits)

lemma finished_not_running: "finished (co_tx s) \<Longrightarrow> \<exists>e. check_still_running (co_tx s) = Err e"
  by (auto simp: finished_def)

lemma tame_put: "tame (coord_put parse_str svc ks key v)"
  unfolding tame_def
  by (auto simp: coord_put_def Let_def simp del: check_still_running.simps dest: finished_not_running dest!: resolve_full_id
      get_participant_id split: outcome.splits prod.splits)

lemma tame_del: "tame (coord_del parse_str svc ks key)"
  unfolding tame_def
  by (auto simp: coord_del_def Let_def simp del: check_still_running.simps dest: finished_not_running dest!: resolve_full_id
      get_participant_id split: outcome.splits prod.splits)

lemma get_id:
  assumes "coord_get parse_str exec svc order ks key s = (r, s')"
  shows "tn_id (co_tx s') = tn_id (co_tx s)"
proof (cases "check_still_running (co_tx s)")
  case (Ok u)
  obtain r1 s1 where res: "resolve_full_record_key parse_str svc ks key s = (r1, s1)" by (meson surj_pair)
  note i1 = resolve_full_id [OF res]
  show ?thesis
  proof (cases r1)
    case (Ok i)
    obtain p s2 where g: "get_participant_range i s1 = (p, s2)" by (meson surj_pair)
    obtain gr w where gw: "svc_get svc (tn_info (co_tx s2)) i [key] (co_world s2) = (gr, w)" by (meson surj_pair)
    obtain p3 s4 where g2: "get_participant_range i (s2\<lparr>co_world := w\<rparr>) = (p3, s4)" by (meson surj_pair)
    have i4: "tn_id (co_tx s2) = tn_id (co_tx s)" "tn_id (co_tx s4) = tn_id (co_tx s)"
      using i1 get_participant_id [OF g] get_participant_id [OF g2] by simp_all
    show ?thesis
      using assms \<open>check_still_running (co_tx s) = outcome.Ok u\<close> res Ok g gw g2 i4
      by (auto simp: coord_get_def Let_def abort_with_def simp del: check_still_running.simps dest: record_abort_tx
          split: option.splits outcome.splits if_splits list.splits prod.splits)
  qed (use assms Ok res i1 in \<open>auto simp: coord_get_def simp del: check_still_running.simps\<close>)
qed (use assms in \<open>auto simp: coord_get_def simp del: check_still_running.simps\<close>)

lemma tame_get: "tame (coord_get parse_str exec svc order ks key)"
  unfolding tame_def
proof (intro allI conjI impI)
  fix s
  show "tn_id (co_tx (snd (coord_get parse_str exec svc order ks key s))) = tn_id (co_tx s)"
    by (rule get_id [of parse_str exec svc order ks key s, OF prod.collapse [symmetric]])
qed (auto simp: coord_get_def simp del: check_still_running.simps dest!: finished_not_running)

lemma tame_abort: "tame (coord_abort exec svc order)"
  unfolding tame_def
proof (intro allI conjI impI)
  fix s
  obtain r s' where "record_abort exec svc order s = (r, s')" by (meson surj_pair)
  then show "tn_id (co_tx (snd (coord_abort exec svc order s))) = tn_id (co_tx s)"
    by (auto simp: coord_abort_def dest: record_abort_tx split: tx_state.splits)
qed (auto simp: coord_abort_def finished_def)

lemma ending_abort: "ending (coord_abort exec svc order)"
  unfolding ending_def
proof (intro allI impI)
  fix s
  assume ok: "fst (coord_abort exec svc order s) = Ok ()"
  obtain r s' where "record_abort exec svc order s = (r, s')" by (meson surj_pair)
  then show "finished (co_tx (snd (coord_abort exec svc order s)))"
    using ok by (auto simp: coord_abort_def finished_def dest: record_abort_tx split: tx_state.splits if_splits)
qed

text \<open>A commit of a running transaction: what is left of it, and that success means committed.\<close>

lemma commit_tx:
  assumes "coord_commit exec svc sch s = (r, s')"
  shows "tn_id (co_tx s') = tn_id (co_tx s) \<and> (r = Ok () \<longrightarrow> tn_state (co_tx s') = TxCommitted) \<and>
    (tn_state (co_tx s) \<noteq> TxRunning \<longrightarrow> s' = s)"
  using assms
  by (auto simp: coord_commit_def Let_def abort_with_def dest!: record_abort_tx commit_prepared_tx
      split: outcome.splits prod.splits joined.splits tx_state.splits if_splits)

lemma tame_commit: "tame (coord_commit exec svc sch)"
  unfolding tame_def finished_def using commit_tx by (metis prod.collapse tx_state.distinct(3,5))

lemma ending_commit: "ending (coord_commit exec svc sch)"
  unfolding ending_def finished_def using commit_tx by (metis prod.collapse)

subsection \<open>The table and the transactions\<close>

definition refers :: "'w frontend \<Rightarrow> uuid \<Rightarrow> nat \<Rightarrow> bool" where
  "refers f i a \<longleftrightarrow> (\<exists>tx. fe_heap f a = Some tx \<and> tn_id tx = i)"

definition frontend_inv :: "'w frontend_system \<Rightarrow> bool" where
  "frontend_inv = (\<lambda>(f, refs, ended).
     (\<forall>i a. fe_transaction_table f i = Some a \<longrightarrow> refers f i a) \<and>
     (\<forall>i a. (i, a) \<in> refs \<longrightarrow> refers f i a) \<and>
     (\<forall>i \<in> ended. \<exists>a. refers f i a) \<and>
     (\<forall>i a b. refers f i a \<longrightarrow> refers f i b \<longrightarrow> a = b) \<and>
     (\<forall>a tx. fe_heap f a = Some tx \<longrightarrow> \<not> finished tx \<longrightarrow> fe_transaction_table f (tn_id tx) = Some a) \<and>
     (\<forall>a tx. fe_heap f a = Some tx \<longrightarrow> tn_id tx \<in> ended \<longrightarrow> finished tx))"

lemma inv_refers: "frontend_inv (f, refs, ended) \<Longrightarrow> (i, a) \<in> refs \<Longrightarrow> refers f i a"
  unfolding frontend_inv_def by blast

lemma known_ids_refers: "i \<in> known_ids f \<longleftrightarrow> (\<exists>a. refers f i a)"
  by (auto simp: known_ids_def refers_def ran_def)

text \<open>An operation changes the transaction at its address only, which keeps its id and stays finished.\<close>

lemma locked_effect:
  assumes "locked a oper f = (r, f')" "tame oper" "fe_heap f a = Some tx"
  shows "\<exists>tx'. fe_heap f' = (fe_heap f)(a \<mapsto> tx') \<and> tn_id tx' = tn_id tx \<and> (finished tx \<longrightarrow> tx' = tx) \<and>
    fe_transaction_table f' = fe_transaction_table f"
proof -
  let ?s = "\<lparr>co_tx = tx, co_world = fe_world f, co_table = fe_store f\<rparr>"
  have "fe_heap f' = (fe_heap f)(a \<mapsto> co_tx (snd (oper ?s)))" "fe_transaction_table f' = fe_transaction_table f"
    using assms(1,3) by (auto simp: locked_def Let_def split: prod.splits)
  moreover have "tn_id (co_tx (snd (oper ?s))) = tn_id (co_tx ?s)" "finished (co_tx ?s) \<longrightarrow> snd (oper ?s) = ?s"
    using assms(2) unfolding tame_def by blast+
  ultimately show ?thesis by auto
qed

lemma locked_ending:
  assumes "locked a oper f = (Ok (), f')" "ending oper" "fe_heap f a = Some tx"
  shows "\<exists>tx'. fe_heap f' a = Some tx' \<and> finished tx'"
proof -
  let ?s = "\<lparr>co_tx = tx, co_world = fe_world f, co_table = fe_store f\<rparr>"
  have "fst (oper ?s) = Ok ()" "fe_heap f' a = Some (co_tx (snd (oper ?s)))"
    using assms(1,3) by (auto simp: locked_def Let_def split: prod.splits)
  then show ?thesis using assms(2) unfolding ending_def by blast
qed

lemma locked_inv:
  assumes inv: "frontend_inv (f, refs, ended)" and l: "locked a oper f = (r, f')" "tame oper" and ref: "(i, a) \<in> refs"
  shows "frontend_inv (f', refs, ended)"
proof -
  obtain tx where tx: "fe_heap f a = Some tx" "tn_id tx = i"
    using inv_refers [OF inv ref] by (auto simp: refers_def)
  obtain tx' where tx': "fe_heap f' = (fe_heap f)(a \<mapsto> tx')" "tn_id tx' = i" "finished tx \<longrightarrow> tx' = tx"
      "fe_transaction_table f' = fe_transaction_table f"
    using locked_effect [OF l tx(1)] tx(2) by blast
  have "refers f' = refers f"
    using tx tx' by (auto simp: refers_def fun_eq_iff)
  then show ?thesis
    using inv tx tx' by (auto simp: frontend_inv_def)
qed

lemma ended_inv:
  assumes "frontend_inv (f, refs, ended)" "fe_heap f a = Some tx" "finished tx" "(i, a) \<in> refs"
  shows "frontend_inv (f, refs, insert i ended)"
proof -
  have r: "refers f i a" by (rule inv_refers [OF assms(1,4)])
  have "b = a" if "fe_heap f b = Some t" "tn_id t = i" for b t
    using assms(1) r that unfolding frontend_inv_def refers_def by blast
  then have "finished t" if "fe_heap f b = Some t" "tn_id t = i" for b t
    using that assms(2,3) by fastforce
  moreover have "Ex (refers f i)" using r by blast
  ultimately show ?thesis using assms(1) by (simp add: frontend_inv_def)
qed

lemma locked_ending_inv:
  assumes "frontend_inv (f, refs, ended)" "locked a oper f = (r, f')" "tame oper" "ending oper" "(i, a) \<in> refs"
  shows "frontend_inv (f', refs, if r = Ok () then insert i ended else ended)"
proof -
  obtain tx where "fe_heap f a = Some tx"
    using inv_refers [OF assms(1,5)] by (auto simp: refers_def)
  then have "\<exists>tx'. fe_heap f' a = Some tx' \<and> finished tx'" if "r = Ok ()"
    using locked_ending [OF assms(2) [unfolded that] assms(4)] by blast
  moreover note inv' = locked_inv [OF assms(1-3,5)]
  ultimately show ?thesis
    using ended_inv [OF inv' _ _ assms(5)] by auto
qed

lemma frontend_start_inv:
  assumes inv: "frontend_inv (f, refs, ended)" and st: "frontend_start_transaction to_str exec info a f = (rs, f')"
    and fresh: "fe_heap f a = None" "tx_id info \<notin> known_ids f"
  shows "frontend_inv (f', refs, ended)"
proof (cases "\<exists>tx t. coord_start_transaction exec info (fe_store f) = (Ok tx, t)")
  case True
  then obtain t where "coord_start_transaction exec info (fe_store f) = (Ok (transaction_new info), t)"
    by (auto simp: coord_start_transaction_def Let_def split: prod.splits elim!: unwrap.elims)
  then have f': "fe_heap f' = (fe_heap f)(a \<mapsto> transaction_new info)"
      "fe_transaction_table f' = (fe_transaction_table f)(tx_id info \<mapsto> a)"
    using st by (auto simp: frontend_start_transaction_def)
  have new: "tn_id (transaction_new info) = tx_id info" "\<not> finished (transaction_new info)"
    by (simp_all add: transaction_new_def finished_def)
  have unknown: "\<not> refers f (tx_id info) b" for b
    using fresh(2) by (simp add: known_ids_refers)
  have r: "refers f' i b \<longleftrightarrow> refers f i b \<or> i = tx_id info \<and> b = a" for i b
    using fresh(1) new(1) by (auto simp: refers_def f')
  have inv_parts: "\<And>i b. fe_transaction_table f i = Some b \<Longrightarrow> refers f i b" "\<And>i b. (i, b) \<in> refs \<Longrightarrow> refers f i b"
      "\<And>i. i \<in> ended \<Longrightarrow> \<exists>b. refers f i b" "\<And>i b c. refers f i b \<Longrightarrow> refers f i c \<Longrightarrow> b = c"
      "\<And>b tx. fe_heap f b = Some tx \<Longrightarrow> \<not> finished tx \<Longrightarrow> fe_transaction_table f (tn_id tx) = Some b"
      "\<And>b tx. fe_heap f b = Some tx \<Longrightarrow> tn_id tx \<in> ended \<Longrightarrow> finished tx"
    using inv unfolding frontend_inv_def by blast+
  have old: "tn_id tx \<noteq> tx_id info" if "fe_heap f b = Some tx" for b tx
    using unknown [of b] that by (auto simp: refers_def)
  show ?thesis
    unfolding frontend_inv_def prod.case r f'
  proof (intro conjI allI impI ballI)
    show "\<exists>b. refers f i b \<or> i = tx_id info \<and> b = a" if "i \<in> ended" for i using inv_parts(3) that by blast
    show "b = c" if "refers f i b \<or> i = tx_id info \<and> b = a" "refers f i c \<or> i = tx_id info \<and> c = a" for i b c
      using that unknown inv_parts(4) by blast
    show "finished tx" if "((fe_heap f)(a \<mapsto> transaction_new info)) b = Some tx" "tn_id tx \<in> ended" for b tx
      using that inv_parts(3) [of "tx_id info"] inv_parts(6) unknown new(1) by (auto split: if_splits)
  qed (use inv_parts(1,2,5) unknown new old in \<open>auto split: if_splits\<close>)
next
  case False
  then have "fe_heap f' = fe_heap f" "fe_transaction_table f' = fe_transaction_table f"
    using st by (auto simp: frontend_start_transaction_def split: prod.splits outcome.splits)
  then show ?thesis using inv by (simp add: frontend_inv_def refers_def)
qed

lemma remove_inv:
  assumes "frontend_inv (f, refs, ended)" "i \<in> ended"
  shows "frontend_inv (remove_from_table i f, refs, ended)"
proof -
  have "refers (remove_from_table i f) = refers f"
    by (simp add: refers_def remove_from_table_def fun_eq_iff)
  then show ?thesis
    using assms by (auto simp: frontend_inv_def remove_from_table_def)
qed

lemma others_inv: "frontend_inv (f, refs, ended) \<Longrightarrow> frontend_inv (f\<lparr>fe_world := w, fe_store := t\<rparr>, refs, ended)"
  by (simp add: frontend_inv_def refers_def)

lemma lookup_inv: "frontend_inv (f, refs, ended) \<Longrightarrow> find_transaction i f = Ok a \<Longrightarrow> frontend_inv (f, insert (i, a) refs, ended)"
  by (auto simp: frontend_inv_def find_transaction_def split: option.splits)

interpretation frontend: invariant_system frontend_init "frontend_step parse_str" frontend_inv for parse_str
proof
  fix s :: "'w frontend_system" assume "frontend_init s"
  then show "frontend_inv s"
    by (auto simp: frontend_init_def frontend_new_def frontend_inv_def refers_def)
next
  fix s t :: "'w frontend_system" assume "frontend_inv s" "frontend_step parse_str s t"
  from this(2,1) show "frontend_inv t"
  proof (induction rule: frontend_step.induct)
    case (fe_start to_str exec info a f rs f' refs ended)
    show ?case by (rule frontend_start_inv [OF fe_start(4,1-3)])
  next
    case (fe_lookup i f a refs ended)
    show ?case by (rule lookup_inv [OF fe_lookup(2,1)])
  next
    case (fe_get i a refs exec svc order ks key f rg f' ended)
    show ?case by (rule locked_inv [OF fe_get(3,2) tame_get fe_get(1)])
  next
    case (fe_put i a refs svc ks key v f r f' ended)
    show ?case by (rule locked_inv [OF fe_put(3,2) tame_put fe_put(1)])
  next
    case (fe_delete i a refs svc ks key f r f' ended)
    show ?case by (rule locked_inv [OF fe_delete(3,2) tame_del fe_delete(1)])
  next
    case (fe_abort i a refs exec svc order f r f' ended)
    show ?case by (rule locked_ending_inv [OF fe_abort(3,2) tame_abort ending_abort fe_abort(1)])
  next
    case (fe_commit i a refs exec svc sch f r f' ended)
    show ?case by (rule locked_ending_inv [OF fe_commit(3,2) tame_commit ending_commit fe_commit(1)])
  next
    case (fe_remove i ended f refs)
    show ?case by (rule remove_inv [OF fe_remove(2,1)])
  qed (rule others_inv)
qed

subsection \<open>Whole requests\<close>

text \<open>A request handled alone is a sequence of steps: so what holds after every sequence of steps holds after every request.\<close>

lemma steps_two: "step s t \<Longrightarrow> step t u \<Longrightarrow> steps_to step s u"
  by (blast intro: steps_to.intros)

lemma steps_three: "step s t \<Longrightarrow> step t u \<Longrightarrow> step u v \<Longrightarrow> steps_to step s v"
  by (blast intro: steps_to.intros)

lemma on_key_cases:
  assumes "on_key what parse_uuid debug oper req f = (r, f')"
  obtains (rejected) "f' = f" | (ran) i ks a ro where "find_transaction i f = Ok a" "locked a (oper ks (kq_key req)) f = (ro, f')"
proof (cases "and_then (parse_transaction_id parse_uuid (kq_transaction_id req))
    (\<lambda>i. and_then (request_keyspace (kq_keyspace req)) (\<lambda>ks. and_then (find_transaction i f) (\<lambda>a. Ok (ks, a))))")
  case (Ok p)
  then obtain i ks a where "find_transaction i f = outcome.Ok a" "p = (ks, a)"
    by auto
  then show ?thesis
    using assms Ok ran by (auto simp: on_key_def Let_def split: prod.splits)
qed (use assms rejected in \<open>simp_all add: on_key_def\<close>)

lemma to_end_cases:
  assumes "to_end what parse_uuid debug oper id_text f = (r, f')"
  obtains (bad_id) e where "parse_uuid id_text = Err e" "r = Err (InvalidArgument (''Invalid transaction ID format: '' @ e))" "f' = f"
  | (bad_parser) "parse_uuid id_text = Panic" "r = Panic" "f' = f"
  | (missing) i where "parse_uuid id_text = Ok i" "fe_transaction_table f i = None"
      "r = Err (NotFound ''Transaction not found'')" "f' = f"
  | (success) i a f1 where "parse_uuid id_text = Ok i" "fe_transaction_table f i = Some a" "locked a oper f = (Ok (), f1)"
      "r = Ok (what @ '' request processed successfully'')" "f' = remove_from_table i f1"
  | (kept) i a ro where "parse_uuid id_text = Ok i" "fe_transaction_table f i = Some a" "locked a oper f = (ro, f')" "ro \<noteq> Ok ()"
      "r = (case ro of Err e \<Rightarrow> Err (failed what debug e) | _ \<Rightarrow> Panic)"
proof (cases "parse_uuid id_text")
  case (Ok i)
  show thesis
  proof (cases "fe_transaction_table f i")
    case None
    then show thesis
      by (intro missing [OF Ok]) (use assms Ok in \<open>simp_all add: to_end_def parse_transaction_id_def find_transaction_def\<close>)
  next
    case (Some a)
    obtain ro f1 where l: "locked a oper f = (ro, f1)" by (meson surj_pair)
    note unfolded = assms [unfolded to_end_def parse_transaction_id_def find_transaction_def] l Ok Some
    show thesis
    proof (cases "ro = outcome.Ok ()")
      case True
      show thesis by (rule success [OF Ok Some]) (use unfolded True in auto)
    next
      case False
      show thesis by (rule kept [OF Ok Some _ False]) (use unfolded False in \<open>auto split: outcome.splits\<close>)
    qed
  qed
next
  case (Err e)
  show thesis by (rule bad_id [OF Err]) (use assms Err in \<open>simp_all add: to_end_def parse_transaction_id_def\<close>)
next
  case Panic
  show thesis by (rule bad_parser [OF Panic]) (use assms Panic in \<open>simp_all add: to_end_def parse_transaction_id_def\<close>)
qed

lemma to_end_steps:
  assumes "to_end what parse_uuid debug oper id_text f = (r, f')"
    and step: "\<And>i a refs ended r g'. (i, a) \<in> refs \<Longrightarrow> locked a oper f = (r, g') \<Longrightarrow>
      frontend_step parse_str (f, refs, ended) (g', refs, if r = Ok () then insert i ended else ended)"
  shows "\<exists>refs' ended'. steps_to (frontend_step parse_str) (f, refs, ended) (f', refs', ended')"
  using assms(1)
proof (cases rule: to_end_cases)
  case (success i a f1)
  have "frontend_step parse_str (f, refs, ended) (f, insert (i, a) refs, ended)"
    using success(2) by (intro fe_lookup) (simp add: find_transaction_def)
  moreover have "frontend_step parse_str (f, insert (i, a) refs, ended) (f1, insert (i, a) refs, insert i ended)"
    using step [OF _ success(3), of i "insert (i, a) refs" ended] by simp
  moreover have "frontend_step parse_str (f1, insert (i, a) refs, insert i ended) (f', insert (i, a) refs, insert i ended)"
    unfolding success(5) by (rule fe_remove) simp
  ultimately show ?thesis by (blast intro: steps_three)
next
  case (kept i a ro)
  have "frontend_step parse_str (f, refs, ended) (f, insert (i, a) refs, ended)"
    using kept(2) by (intro fe_lookup) (simp add: find_transaction_def)
  moreover have "frontend_step parse_str (f, insert (i, a) refs, ended) (f', insert (i, a) refs, ended)"
    using step [OF _ kept(3), of i "insert (i, a) refs" ended] kept(4) by simp
  ultimately show ?thesis by (blast intro: steps_two)
qed (blast intro: steps_refl)+

lemma commit_handler_steps:
  "frontend_commit parse_uuid debug exec svc sch id_text f = (r, f') \<Longrightarrow>
     \<exists>refs' ended'. steps_to (frontend_step parse_str) (f, refs, ended) (f', refs', ended')"
  unfolding frontend_commit_def by (erule to_end_steps) (rule fe_commit)

lemma abort_handler_steps:
  "frontend_abort parse_uuid debug exec svc order id_text f = (r, f') \<Longrightarrow>
     \<exists>refs' ended'. steps_to (frontend_step parse_str) (f, refs, ended) (f', refs', ended')"
  unfolding frontend_abort_def by (erule to_end_steps) (rule fe_abort)

lemma on_key_steps:
  assumes "on_key what parse_uuid debug oper req f = (r, f')"
    and step: "\<And>i a ks refs ro g'. (i, a) \<in> refs \<Longrightarrow> locked a (oper ks (kq_key req)) f = (ro, g') \<Longrightarrow>
      frontend_step parse_str (f, refs, ended) (g', refs, ended)"
  shows "\<exists>refs'. steps_to (frontend_step parse_str) (f, refs, ended) (f', refs', ended)"
  using assms(1)
proof (cases rule: on_key_cases)
  case (ran i ks a ro)
  have "frontend_step parse_str (f, insert (i, a) refs, ended) (f', insert (i, a) refs, ended)"
    by (rule step [OF _ ran(2), of i]) simp
  moreover have "frontend_step parse_str (f, refs, ended) (f, insert (i, a) refs, ended)"
    by (rule fe_lookup [OF ran(1)])
  ultimately show ?thesis by (blast intro: steps_two)
qed (blast intro: steps_refl)

lemma get_handler_steps:
  assumes "frontend_get parse_uuid debug exec svc order req f = (rg, f')"
  shows "\<exists>refs'. steps_to (frontend_step (parsed parse_uuid)) (f, refs, ended) (f', refs', ended)"
proof -
  obtain r where "on_key ''Get'' parse_uuid debug (coord_get (parsed parse_uuid) exec svc order) req f = (r, f')"
    using assms by (auto simp: frontend_get_def Let_def split: prod.splits)
  then show ?thesis by (rule on_key_steps) (rule fe_get)
qed

lemma put_handler_steps:
  assumes "frontend_put parse_uuid debug svc req v f = (rp, f')"
  shows "\<exists>refs'. steps_to (frontend_step (parsed parse_uuid)) (f, refs, ended) (f', refs', ended)"
proof -
  obtain r where "on_key ''Put'' parse_uuid debug (\<lambda>ks key. coord_put (parsed parse_uuid) svc ks key v) req f = (r, f')"
    using assms by (auto simp: frontend_put_def Let_def split: prod.splits)
  then show ?thesis by (rule on_key_steps) (rule fe_put)
qed

lemma delete_handler_steps:
  assumes "frontend_delete parse_uuid debug svc req f = (rd, f')"
  shows "\<exists>refs'. steps_to (frontend_step (parsed parse_uuid)) (f, refs, ended) (f', refs', ended)"
proof -
  obtain r where "on_key ''Delete'' parse_uuid debug (coord_del (parsed parse_uuid) svc) req f = (r, f')"
    using assms by (auto simp: frontend_delete_def Let_def split: prod.splits)
  then show ?thesis by (rule on_key_steps) (rule fe_delete)
qed

text \<open>A transaction that the store has aborted when it is committed stays in the table: its state is still preparing, so no request ends it.\<close>

lemma aborted_commit_stays:
  assumes "coord_commit exec svc sch s = (Err (CoordTransactionAborted CoordOther), s')" "tn_state (co_tx s) = TxRunning"
  shows "tn_state (co_tx s') = TxPreparing \<and> coord_abort exec' svc' order s' = (Err TransactionNoLongerRunning, s') \<and>
    coord_commit exec' svc' sch' s' = (Err TransactionNoLongerRunning, s')"
proof -
  have "tn_state (co_tx s') = TxPreparing"
    using assms
    by (auto simp: coord_commit_def Let_def abort_with_def dest!: commit_prepared_tx
        split: outcome.splits prod.splits joined.splits if_splits)
  then show ?thesis by (simp add: coord_abort_def coord_commit_def)
qed

subsection \<open>The oracle\<close>

lemma find_range_Some:
  "find_range key rs = Some r \<Longrightarrow> r \<in> set rs \<and> key_range_includes (key_range_from_proto r) key"
  by (induction rs) (auto split: if_splits)

lemma find_range_None:
  "find_range key rs = None \<longleftrightarrow> (\<forall>r \<in> set rs. \<not> key_range_includes (key_range_from_proto r) key)"
  by (induction rs) auto

lemma includes_bound_of:
  "key_range_includes (key_range_from_proto r) key \<Longrightarrow>
     key_range_includes \<lparr>lower_bound_inclusive = bound_of (pkr_lower_bound_inclusive r),
       upper_bound_exclusive = bound_of (pkr_upper_bound_exclusive r)\<rparr> key"
  by (auto simp: key_range_includes_def key_range_from_proto_def bound_of_def split: option.splits)

lemma reported_ranges_all:
  "reported_ranges parse_str krs = Ok bs \<Longrightarrow> (ks, r) \<in> set krs \<Longrightarrow> \<exists>b \<in> set bs. base_range_of parse_str ks r = Ok b"
  by (induction krs arbitrary: bs) auto

lemma keyspace_ranges_mem: "k \<in> set ks \<Longrightarrow> r \<in> set (pki_base_key_ranges k) \<Longrightarrow> (pki_keyspace_id k, r) \<in> set (keyspace_ranges ks)"
  by (auto simp: keyspace_ranges_def)

text \<open>The range of a keyspace created without ranges: the warden takes it for all keys, the oracle finds no key in it.\<close>

lemma default_range_not_found:
  assumes "\<And>u. parse_str (to_str u) = Some u"
  shows "find_range key (request_ranges to_str ids []) = None \<and>
    (\<exists>r b. request_ranges to_str ids [] = [r] \<and> base_range_of parse_str (to_str k) r = Ok b \<and>
       key_range_includes (br_key_range b) key)"
  by (simp add: request_ranges_def Let_def base_range_of_def assms bound_of_def key_range_includes_def
      key_range_from_proto_def)

section \<open>Properties\<close>

text \<open>
  C16: The frontend's table leads every request to the right transaction. However requests are interleaved, the entry for
  an id leads to the transaction with that id, no two transactions have the same id, and a transaction that is
  running or preparing is always in the table: its entry goes only after it was aborted or committed, so no
  client loses a transaction that it can still end.
\<close>

theorem frontend_table_correct:
  assumes "reachable frontend_init (frontend_step parse_str) (f, refs, ended)"
  shows "(\<forall>i a. fe_transaction_table f i = Some a \<longrightarrow> (\<exists>tx. fe_heap f a = Some tx \<and> tn_id tx = i)) \<and>
    (\<forall>a b tx ty. fe_heap f a = Some tx \<longrightarrow> fe_heap f b = Some ty \<longrightarrow> tn_id tx = tn_id ty \<longrightarrow> a = b) \<and>
    (\<forall>a tx. fe_heap f a = Some tx \<longrightarrow> tn_state tx = TxRunning \<or> tn_state tx = TxPreparing \<longrightarrow>
       fe_transaction_table f (tn_id tx) = Some a)"
  using frontend.reachable_inv [OF assms] unfolding frontend_inv_def refers_def finished_def prod.case
  by (metis tx_state.distinct(3,5,7,9))

text \<open>
  C23: The frontend's answer to a request to commit, exactly and on every branch, for a handler that runs without another
  request in between. Text that is not an id is refused as an invalid argument with the parser's message, an id
  without an entry in the table as not found, and nothing changes. Otherwise the transaction with that id
  is committed by the coordinator, and what this does to the transaction, the world and the store is all that happens there.
  If it succeeds, the answer is success, the transaction is committed, and exactly its entry is removed, so that a further
  request with the id is answered with not found. If it fails, the answer is the coordinator's error and no entry changes;
  a panic is passed on.
\<close>

theorem frontend_commit_answers:
  assumes reach: "reachable frontend_init (frontend_step parse_str) (f, refs, ended)"
    and commit: "frontend_commit parse_uuid debug exec svc sch id_text f = (r, f')"
  shows "case parse_uuid id_text of
      Err e \<Rightarrow> r = Err (InvalidArgument (''Invalid transaction ID format: '' @ e)) \<and> f' = f
    | Panic \<Rightarrow> r = Panic \<and> f' = f
    | Ok i \<Rightarrow>
        (case fe_transaction_table f i of
           None \<Rightarrow> r = Err (NotFound ''Transaction not found'') \<and> f' = f
         | Some a \<Rightarrow>
             (\<exists>tx rc s f1. fe_heap f a = Some tx \<and> tn_id tx = i \<and>
               coord_commit exec svc sch \<lparr>co_tx = tx, co_world = fe_world f, co_table = fe_store f\<rparr> = (rc, s) \<and>
               f1 = f\<lparr>fe_heap := (fe_heap f)(a \<mapsto> co_tx s), fe_world := co_world s, fe_store := co_table s\<rparr> \<and>
               (case rc of
                  Ok _ \<Rightarrow> r = Ok ''Commit request processed successfully'' \<and>
                    f' = f1\<lparr>fe_transaction_table := (fe_transaction_table f)(i := None)\<rparr> \<and>
                    tn_state (co_tx s) = TxCommitted \<and>
                    fst (frontend_commit parse_uuid debug exec svc sch id_text f') = Err (NotFound ''Transaction not found'')
                | Err ce \<Rightarrow> r = Err (InternalStatus (''Commit operation failed: '' @ debug ce)) \<and> f' = f1
                | Panic \<Rightarrow> r = Panic \<and> f' = f1)))"
proof -
  have found: "\<exists>tx rc s. fe_heap f a = Some tx \<and> tn_id tx = i \<and>
      coord_commit exec svc sch \<lparr>co_tx = tx, co_world = fe_world f, co_table = fe_store f\<rparr> = (rc, s) \<and>
      locked a (coord_commit exec svc sch) f =
        (rc, f\<lparr>fe_heap := (fe_heap f)(a \<mapsto> co_tx s), fe_world := co_world s, fe_store := co_table s\<rparr>)"
    if entry: "fe_transaction_table f i = Some a" for i a
  proof -
    obtain tx where "fe_heap f a = Some tx" "tn_id tx = i"
      using frontend.reachable_inv [OF reach] entry by (auto simp: frontend_inv_def refers_def)
    then show ?thesis by (simp add: locked_def Let_def split: prod.splits)
  qed
  from commit [unfolded frontend_commit_def] show ?thesis
  proof (cases rule: to_end_cases)
    case (success i a f1)
    obtain tx rc s where c: "fe_heap f a = Some tx" "tn_id tx = i"
        "coord_commit exec svc sch \<lparr>co_tx = tx, co_world = fe_world f, co_table = fe_store f\<rparr> = (rc, s)"
        "(Ok (), f1) = (rc, f\<lparr>fe_heap := (fe_heap f)(a \<mapsto> co_tx s), fe_world := co_world s, fe_store := co_table s\<rparr>)"
      using found [OF success(2)] success(3) by auto
    then have "tn_state (co_tx s) = TxCommitted" using commit_tx [OF c(3)] c(4) by simp
    moreover have "fst (frontend_commit parse_uuid debug exec svc sch id_text f') = Err (NotFound ''Transaction not found'')"
      using success(1,5)
      by (simp add: frontend_commit_def to_end_def parse_transaction_id_def find_transaction_def remove_from_table_def)
    ultimately show ?thesis using success(1,2,4,5) c by (auto simp: remove_from_table_def)
  next
    case (kept i a ro)
    obtain tx rc s where c: "fe_heap f a = Some tx" "tn_id tx = i"
        "coord_commit exec svc sch \<lparr>co_tx = tx, co_world = fe_world f, co_table = fe_store f\<rparr> = (rc, s)"
        "(ro, f') = (rc, f\<lparr>fe_heap := (fe_heap f)(a \<mapsto> co_tx s), fe_world := co_world s, fe_store := co_table s\<rparr>)"
      using found [OF kept(2)] kept(3) by auto
    then show ?thesis using kept(1,2,4,5) by (cases ro) (auto simp: failed_def)
  qed auto
qed

text \<open>
  C21: The oracle and the warden agree. When the oracle sends a key to a range of a keyspace, and the
  warden reads the keyspaces with that one among them, the warden has a base range with the same id whose bounds include the key. So
  the range server that the warden gives the range to serves the key. If the oracle finds no range, none of the
  ranges with two non-empty bounds includes the key.
\<close>

theorem oracle_agrees_with_warden:
  assumes printed: "\<And>u. parse_str (to_str u) = Some u"
    and info: "universe (Some (ProtoKeyspaceId (to_str (ksid_id k)))) = Ok (Some info)" "pki_keyspace_id info = to_str (ksid_id k)"
    and answer: "full_range_id_of_key parse_str to_str universe k key = Ok found"
    and warden: "reported_ranges parse_str (keyspace_ranges infos) = Ok bs" "info \<in> set infos"
  shows "case found of
      Some i \<Rightarrow> \<exists>b \<in> set bs. i = \<lparr>frid_keyspace_id = br_keyspace_id b, frid_range_id = br_id b\<rparr> \<and> key_range_includes (br_key_range b) key
    | None \<Rightarrow> \<forall>r \<in> set (pki_base_key_ranges info). pkr_lower_bound_inclusive r \<noteq> [] \<longrightarrow> pkr_upper_bound_exclusive r \<noteq> [] \<longrightarrow>
        (\<forall>b. base_range_of parse_str (pki_keyspace_id info) r = Ok b \<longrightarrow> \<not> key_range_includes (br_key_range b) key)"
proof (cases "find_range key (pki_base_key_ranges info)")
  case None
  then have "found = None" using answer info(1) by (simp add: full_range_id_of_key_def)
  moreover have "\<not> key_range_includes (br_key_range b) key"
    if "r \<in> set (pki_base_key_ranges info)" "pkr_lower_bound_inclusive r \<noteq> []" "pkr_upper_bound_exclusive r \<noteq> []"
      "base_range_of parse_str (pki_keyspace_id info) r = Ok b" for r b
    using that None by (auto simp: find_range_None base_range_of_def bound_of_def key_range_from_proto_def split: option.splits)
  ultimately show ?thesis by simp
next
  case (Some r)
  note r = find_range_Some [OF Some]
  obtain b where b: "b \<in> set bs" "base_range_of parse_str (to_str (ksid_id k)) r = Ok b"
    using reported_ranges_all [OF warden(1) keyspace_ranges_mem [OF warden(2)]] r info(2) by metis
  then show ?thesis
    using answer info(1) Some includes_bound_of [OF conjunct2 [OF r]] printed
    by (auto simp: full_range_id_of_key_def base_range_of_def split: option.splits intro!: bexI [of _ b])
qed

section \<open>Examples and witnesses\<close>

text \<open>A frontend with one transaction that has used no range.\<close>

definition ex_frontend :: "unit frontend" where
  "ex_frontend = \<lparr>fe_transaction_table = [5 \<mapsto> 0], fe_heap = [0 \<mapsto> transaction_new (ex_tx 5)], fe_world = (), fe_store = ex_row\<rparr>"

definition ex_no_ranges :: schedule where
  "ex_no_ranges = \<lparr>sch_early = [], sch_late = [], sch_joined = [], sch_finish = (\<lambda>_. []), sch_keys = (\<lambda>_. [])\<rparr>"

definition ex_read_uuid :: "string \<Rightarrow> (string, uuid) outcome" where
  "ex_read_uuid s = (if s = ''5'' then Ok 5 else Err ''no id'')"

lemma ex_frontend_reachable: "reachable frontend_init (frontend_step (\<lambda>_. None)) (ex_frontend, {}, {})"
proof (rule reach_step [OF reach_init])
  show "frontend_init (frontend_new () Map.empty, {}, {})"
    by (auto simp: frontend_init_def)
  have "frontend_start_transaction (\<lambda>_. ''5'') (reliable tx_sem) (ex_tx 5) 0 (frontend_new () Map.empty) =
      (Ok \<lparr>st_status = ''Start transaction request processed successfully'', st_transaction_id = ''5''\<rparr>, ex_frontend)"
    by (simp add: frontend_start_transaction_def coord_start_transaction_def start_transaction_def reliable_def frontend_new_def
        ex_frontend_def ex_row_def ex_tx_def)
  then show "frontend_step (\<lambda>_. None) (frontend_new () Map.empty, {}, {}) (ex_frontend, {}, {})"
    by (rule fe_start) (simp_all add: frontend_new_def known_ids_def)
qed

theorem frontend_table_correct_witness:
  "fe_transaction_table ex_frontend 5 = Some 0 \<and> (\<exists>tx. fe_heap ex_frontend 0 = Some tx \<and> tn_id tx = 5)"
proof -
  have "fe_transaction_table ex_frontend 5 = Some 0" by (simp add: ex_frontend_def)
  then show ?thesis using frontend_table_correct [OF ex_frontend_reachable] by blast
qed

lemma ex_frontend_commit:
  "fst (frontend_commit ex_read_uuid (\<lambda>_. []) (reliable tx_sem) ex_svc ex_no_ranges ''5'' ex_frontend) =
     Ok ''Commit request processed successfully''"
  by (simp add: frontend_commit_def to_end_def parse_transaction_id_def ex_read_uuid_def find_transaction_def ex_frontend_def
      locked_def coord_commit_def transaction_new_def ex_no_ranges_def ex_svc_def commit_prepared_def commit_transaction_def
      reliable_def ex_row_def ex_tx_def Let_def)

theorem frontend_commit_answers_witness:
  "\<exists>f' tx. frontend_commit ex_read_uuid (\<lambda>_. []) (reliable tx_sem) ex_svc ex_no_ranges ''5'' ex_frontend =
      (Ok ''Commit request processed successfully'', f') \<and>
     fe_heap f' 0 = Some tx \<and> tn_state tx = TxCommitted \<and>
     fst (frontend_commit ex_read_uuid (\<lambda>_. []) (reliable tx_sem) ex_svc ex_no_ranges ''5'' f') = Err (NotFound ''Transaction not found'')"
proof -
  let ?c = "frontend_commit ex_read_uuid (\<lambda>_. []) (reliable tx_sem) ex_svc ex_no_ranges ''5''"
  have c: "?c ex_frontend = (Ok ''Commit request processed successfully'', snd (?c ex_frontend))"
    using ex_frontend_commit by (metis prod.collapse)
  have "ex_read_uuid ''5'' = Ok 5" "fe_transaction_table ex_frontend 5 = Some 0"
    by (simp_all add: ex_read_uuid_def ex_frontend_def)
  then have "\<exists>tx. fe_heap (snd (?c ex_frontend)) 0 = Some tx \<and> tn_state tx = TxCommitted \<and>
      fst (?c (snd (?c ex_frontend))) = Err (NotFound ''Transaction not found'')"
    using frontend_commit_answers [OF ex_frontend_reachable c]
    by (auto split: outcome.splits) (metis outcome.exhaust old.unit.exhaust)
  then show ?thesis using c by blast
qed

theorem oracle_agrees_with_warden_witness:
  "full_range_id_of_key ex_parse_uuid ex_print_uuid (\<lambda>_. Ok (Some (hd ex_keyspaces))) \<lparr>ksid_id = 1\<rparr> [3] =
     Ok (Some \<lparr>frid_keyspace_id = \<lparr>ksid_id = 1\<rparr>, frid_range_id = 5\<rparr>) \<and>
   (\<exists>b \<in> {ex_low, ex_high}. br_id b = 5 \<and> key_range_includes (br_key_range b) [3])"
proof -
  let ?o = "full_range_id_of_key ex_parse_uuid ex_print_uuid (\<lambda>_. Ok (Some (hd ex_keyspaces))) \<lparr>ksid_id = 1\<rparr> [3]"
  have o: "?o = Ok (Some \<lparr>frid_keyspace_id = \<lparr>ksid_id = 1\<rparr>, frid_range_id = 5\<rparr>)"
    by (simp add: full_range_id_of_key_def ex_keyspaces_def key_range_includes_def key_range_from_proto_def ex_uuid_text)
  have "hd ex_keyspaces \<in> set ex_keyspaces" "pki_keyspace_id (hd ex_keyspaces) = ex_print_uuid (ksid_id \<lparr>ksid_id = 1\<rparr>)"
    by (simp_all add: ex_keyspaces_def)
  then show ?thesis
    using oracle_agrees_with_warden [OF ex_uuid_text refl _ o ex_reported] o by (auto simp: ex_base_range_def)
qed

end
