(* ===== verification/Spec2Isabelle.thy ===== *)
theory Spec2Isabelle
  imports Epoch_Service Range_Isolation Lease_Protocol Transaction_Writes Warden Mem_Table Epoch_Client Frontend
begin

text \<open>
  Verification of atomix, a distributed transactional key-value store.

  \<^bold>\<open>The program.\<close> Keys live in keyspaces, which are split into ranges. A client talks to a frontend, which runs each
  transaction in a coordinator. The coordinator reads and writes at the range servers that hold the ranges, and commits with two
  phases: every range prepares, the outcome is recorded in the transaction state store, and the ranges are told. The epoch at which a
  transaction commits is read from epoch publishers, which an epoch server advances; a range may only prepare
  for epochs in the lease it holds. The universe manager creates keyspaces, and the warden assigns their ranges to range servers.

  \<^bold>\<open>Conventions.\<close> A result is Ok, an error, or a panic. Code that waits is split where it waits, and the state
  machines of the development interleave the pieces. Traits are records of operations. The database is a
  session: a function that executes a statement, or fails before or after it took effect; what each statement means is
  written out. Iteration orders of hash tables, schedules of tasks, clock readings and drawn uuids are arguments. Code of other packages
  (flatbuffers, uuid, the skip list, the database driver) is an argument with what is documented of it as a hypothesis. Words of
  64 bits wrap around as in the code.

  \<^bold>\<open>Theories.\<close>

  \<^item> Atomix\_Prelude: results, reachability, the locales of invariants and of print/parse pairs, numbers and their text.
  \<^item> Common\_Types (common/src): key ranges, regions, zones, host and port, identifiers and their wire forms; their round trips.
  \<^item> RS\_Messages (flatbuf, rangeserver/src/error.rs): messages and errors of range servers.
  \<^item> Lock\_Table (rangeserver/src/range\_manager/lock\_table.rs): acquire, release, wait-die; no cycle of waiting
    transactions, the exact result of acquire, first come first served.
  \<^item> Prefetching\_Buffer (rangeserver/src/prefetching\_buffer.rs): bookkeeping, completion, stale fetches, waking of waiters.
  \<^item> Cql: sessions of the database that may fail.
  \<^item> Tx\_State\_Store (tx\_state\_store/src): start, commit, abort; one outcome per transaction whoever asks.
  \<^item> Epoch\_Storage, Epoch\_Service (epoch/src, epoch\_publisher/src/server.rs, epoch\_reader/src): a read of the
    epoch is at most one behind every earlier read, and the majorities of reading and of updating.
  \<^item> Epoch\_Client (epoch\_publisher/src/client.rs and the dispatch of server.rs): a read and its answer, and the
    expiration of requests, which is shown to end.
  \<^item> RS\_Storage (rangeserver/src/storage/cassandra.rs): reads and writes of versions, fencing of old leaders.
  \<^item> Wal (rangeserver/src/wal, for\_testing/in\_memory\_wal.rs): the log in the database and the in-memory log.
  \<^item> Range\_Manager, Range\_Isolation, Lease\_Protocol (rangeserver/src/range\_manager): load, get, prepare, commit, abort and lease
    renewal; isolation by the lock, reads of committed values, disjoint leases.
  \<^item> Mem\_Table (rangeserver/src/cache): the cache of a range as a ring of tables; a read finds a newest write.
  \<^item> Warden\_Handler, Range\_Server (rangeserver/src/warden\_handler.rs, server.rs): assignment updates and request handlers.
  \<^item> Range\_Client (rangeclient/src, coordinator/src/rangeclient.rs): requests, responses and timeouts of a client.
  \<^item> Coordinator, Transaction\_Writes (coordinator/src): operations of a transaction and its commit; atomicity, agreement of
    the answer with the record, reads of own writes, what is sent to prepare.
  \<^item> Universe (universe/src): creation and lookup of keyspaces.
  \<^item> Warden (warden/src): reading of base ranges and their assignment; each range has one server and none is lost.
  \<^item> Frontend (frontend/src): the requests of clients and the table of transactions; the oracle of range
    assignments and its agreement with the warden.

  \<^bold>\<open>Locales.\<close> invariant\_system carries the proofs by reachability: the lock table, the prefetching buffer, the transaction
  state store, ranges and their leases, the range server, the clients, the coordinator, the warden and the frontend are
  interpretations, each on the step relation of its model. print\_parse is interpreted on the textual forms, epoch\_store on
  both storages of the epoch, record\_store and range\_store on the storage of ranges, and log\_store on the in-memory log.

  \<^bold>\<open>Loops and bounds.\<close> Recursion over the data of a loop is structural. Loops that wait for an event are modelled by one iteration
  and the step relation repeats them. The expiration loop of the epoch client is a partial function, and is proved to return for
  every queue and clock; between its iterations the queue is left alone. No fuel is used.

  \<^bold>\<open>Composition.\<close> The coordinator runs on the model of the transaction state store, and the frontend on that of the coordinator. A
  request of a range client is answered by the handlers of the range server (Range\_Client). Leases are renewed by the range
  manager on the model of its storage (Lease\_Protocol). Ranges that the warden creates can be loaded by range servers, and
  updates of its assignment are followed by them (Warden). A range that the oracle finds is one that the warden assigns (Frontend).

  \<^bold>\<open>Not modelled.\<close> The entry points (main.rs) and configuration structs only wire and carry data. The loops that
  receive packets and spawn handlers, gRPC connections, retries and sleeps belong to the tokio and tonic runtimes; the handlers they
  spawn are modelled. Name resolution is the operating system's. Test doubles and tests are not part of the program. Generated
  protobuf and flatbuffer code is not in the sources. An operation of the frontend on a transaction is one step: what other tasks do
  to the shared services meanwhile is covered because every step may use other services.
\<close>

end
